(* ===== verification/Prelude.thy ===== *)
theory Prelude
  imports Complex_Main "HOL-Library.Word"
begin

text \<open>
  What every component of the model shares: the machine integers of the firmware, Rust's
  \<open>Result\<close>, panics as values, and checked access to slices and buffers with the lemmas that
  compute them. A Rust function that can panic (an index or a slice out of range, a
  \<open>copy_from_slice\<close> of two lengths, an \<open>unreachable!()\<close>) has a result of type \<open>'a exec\<close>;
  one that returns \<open>Result\<close> has a result of type \<open>('a, 'e) result\<close>. Lengths and positions
  (\<open>usize\<close>) are \<open>nat\<close>: every buffer of the firmware is far below \<open>2 ^ 32\<close> bytes. A \<open>&str\<close>
  is the list of its UTF-8 bytes, each byte written as a \<open>char\<close>.
\<close>

unbundle bit_operations_syntax

named_theorems exec_simps \<open>equations that compute checked buffer operations\<close>
named_theorems errcode_defs \<open>the definitions of the wire error codes\<close>

section \<open>Machine integers and strings\<close>

type_synonym u8 = "8 word"
type_synonym u16 = "16 word"
type_synonym u32 = "32 word"
type_synonym u64 = "64 word"
type_synonym f32 = rat
type_synonym str = string

definition as_bytes :: "str \<Rightarrow> u8 list" where
  "as_bytes s = map of_char s"

definition of_bytes :: "u8 list \<Rightarrow> str" where
  "of_bytes bs = map (\<lambda>b. char_of (unat b)) bs"

lemma length_as_bytes [simp]: "length (as_bytes s) = length s"
  by (simp add: as_bytes_def)

lemma length_of_bytes [simp]: "length (of_bytes bs) = length bs"
  by (simp add: of_bytes_def)

lemma as_bytes_append [simp]: "as_bytes (s @ t) = as_bytes s @ as_bytes t"
  by (simp add: as_bytes_def)

lemma as_bytes_Nil [simp]: "as_bytes [] = []"
  by (simp add: as_bytes_def)

lemma as_bytes_Cons [simp]: "as_bytes (c # s) = of_char c # as_bytes s"
  by (simp add: as_bytes_def)

lemma of_bytes_simps [simp]:
  "of_bytes [] = []"
  "of_bytes (b # bs) = char_of (unat b) # of_bytes bs"
  "of_bytes (bs @ cs) = of_bytes bs @ of_bytes cs"
  by (simp_all add: of_bytes_def)

abbreviation byte :: "char \<Rightarrow> u8" where
  "byte c \<equiv> of_char c"

lemma unat_u8_less: "unat (b :: u8) < 256"
proof -
  have "unat b < 2 ^ LENGTH(8)"
    by (rule unsigned_less)
  then show ?thesis by simp
qed

lemma unat_of_char [simp]: "unat (of_char c :: u8) = of_char c"
proof -
  have "(of_char c :: u8) = of_nat (of_char c)"
    by (simp add: of_nat_of_char)
  then have "unat (of_char c :: u8) = of_char c mod 256"
    by (simp add: unat_of_nat del: of_nat_of_char)
  then show ?thesis
    by simp
qed

lemma of_bytes_as_bytes [simp]: "of_bytes (as_bytes s) = s"
  by (induction s) simp_all

lemma as_bytes_inject [simp]: "as_bytes s = as_bytes t \<longleftrightarrow> s = t"
  by (metis of_bytes_as_bytes)

lemma as_bytes_of_bytes [simp]: "as_bytes (of_bytes bs) = bs"
proof (induction bs)
  case (Cons b bs)
  have "(of_char (char_of (unat b) :: char) :: nat) = unat b"
    using unat_u8_less [of b] by simp
  then have "(of_char (char_of (unat b) :: char) :: u8) = b"
    by (metis of_nat_of_char unat_of_char word_unat_eq_iff)
  with Cons show ?case by simp
qed simp

section \<open>Rust results and panics\<close>

datatype ('a, 'e) result = Ok 'a | Err 'e

datatype 'a exec = Ret 'a | Panic

fun bind_exec :: "'a exec \<Rightarrow> ('a \<Rightarrow> 'b exec) \<Rightarrow> 'b exec" where
  "bind_exec (Ret x) f = f x"
| "bind_exec Panic f = Panic"

text \<open>The operator \<open>?\<close> on a \<open>Result\<close>: an error is the result of the whole function.\<close>

fun bind_result :: "('a, 'e) result \<Rightarrow> ('a \<Rightarrow> ('b, 'e) result) \<Rightarrow> ('b, 'e) result" where
  "bind_result (Ok x) f = f x"
| "bind_result (Err e) f = Err e"

fun ok_or :: "'e \<Rightarrow> 'a option \<Rightarrow> ('a, 'e) result" where
  "ok_or e None = Err e"
| "ok_or e (Some x) = Ok x"

fun result_ok :: "('a, 'e) result \<Rightarrow> 'a option" where
  "result_ok (Ok x) = Some x"
| "result_ok (Err e) = None"

fun unwrap_or :: "'a \<Rightarrow> 'a option \<Rightarrow> 'a" where
  "unwrap_or d None = d"
| "unwrap_or d (Some x) = x"

lemma bind_exec_assoc: "bind_exec (bind_exec m f) g = bind_exec m (\<lambda>x. bind_exec (f x) g)"
  by (cases m) simp_all

lemma bind_exec_eq_Ret:
  "bind_exec m f = Ret y \<longleftrightarrow> (\<exists>x. m = Ret x \<and> f x = Ret y)"
  by (cases m) simp_all

lemma bind_exec_eq_Panic:
  "bind_exec m f = Panic \<longleftrightarrow> m = Panic \<or> (\<exists>x. m = Ret x \<and> f x = Panic)"
  by (cases m) simp_all

lemma bind_result_eq_Ok:
  "bind_result m f = Ok y \<longleftrightarrow> (\<exists>x. m = Ok x \<and> f x = Ok y)"
  by (cases m) simp_all

lemma not_Panic_iff: "m \<noteq> Panic \<longleftrightarrow> (\<exists>x. m = Ret x)"
  by (cases m) simp_all

section \<open>Slices and buffers\<close>

text \<open>\<open>xs[i]\<close>, \<open>&xs[a..b]\<close>, \<open>buf[i] = v\<close> and \<open>buf[i..j].copy_from_slice(vs)\<close>.\<close>

definition get_at :: "'a list \<Rightarrow> nat \<Rightarrow> 'a exec" where
  "get_at xs i = (if i < length xs then Ret (xs ! i) else Panic)"

definition slice :: "'a list \<Rightarrow> nat \<Rightarrow> nat \<Rightarrow> 'a list exec" where
  "slice xs a b = (if a \<le> b \<and> b \<le> length xs then Ret (take (b - a) (drop a xs)) else Panic)"

definition put_at :: "'a list \<Rightarrow> nat \<Rightarrow> 'a \<Rightarrow> 'a list exec" where
  "put_at buf i v = (if i < length buf then Ret (buf[i := v]) else Panic)"

text \<open>Consecutive single stores \<open>buf[o] = v0; buf[o + 1] = v1; ...\<close>.\<close>

fun put_seq :: "'a list \<Rightarrow> nat \<Rightarrow> 'a list \<Rightarrow> 'a list exec" where
  "put_seq buf i [] = Ret buf"
| "put_seq buf i (v # vs) = bind_exec (put_at buf i v) (\<lambda>buf'. put_seq buf' (Suc i) vs)"

definition copy_into :: "'a list \<Rightarrow> nat \<Rightarrow> nat \<Rightarrow> 'a list \<Rightarrow> 'a list exec" where
  "copy_into buf a b vs =
     (if a \<le> b \<and> b \<le> length buf \<and> length vs = b - a
      then Ret (take a buf @ vs @ drop b buf) else Panic)"

lemma put_at_Ret [exec_simps]: "i < length buf \<Longrightarrow> put_at buf i v = Ret (buf[i := v])"
  by (simp add: put_at_def)

lemma get_at_Ret [exec_simps]: "i < length xs \<Longrightarrow> get_at xs i = Ret (xs ! i)"
  by (simp add: get_at_def)

lemma slice_Ret [exec_simps]:
  "a \<le> b \<Longrightarrow> b \<le> length xs \<Longrightarrow> slice xs a b = Ret (take (b - a) (drop a xs))"
  by (simp add: slice_def)

lemma copy_into_Ret [exec_simps]:
  "a \<le> b \<Longrightarrow> b \<le> length buf \<Longrightarrow> length vs = b - a \<Longrightarrow>
     copy_into buf a b vs = Ret (take a buf @ vs @ drop b buf)"
  by (simp add: copy_into_def)

lemma put_seq_eq [exec_simps]:
  "put_seq buf i vs =
     (if vs = [] \<or> i + length vs \<le> length buf
      then Ret (take i buf @ vs @ drop (i + length vs) buf) else Panic)"
proof (induction vs arbitrary: buf i)
  case (Cons v vs)
  show ?case
  proof (cases "i < length buf")
    case True
    have tk: "take (Suc i) (buf[i := v]) = take i buf @ [v]"
      using True by (simp add: take_Suc_conv_app_nth)
    have IH: "put_seq (buf[i := v]) (Suc i) vs =
        (if vs = [] \<or> Suc i + length vs \<le> length buf
         then Ret (take i buf @ [v] @ vs @ drop (Suc i + length vs) buf) else Panic)"
      using Cons.IH [of "buf[i := v]" "Suc i"] tk
        id_take_nth_drop [of i "buf[i := v]"] True
      by (cases "vs = []") (simp_all add: add.commute)
    show ?thesis
      using True by (simp add: put_at_def IH)
  qed (simp add: put_at_def)
qed simp

declare put_seq.simps [simp del]

lemma put_seq_length: "put_seq buf i vs = Ret buf' \<Longrightarrow> length buf' = length buf"
  by (auto simp: put_seq_eq split: if_splits)

text \<open>What a run of stores leaves of the buffer.\<close>

definition splice_at :: "nat \<Rightarrow> 'a list \<Rightarrow> 'a list \<Rightarrow> 'a list" where
  "splice_at i vs buf = take i buf @ vs @ drop (i + length vs) buf"

lemma splice_at_facts:
  assumes "length vs = n" "i + n \<le> length buf"
  shows "length (splice_at i vs buf) = length buf"
    and "take (i + n) (splice_at i vs buf) = take i buf @ vs"
    and "drop (i + (n + k)) (splice_at i vs buf) = drop (i + (n + k)) buf"
  using assms by (simp_all add: splice_at_def ac_simps)

text \<open>Stores into the untouched part of a buffer.\<close>

lemma copy_into_erased:
  assumes "length xs \<le> a" "a + length vs \<le> length xs + n"
  shows "copy_into (xs @ replicate n x) a (a + length vs) vs =
    Ret (xs @ replicate (a - length xs) x @ vs @ replicate (length xs + n - (a + length vs)) x)"
  using assms by (cases "n = 0") (auto simp: copy_into_def min_def)

lemma put_at_erased:
  assumes "length xs \<le> a" "a < length xs + n"
  shows "put_at (xs @ replicate n x) a v =
    Ret (xs @ replicate (a - length xs) x @ [v] @ replicate (length xs + n - (a + 1)) x)"
proof -
  have "a - length xs < n"
    using assms by linarith
  then show ?thesis
    using assms
    by (auto simp: put_at_def list_update_append upd_conv_take_nth_drop min_def)
qed

text \<open>A sequence of stores, each at its offset; in ascending order they lay out the buffer.\<close>

fun store_all :: "'a list \<Rightarrow> (nat \<times> 'a list) list \<Rightarrow> 'a list exec" where
  "store_all buf [] = Ret buf"
| "store_all buf ((off, vs) # stores) =
     bind_exec (copy_into buf off (off + length vs) vs) (\<lambda>buf'. store_all buf' stores)"

fun layout :: "'a \<Rightarrow> nat \<Rightarrow> nat \<Rightarrow> (nat \<times> 'a list) list \<Rightarrow> 'a list" where
  "layout x n pos [] = replicate (n - pos) x"
| "layout x n pos ((off, vs) # stores) =
     replicate (off - pos) x @ vs @ layout x n (off + length vs) stores"

fun ascending :: "nat \<Rightarrow> nat \<Rightarrow> (nat \<times> 'a list) list \<Rightarrow> bool" where
  "ascending n pos [] = (pos \<le> n)"
| "ascending n pos ((off, vs) # stores) = (pos \<le> off \<and> ascending n (off + length vs) stores)"

lemma ascending_le: "ascending n pos stores \<Longrightarrow> pos \<le> n"
  by (induction n pos stores rule: ascending.induct) auto

lemma store_all_ascending:
  "length xs = pos \<Longrightarrow> ascending n pos stores \<Longrightarrow>
     store_all (xs @ replicate (n - pos) x) stores = Ret (xs @ layout x n pos stores)"
proof (induction n pos stores arbitrary: xs rule: ascending.induct)
  case (2 n pos off vs stores)
  have le: "off + length vs \<le> n"
    using 2 ascending_le by fastforce
  have "copy_into (xs @ replicate (n - pos) x) off (off + length vs) vs =
      Ret ((xs @ replicate (off - pos) x @ vs) @ replicate (n - (off + length vs)) x)"
    using copy_into_erased [of xs off vs "n - pos" x] 2(2,3) le by simp
  moreover have "length (xs @ replicate (off - pos) x @ vs) = off + length vs"
    using 2(2,3) by simp
  ultimately show ?case
    using 2(1) [of "xs @ replicate (off - pos) x @ vs"] 2(3) by simp
qed simp

section \<open>Slices cut into chunks\<close>

text \<open>The slice method \<open>as_chunks::<N>()\<close>: the full chunks and the remainder.\<close>

function as_chunks :: "nat \<Rightarrow> 'a list \<Rightarrow> 'a list list \<times> 'a list" where
  "as_chunks n xs =
     (if n = 0 \<or> length xs < n then ([], xs)
      else let (cs, r) = as_chunks n (drop n xs) in (take n xs # cs, r))"
  by pat_completeness auto
termination
  by (relation "measure (\<lambda>(n, xs). length xs)") auto

declare as_chunks.simps [simp del]

lemma as_chunks_short: "length xs < n \<Longrightarrow> as_chunks n xs = ([], xs)"
  by (simp add: as_chunks.simps)

lemma as_chunks_step:
  "length c = n \<Longrightarrow> n \<noteq> 0 \<Longrightarrow>
     as_chunks n (c @ xs) = (c # fst (as_chunks n xs), snd (as_chunks n xs))"
  by (subst as_chunks.simps) (simp add: case_prod_beta Let_def)

section \<open>Bit operations read as arithmetic\<close>

lemma unat_drop_bit: "unat (drop_bit k x) = unat x div 2 ^ k"
  by (rule trans [OF unat_drop_bit_eq drop_bit_eq_div])

lemma nat_push_bit_or:
  fixes a b :: nat
  assumes "b < 2 ^ k"
  shows "push_bit k a OR b = 2 ^ k * a + b"
proof -
  have "take_bit k b = b"
    using assms by (simp add: take_bit_nat_eq_self_iff)
  then have b: "bit b n \<Longrightarrow> n < k" for n
    by (metis bit_take_bit_iff)
  have "push_bit k a + b = push_bit k a OR b"
  proof (rule disjunctive_add)
    show "\<not> bit (push_bit k a) n \<or> \<not> bit b n" for n
      using b [of n] by (auto simp: bit_push_bit_iff)
  qed
  then show ?thesis
    by (simp add: push_bit_eq_mult mult.commute)
qed

text \<open>A shifted value joined with one that fits below it is a sum.\<close>

lemma unat_push_bit_or_mod:
  fixes x y :: "'a::len word"
  assumes "unat y < 2 ^ k" and "k \<le> LENGTH('a)"
  shows "unat (push_bit k x OR y) = 2 ^ k * (unat x mod 2 ^ (LENGTH('a) - k)) + unat y"
proof -
  have "unat (push_bit k x) = push_bit k (unat x mod 2 ^ (LENGTH('a) - k))"
    by (simp only: unsigned_push_bit_eq take_bit_push_bit) (simp add: take_bit_eq_mod)
  then show ?thesis
    using assms(1) by (simp only: unsigned_or_eq nat_push_bit_or)
qed

lemma unat_push_bit_or:
  fixes x y :: "'a::len word"
  assumes "unat y < 2 ^ k" and "unat x < 2 ^ (LENGTH('a) - k)" and "k \<le> LENGTH('a)"
  shows "unat (push_bit k x OR y) = 2 ^ k * unat x + unat y"
  using unat_push_bit_or_mod [of y k x] assms by simp

lemma unat_push_bit:
  fixes x :: "'a::len word"
  assumes "unat x < 2 ^ (LENGTH('a) - k)" and "k \<le> LENGTH('a)"
  shows "unat (push_bit k x) = 2 ^ k * unat x"
  using unat_push_bit_or [of 0 k x] assms by simp

lemma and_bit7: "(x :: u8) AND 0x80 \<noteq> 0 \<longleftrightarrow> bit x 7"
  using and_exp_eq_0_iff_not_bit [of x 7] by simp

lemma bit7_unat: "bit (x :: u8) 7 \<longleftrightarrow> 128 \<le> unat x"
proof -
  have "bit x 7 \<longleftrightarrow> odd (unat x div 128)"
    using bit_unsigned_iff [where 'a = nat, of x 7] by (simp add: bit_iff_odd)
  moreover have "unat x div 128 = (if 128 \<le> unat x then 1 else 0)"
    using unat_u8_less [of x] by (auto simp: div_if)
  ultimately show ?thesis by simp
qed

lemma unat_ucast_u8 [simp]: "unat (ucast (x :: u8) :: u32) = unat x"
  using unat_u8_less [of x] by (simp add: unsigned_ucast_eq take_bit_nat_eq_self)

lemma mult_add_mod:
  fixes X c k m :: nat
  assumes "c < k"
  shows "(X * k + c) mod (k * m) = k * (X mod m) + c"
  using assms by (simp add: mod_mult2_eq)

end
