(* ===== verification/Base64.thy ===== *)
theory Base64
  imports Prelude
begin

text \<open>
  \<open>src/base64.rs\<close>: the encoder and the decoder that carry byte payloads inside the JSON
  commands and responses. Both write into a caller's buffer; the model returns the number of
  bytes written with the buffer as it is left, and \<open>Panic\<close> where a store runs past its end.
\<close>

section \<open>The two tables\<close>

definition ENCODE_TABLE :: "u8 list" where
  "ENCODE_TABLE =
     as_bytes ''ABCDEFGHIJKLMNOPQRSTUVWXYZabcdefghijklmnopqrstuvwxyz0123456789+/''"

text \<open>
  The table is built by three loops \<open>t[(base + i) as usize] = i + off\<close> and two stores, over a
  table of \<open>0xFF\<close>.
\<close>

definition fill_table :: "u8 \<Rightarrow> u8 \<Rightarrow> nat \<Rightarrow> u8 list \<Rightarrow> u8 list" where
  "fill_table base off n t =
     fold (\<lambda>i t. t[unat (base + of_nat i) := of_nat i + off]) [0..<n] t"

definition DECODE_TABLE :: "u8 list" where
  "DECODE_TABLE =
     (let t = replicate 256 0xFF;
          t = fill_table (byte (CHR ''A'')) 0 26 t;
          t = fill_table (byte (CHR ''a'')) 26 26 t;
          t = fill_table (byte (CHR ''0'')) 52 10 t;
          t = t[unat (byte (CHR ''+'')) := 62]
      in t[unat (byte (CHR ''/'')) := 63])"

definition enc6 :: "u32 \<Rightarrow> u8" where
  "enc6 x = ENCODE_TABLE ! unat (x AND 0x3F)"

definition dec6 :: "u8 \<Rightarrow> u8" where
  "dec6 b = DECODE_TABLE ! unat b"

section \<open>Encoding\<close>

fun encode_chunks :: "u8 list list \<Rightarrow> u8 list \<Rightarrow> nat \<Rightarrow> (nat \<times> u8 list) exec" where
  "encode_chunks [] out i = Ret (i, out)"
| "encode_chunks (chunk # cs) out i =
     (let triple = push_bit 16 (ucast (chunk ! 0)) OR push_bit 8 (ucast (chunk ! 1))
                   OR (ucast (chunk ! 2) :: u32)
      in bind_exec
           (put_seq out i [enc6 (drop_bit 18 triple), enc6 (drop_bit 12 triple),
                           enc6 (drop_bit 6 triple), enc6 triple])
           (\<lambda>out. encode_chunks cs out (i + 4)))"

definition encode_tail :: "u8 list \<Rightarrow> nat \<Rightarrow> u8 list \<Rightarrow> (nat \<times> u8 list) exec" where
  "encode_tail r i out =
     (if length r = 1 then
        let b0 = ucast (r ! 0) :: u32
        in bind_exec
             (put_seq out i [enc6 (drop_bit 2 b0), enc6 (push_bit 4 b0),
                             byte (CHR ''=''), byte (CHR ''='')])
             (\<lambda>out. Ret (i + 4, out))
      else if length r = 2 then
        let b0 = ucast (r ! 0) :: u32; b1 = ucast (r ! 1) :: u32
        in bind_exec
             (put_seq out i [enc6 (drop_bit 2 b0), enc6 (push_bit 4 b0 OR drop_bit 4 b1),
                             enc6 (push_bit 2 b1), byte (CHR ''='')])
             (\<lambda>out. Ret (i + 4, out))
      else Ret (i, out))"

definition encode :: "u8 list \<Rightarrow> u8 list \<Rightarrow> (nat \<times> u8 list) exec" where
  "encode input out =
     (let (chunks, remainder) = as_chunks 3 input
      in bind_exec (encode_chunks chunks out 0) (\<lambda>(i, out). encode_tail remainder i out))"

section \<open>Decoding\<close>

fun decode_chunks ::
  "u8 list list \<Rightarrow> u8 list \<Rightarrow> nat \<Rightarrow> ((nat, unit) result \<times> u8 list) exec" where
  "decode_chunks [] out i = Ret (Ok i, out)"
| "decode_chunks (chunk # cs) out i =
     (let a = dec6 (chunk ! 0); b = dec6 (chunk ! 1); c = dec6 (chunk ! 2); d = dec6 (chunk ! 3)
      in if (a OR b OR c OR d) AND 0x80 \<noteq> 0 then Ret (Err (), out)
         else bind_exec
           (put_seq out i [push_bit 2 a OR drop_bit 4 b, push_bit 4 b OR drop_bit 2 c,
                           push_bit 6 c OR d])
           (\<lambda>out. decode_chunks cs out (i + 3)))"

definition decode_tail ::
  "u8 list \<Rightarrow> nat \<Rightarrow> u8 list \<Rightarrow> ((nat, unit) result \<times> u8 list) exec" where
  "decode_tail r i out =
     (if length r = 2 then
        let a = dec6 (r ! 0); b = dec6 (r ! 1)
        in if (a OR b) AND 0x80 \<noteq> 0 then Ret (Err (), out)
           else bind_exec (put_seq out i [push_bit 2 a OR drop_bit 4 b])
                  (\<lambda>out. Ret (Ok (i + 1), out))
      else if length r = 3 then
        let a = dec6 (r ! 0); b = dec6 (r ! 1); c = dec6 (r ! 2)
        in if (a OR b OR c) AND 0x80 \<noteq> 0 then Ret (Err (), out)
           else bind_exec
                  (put_seq out i [push_bit 2 a OR drop_bit 4 b, push_bit 4 b OR drop_bit 2 c])
                  (\<lambda>out. Ret (Ok (i + 2), out))
      else if length r = 1 then Ret (Err (), out)
      else Ret (Ok i, out))"

definition strip_padding :: "u8 list \<Rightarrow> u8 list" where
  "strip_padding input =
     (let len = length input;
          stripped =
            (if len \<ge> 2 \<and> input ! (len - 1) = byte (CHR ''='') \<and> input ! (len - 2) = byte (CHR ''='')
             then len - 2
             else if len \<ge> 1 \<and> input ! (len - 1) = byte (CHR ''='') then len - 1
             else len)
      in take stripped input)"

definition decode :: "u8 list \<Rightarrow> u8 list \<Rightarrow> ((nat, unit) result \<times> u8 list) exec" where
  "decode input out =
     (let (chunks, remainder) = as_chunks 4 (strip_padding input)
      in bind_exec (decode_chunks chunks out 0)
           (\<lambda>(r, out). case r of Err e \<Rightarrow> Ret (Err e, out) | Ok i \<Rightarrow> decode_tail remainder i out))"

section \<open>The specification: RFC 4648 in arithmetic\<close>

text \<open>
  Groups of three bytes are read as one number below \<open>2 ^ 24\<close> and written as four digits to
  base 64; the last group of one or two bytes is padded with zero bits and \<open>=\<close>. Decoding reads
  four digits back as a number and writes its three bytes. Nothing here uses a buffer or a bit
  operation.
\<close>

definition sextet_char :: "nat \<Rightarrow> u8" where
  "sextet_char n = ENCODE_TABLE ! (n mod 64)"

fun b64_text :: "u8 list \<Rightarrow> u8 list" where
  "b64_text [] = []"
| "b64_text [a] =
     (let n = unat a * 2 ^ 4
      in [sextet_char (n div 64), sextet_char n, byte (CHR ''=''), byte (CHR ''='')])"
| "b64_text [a, b] =
     (let n = (unat a * 256 + unat b) * 2 ^ 2
      in [sextet_char (n div 64 ^ 2), sextet_char (n div 64), sextet_char n, byte (CHR ''='')])"
| "b64_text (a # b # c # bs) =
     (let n = unat a * 256 ^ 2 + unat b * 256 + unat c
      in [sextet_char (n div 64 ^ 3), sextet_char (n div 64 ^ 2), sextet_char (n div 64),
          sextet_char n] @ b64_text bs)"

definition sextet :: "u8 \<Rightarrow> nat option" where
  "sextet b = (if unat (dec6 b) < 64 then Some (unat (dec6 b)) else None)"

definition quad_value :: "nat \<Rightarrow> nat \<Rightarrow> nat \<Rightarrow> nat \<Rightarrow> nat" where
  "quad_value a b c d = ((a * 64 + b) * 64 + c) * 64 + d"

definition octets3 :: "nat \<Rightarrow> u8 list" where
  "octets3 n = [of_nat (n div 256 ^ 2), of_nat (n div 256), of_nat n]"

fun b64_bytes :: "u8 list \<Rightarrow> u8 list option" where
  "b64_bytes [] = Some []"
| "b64_bytes [x] = None"
| "b64_bytes [x, y] =
     (case (sextet x, sextet y) of
        (Some a, Some b) \<Rightarrow> Some (take 1 (octets3 (quad_value a b 0 0)))
      | _ \<Rightarrow> None)"
| "b64_bytes [x, y, z] =
     (case (sextet x, sextet y, sextet z) of
        (Some a, Some b, Some c) \<Rightarrow> Some (take 2 (octets3 (quad_value a b c 0)))
      | _ \<Rightarrow> None)"
| "b64_bytes (x # y # z # w # bs) =
     (case (sextet x, sextet y, sextet z, sextet w, b64_bytes bs) of
        (Some a, Some b, Some c, Some d, Some r) \<Rightarrow>
          Some (octets3 (quad_value a b c d) @ r)
      | _ \<Rightarrow> None)"

section \<open>The bit operations compute the digits\<close>

lemma tables_agree_all:
  "list_all (\<lambda>v. dec6 (ENCODE_TABLE ! v) = of_nat v) [0..<64]"
  by code_simp

lemma unat_and_63: "unat ((x :: u32) AND 63) = unat x mod 64"
proof -
  have m: "(63 :: u32) = mask 6"
    by (simp add: mask_eq_exp_minus_1)
  show ?thesis unfolding m 
    by (simp add: take_bit_eq_mod unat_mod_distrib flip: take_bit_eq_mask)
qed

lemma enc6_eq: "enc6 x = sextet_char (unat x)"
  by (simp add: enc6_def sextet_char_def unat_and_63)

lemma unat_triple:
  fixes a b c :: u8
  shows "unat (push_bit 16 (ucast a) OR push_bit 8 (ucast b) OR (ucast c :: u32)) = 
     unat a * 256 ^ 2 + unat b * 256 + unat c" (is "unat (?x OR ?y OR ?z) = _")
proof -
  have "?x OR ?y OR ?z = push_bit 8 (push_bit 8 (ucast a) OR ucast b) OR (ucast c :: u32)"
    by (simp only: push_bit_or push_bit_push_bit) (simp add: or.assoc)
  also have "unat \<dots> = 2 ^ 8 * unat (push_bit 8 (ucast a) OR (ucast b :: u32)) + unat c"
    using unat_u8_less [of a] unat_u8_less [of b] unat_u8_less [of c]
    by (subst unat_push_bit_or) (simp_all add: unat_push_bit_or)
  also have "unat (push_bit 8 (ucast a) OR (ucast b :: u32)) = 2 ^ 8 * unat a + unat b"
    using unat_u8_less [of a] unat_u8_less [of b]
    by (subst unat_push_bit_or) simp_all
  finally show ?thesis by simp
qed



lemma unat_pair:
  fixes a b :: u8
  shows "unat (push_bit 4 (ucast a) OR drop_bit 4 (ucast b) :: u32) = 
     unat a * 16 + unat b div 16"
  using unat_u8_less [of a] unat_u8_less [of b]
  by (subst unat_push_bit_or) (simp_all add: unat_drop_bit)

lemma unat_push_u8:
  fixes a :: u8
  shows "k \<le> 8 \<Longrightarrow> unat (push_bit k (ucast a) :: u32) = unat a * 2 ^ k"
proof -
  assume k: "k \<le> 8"
  have "unat a < 2 ^ 8"
    using unat_u8_less [of a] by simp
  also have "(2::nat) ^ 8 \<le> 2 ^ (32 - k)"
    using k by (intro power_increasing) simp_all
  finally show ?thesis
    using k by (subst unat_push_bit) simp_all
qed

lemma sextet_char_cong: "n mod 64 = m mod 64 \<Longrightarrow> sextet_char n = sextet_char m"
  by (simp add: sextet_char_def)

lemma pair_arith:
  fixes a b :: nat
  assumes "b < 256"
  shows "(a * 256 + b) * 2 ^ 2 div 64 ^ 2 = a div 4"
    and "(a * 256 + b) * 2 ^ 2 div 64 = a * 16 + b div 16"
    and "(a * 256 + b) * 2 ^ 2 mod 64 = b * 4 mod 64"
proof -
  have "(a * 256 + b) * 2 ^ 2 div 64 ^ 2 = (a * 256 + b) div (256 * 4)"
    by simp
  also have "\<dots> = (a * 256 + b) div 256 div 4"
    by (rule div_mult2_eq)
  finally show "(a * 256 + b) * 2 ^ 2 div 64 ^ 2 = a div 4"
    using assms by simp
  have "(a * 256 + b) * 2 ^ 2 div 64 = (b + (a * 16) * 16) div 16"
    by simp
  also have "\<dots> = a * 16 + b div 16"
    by (rule div_mult_self1) simp
  finally show "(a * 256 + b) * 2 ^ 2 div 64 = a * 16 + b div 16" .
  have "(a * 256 + b) * 2 ^ 2 mod 64 = (b * 4 + (a * 16) * 64) mod 64"
    by (simp add: add.commute)
  then show "(a * 256 + b) * 2 ^ 2 mod 64 = b * 4 mod 64"
    by (simp only: mod_mult_self1)
qed

lemma encode_run:
  "i \<le> length out \<Longrightarrow>
   bind_exec (encode_chunks (fst (as_chunks 3 inp)) out i)
     (\<lambda>(i, out). encode_tail (snd (as_chunks 3 inp)) i out) =
   (if i + length (b64_text inp) \<le> length out
    then Ret (i + length (b64_text inp),
              take i out @ b64_text inp @ drop (i + length (b64_text inp)) out)
    else Panic)"
proof (induction inp arbitrary: i out rule: b64_text.induct)
  case 1
  then show ?case by (simp add: as_chunks_short encode_tail_def)
next
  case (2 a)
  have "enc6 (drop_bit 2 (ucast a)) = sextet_char (unat a * 2 ^ 4 div 64)"
   "enc6 (push_bit 4 (ucast a)) = sextet_char (unat a * 2 ^ 4)"
    by (simp_all add: enc6_eq unat_drop_bit unat_push_u8)
  then show ?case
   by (simp add: as_chunks_short encode_tail_def exec_simps Let_def)
next
  case (3 a b)
  have "enc6 (drop_bit 2 (ucast a)) = sextet_char ((unat a * 256 + unat b) * 2 ^ 2 div 64 ^ 2)"
   "enc6 (push_bit 4 (ucast a) OR drop_bit 4 (ucast b)) = sextet_char ((unat a * 256 + unat b) * 2 ^ 2 div 64)"
   "enc6 (push_bit 2 (ucast b)) = sextet_char ((unat a * 256 + unat b) * 2 ^ 2)"
    using pair_arith [OF unat_u8_less, of "unat a" b]
    by (simp_all only: enc6_eq unat_drop_bit unat_push_u8 unat_pair unat_ucast_u8)
       (simp_all add: sextet_char_def)
  then show ?case 
   by (simp add: as_chunks_short encode_tail_def exec_simps Let_def)
next
  case (4 a b c bs)
  have ch: "as_chunks 3 (a # b # c # bs) =
      ([a, b, c] # fst (as_chunks 3 bs), snd (as_chunks 3 bs))"
    using as_chunks_step [of "[a, b, c]" 3 bs] by simp
  let ?n = "unat a * 256 ^ 2 + unat b * 256 + unat c"
  let ?t = "push_bit 16 (ucast a) OR push_bit 8 (ucast b) OR (ucast c :: u32)"
  have e: "enc6 (drop_bit k ?t) = sextet_char (?n div 2 ^ k)" for k
    by (simp only: enc6_eq unat_drop_bit unat_triple)
  define cs where "cs = [enc6 (drop_bit 18 ?t), enc6 (drop_bit 12 ?t), enc6 (drop_bit 6 ?t), enc6 ?t]"
  have cs: "b64_text (a # b # c # bs) = cs @ b64_text bs" "length cs = 4"
    using e [of 18] e [of 12] e [of 6] e [of 0] by (simp_all add: cs_def Let_def)
  have "encode_chunks (fst (as_chunks 3 (a # b # c # bs))) out i =
      bind_exec (put_seq out i cs) (\<lambda>out. encode_chunks (fst (as_chunks 3 bs)) out (i + 4))"
    by (simp add: ch cs_def Let_def)
  moreover have "snd (as_chunks 3 (a # b # c # bs)) = snd (as_chunks 3 bs)"
    by (simp add: ch)
  ultimately have run: "bind_exec (encode_chunks (fst (as_chunks 3 (a # b # c # bs))) out i)
        (\<lambda>(i, out). encode_tail (snd (as_chunks 3 (a # b # c # bs))) i out) =
      (if i + 4 \<le> length out
       then bind_exec (encode_chunks (fst (as_chunks 3 bs)) (splice_at i cs out) (i + 4))
              (\<lambda>(i, out). encode_tail (snd (as_chunks 3 bs)) i out)
       else Panic)"
    using cs by (auto simp: put_seq_eq splice_at_def)
  show ?case
  proof (cases "i + 4 \<le> length out")
    case True
    then show ?thesis
      unfolding run using splice_at_facts [OF cs(2) True] "4.IH" [OF refl, of "i + 4" "splice_at i cs out"]
      by (simp add: cs add.assoc del: b64_text.simps)
  next
    case False
    then show ?thesis
      unfolding run using cs by simp
  qed
qed

lemma decode_table_range: "length DECODE_TABLE = 256 \<and> list_all (\<lambda>v. unat v < 64 \<or> v = 0xFF) DECODE_TABLE"
  by code_simp

lemma bit7_dec6: "bit (dec6 x) 7 \<longleftrightarrow> sextet x = None"
proof -
  have "unat (dec6 x) < 64 \<or> dec6 x = 0xFF"
    using decode_table_range unat_u8_less [of x] by (auto simp: list_all_length dec6_def)
  then show ?thesis
    by (auto simp: bit7_unat sextet_def)
qed

lemma sextet_Some: "sextet x = Some a \<longleftrightarrow> a < 64 \<and> unat (dec6 x) = a"
  by (auto simp: sextet_def)

lemma quad_arith:
  fixes A B C D :: nat
  assumes "B < 64" "C < 64" "D < 64"
  shows "(((A * 64 + B) * 64 + C) * 64 + D) div 256 ^ 2 = 4 * A + B div 16"
    and "(((A * 64 + B) * 64 + C) * 64 + D) div 256 mod 256 = 16 * (B mod 16) + C div 4"
    and "(((A * 64 + B) * 64 + C) * 64 + D) mod 256 = 64 * (C mod 4) + D"
proof -
  let ?n = "((A * 64 + B) * 64 + C) * 64 + D"
  have "?n div 256 ^ 2 = ?n div 64 div 64 div 16"
    by (simp only: flip: div_mult2_eq) simp
  then show "?n div 256 ^ 2 = 4 * A + B div 16"
    using assms by simp
  have "?n div 256 = ?n div 64 div 4"
    by (simp only: flip: div_mult2_eq) simp
  also have "\<dots> = (A * 64 + B) * 16 + C div 4"
    using assms by simp
  finally have n: "?n div 256 = (A * 64 + B) * 16 + C div 4" .
  have "(A * 64 + B) mod 16 = (B + (A * 4) * 16) mod 16"
    by (simp add: algebra_simps)
  also have "\<dots> = B mod 16"
    by (rule mod_mult_self1)
  finally show "?n div 256 mod 256 = 16 * (B mod 16) + C div 4"
    unfolding n using assms mult_add_mod [of "C div 4" 16 "A * 64 + B" 16] by simp
  have "((A * 64 + B) * 64 + C) mod 4 = (C + ((A * 64 + B) * 16) * 4) mod 4"
    by (simp add: algebra_simps)
  also have "\<dots> = C mod 4"
    by (rule mod_mult_self1)
  finally show "?n mod 256 = 64 * (C mod 4) + D"
    using assms mult_add_mod [of D 64 "(A * 64 + B) * 64 + C" 4] by simp
qed

lemma quad_octets:
  fixes a b c d :: u8
  assumes "unat a < 64" "unat b < 64" "unat c < 64" "unat d < 64"
  shows "[push_bit 2 a OR drop_bit 4 b, push_bit 4 b OR drop_bit 2 c, push_bit 6 c OR d] =
     octets3 (((unat a * 64 + unat b) * 64 + unat c) * 64 + unat d)"
    (is "[?x, ?y, ?z] = octets3 ?n")
proof -
  have u8: "x = of_nat n" if "unat x = n mod 256" for x :: u8 and n
    using that by (simp add: word_unat_eq_iff unat_of_nat)
  have "unat ?x = 4 * unat a + unat b div 16"
    using assms by (subst unat_push_bit_or) (auto simp: unat_drop_bit)
  moreover have "unat ?y = 16 * (unat b mod 16) + unat c div 4"
    using assms by (subst unat_push_bit_or_mod) (auto simp: unat_drop_bit)
  moreover have "unat ?z = 64 * (unat c mod 4) + unat d"
    using assms by (subst unat_push_bit_or_mod) auto
  moreover have "unat ?x = unat ?x mod 256"
    using unat_u8_less [of ?x] by simp
  ultimately have "?x = of_nat (?n div 256 ^ 2)" "?y = of_nat (?n div 256)" "?z = of_nat ?n"
    using quad_arith [OF assms(2-4), of "unat a"] by (simp_all only: u8)
  then show ?thesis
    by (simp only: octets3_def)
qed


lemma chunks4: "as_chunks 4 (x # y # z # w # bs) =
      ([x, y, z, w] # fst (as_chunks 4 bs), snd (as_chunks 4 bs))"
  using as_chunks_step [of "[x, y, z, w]" 4 bs] by simp

lemma decode_quad:
  assumes "sextet x = Some a" "sextet y = Some b" "sextet z = Some c" "sextet w = Some d"
  shows "[push_bit 2 (dec6 x) OR drop_bit 4 (dec6 y), push_bit 4 (dec6 y) OR drop_bit 2 (dec6 z),
          push_bit 6 (dec6 z) OR dec6 w] = octets3 (quad_value a b c d)"
  using assms quad_octets [of "dec6 x" "dec6 y" "dec6 z" "dec6 w"] by (simp add: sextet_Some quad_value_def)

lemma invalid_iff:
  "(dec6 x OR dec6 y) AND 0x80 \<noteq> 0 \<longleftrightarrow> sextet x = None \<or> sextet y = None"
  "(dec6 x OR dec6 y OR dec6 z) AND 0x80 \<noteq> 0 \<longleftrightarrow>
     sextet x = None \<or> sextet y = None \<or> sextet z = None"
  "(dec6 x OR dec6 y OR dec6 z OR dec6 w) AND 0x80 \<noteq> 0 \<longleftrightarrow>
     sextet x = None \<or> sextet y = None \<or> sextet z = None \<or> sextet w = None"
  by (simp_all only: and_bit7 bit_or_iff bit7_dec6)

text \<open>The whole decoder after the padding is stripped.\<close>

definition decode_data :: "u8 list \<Rightarrow> nat \<Rightarrow> u8 list \<Rightarrow> ((nat, unit) result \<times> u8 list) exec" where
  "decode_data data i out =
     bind_exec (decode_chunks (fst (as_chunks 4 data)) out i)
       (\<lambda>(r, out). case r of Err e \<Rightarrow> Ret (Err e, out)
          | Ok i \<Rightarrow> decode_tail (snd (as_chunks 4 data)) i out)"

lemma decode_eq: "decode input out = decode_data (strip_padding input) 0 out"
  by (simp add: decode_def decode_data_def case_prod_beta Let_def)

lemma decode_data_tail:
  "length data < 4 \<Longrightarrow> decode_data data i out = decode_tail data i out"
  by (simp add: decode_data_def as_chunks_short)

lemma length_octets3 [simp]: "length (octets3 n) = 3"
  by (simp add: octets3_def)

lemma octets3_nonempty [simp]: "octets3 n \<noteq> []"
  by (simp add: octets3_def)

lemma sextet_A: "sextet (byte (CHR ''A'')) = Some 0"
  by code_simp

lemma decode_pair:
  assumes "sextet x = Some a" "sextet y = Some b"
  shows "[push_bit 2 (dec6 x) OR drop_bit 4 (dec6 y)] = take 1 (octets3 (quad_value a b 0 0))"
  by (simp flip: decode_quad [OF assms sextet_A sextet_A])

lemma decode_triple:
  assumes "sextet x = Some a" "sextet y = Some b" "sextet z = Some c"
  shows "[push_bit 2 (dec6 x) OR drop_bit 4 (dec6 y), push_bit 4 (dec6 y) OR drop_bit 2 (dec6 z)] =
     take 2 (octets3 (quad_value a b c 0))"
  by (simp flip: decode_quad [OF assms sextet_A])

lemma decode_data_step:
  assumes "sextet x = Some a" "sextet y = Some b" "sextet z = Some c" "sextet w = Some d"
  shows "decode_data (x # y # z # w # bs) i out =
    (if i + 3 \<le> length out
     then decode_data bs (i + 3) (splice_at i (octets3 (quad_value a b c d)) out)
     else Panic)"
proof -
  have v: "\<not> ((dec6 x OR dec6 y OR dec6 z OR dec6 w) AND 0x80 \<noteq> 0)"
    using assms by (simp only: invalid_iff) simp
  then have "decode_data (x # y # z # w # bs) i out =
      bind_exec (put_seq out i (octets3 (quad_value a b c d))) (\<lambda>out. decode_data bs (i + 3) out)"
    using decode_quad [OF assms]
    unfolding decode_data_def chunks4 fst_conv snd_conv by (simp add: bind_exec_assoc)
  then show ?thesis
    by (simp add: put_seq_eq splice_at_def)
qed

lemma decode_data_invalid:
  assumes "sextet x = None \<or> sextet y = None \<or> sextet z = None \<or> sextet w = None"
  shows "decode_data (x # y # z # w # bs) i out = Ret (Err (), out)"
  using invalid_iff(3) [of x y z w] assms by (simp add: decode_data_def chunks4)

lemma decode_data_pair:
  "decode_data [x, y] i out =
     (case (sextet x, sextet y) of
        (Some a, Some b) \<Rightarrow>
          bind_exec (put_seq out i (take 1 (octets3 (quad_value a b 0 0))))
            (\<lambda>out. Ret (Ok (i + 1), out))
      | _ \<Rightarrow> Ret (Err (), out))"
  using invalid_iff(1) [of x y] decode_pair [of x _ y]
  by (simp add: decode_data_tail decode_tail_def split: option.split)

lemma decode_data_triple:
  "decode_data [x, y, z] i out =
     (case (sextet x, sextet y, sextet z) of
        (Some a, Some b, Some c) \<Rightarrow>
          bind_exec (put_seq out i (take 2 (octets3 (quad_value a b c 0))))
            (\<lambda>out. Ret (Ok (i + 2), out))
      | _ \<Rightarrow> Ret (Err (), out))"
  using invalid_iff(2) [of x y z] decode_triple [of x _ y _ z]
  by (simp add: decode_data_tail decode_tail_def split: option.split)

lemma decode_data_valid:
  "i \<le> length out \<Longrightarrow> b64_bytes data = Some bs \<Longrightarrow>
   decode_data data i out =
     (if i + length bs \<le> length out
      then Ret (Ok (i + length bs), take i out @ bs @ drop (i + length bs) out) else Panic)"
proof (induction data arbitrary: i out bs rule: b64_bytes.induct)
  case (5 x y z w data)
  then obtain a b c d r where s: "sextet x = Some a" "sextet y = Some b" "sextet z = Some c"
     "sextet w = Some d" and r: "b64_bytes data = Some r" "bs = octets3 (quad_value a b c d) @ r"
    by (auto split: option.splits)
  show ?case
    using "5.IH" [of "i + 3" "splice_at i (octets3 (quad_value a b c d)) out" r] r
      splice_at_facts [of "octets3 (quad_value a b c d)" 3 i out]
    by (simp add: decode_data_step [OF s] add.assoc)
qed (auto simp: decode_data_tail [of "[]"] decode_tail_def decode_data_pair decode_data_triple
       put_seq_eq split: option.splits)

lemma decode_data_err:
  "i \<le> length out \<Longrightarrow> b64_bytes data = None \<Longrightarrow> i + 3 * (length data div 4) \<le> length out \<Longrightarrow>
   \<exists>out'. decode_data data i out = Ret (Err (), out') \<and> length out' = length out"
proof (induction data arbitrary: i out rule: b64_bytes.induct)
  case (5 x y z w data)
  show ?case 
  proof (cases "sextet x = None \<or> sextet y = None \<or> sextet z = None \<or> sextet w = None")
    case True
    then show ?thesis by (simp add: decode_data_invalid)
  next
    case False
    then obtain a b c d where s: "sextet x = Some a" "sextet y = Some b" "sextet z = Some c"
     "sextet w = Some d" by auto
    with "5.prems" have "b64_bytes data = None" by (simp split: option.splits)
    moreover have "(4 + length data) div 4 = Suc (length data div 4)"
      by simp
    ultimately show ?thesis
    using "5.IH" [of "i + 3" "splice_at i (octets3 (quad_value a b c d)) out"] "5.prems"
      splice_at_facts [of "octets3 (quad_value a b c d)" 3 i out]
    by (simp add: decode_data_step [OF s] add.assoc)
  qed
qed (auto simp: decode_data_tail [of "[]"] decode_tail_def decode_data_pair decode_data_triple
       decode_data_tail [of "[_]"] split: option.splits)

lemma length_b64_bytes: "b64_bytes data = Some bs \<Longrightarrow> length bs = 3 * length data div 4"
  by (induction data arbitrary: bs rule: b64_bytes.induct) (auto split: option.splits)
section \<open>The text of a byte string decodes to it\<close>

lemma length_b64_text: "length (b64_text bs) = 4 * ((length bs + 2) div 3)"
proof (induction bs rule: b64_text.induct)
  case (4 a b c bs)
  have "(5 + length bs) div 3 = Suc ((2 + length bs) div 3)"
    by (simp add: div_if)
  with "4.IH" [OF refl] show ?case
    by (simp add: Let_def)
qed (simp_all add: Let_def)

lemma sextet_sextet_char [simp]: "sextet (sextet_char n) = Some (n mod 64)"
proof -
  have "dec6 (ENCODE_TABLE ! (n mod 64)) = of_nat (n mod 64)"
    using tables_agree_all by (simp add: list_all_length)
  moreover have "n mod 64 mod 256 = n mod 64"
    by (simp add: mod_less)
  ultimately show ?thesis
    by (simp add: sextet_def sextet_char_def unat_of_nat)
qed

lemma sextet_pad: "sextet 61 = None"
  by code_simp

lemma sextet_char_not_pad [simp]: "sextet_char n \<noteq> 61"
  using sextet_sextet_char [of n] sextet_pad by (metis option.distinct(1))

lemma quad_value_digits:
  assumes "n < 64 ^ 4"
  shows "quad_value (n div 64 ^ 3 mod 64) (n div 64 ^ 2 mod 64) (n div 64 mod 64) (n mod 64) = n"
proof -
  have "n div 64 ^ 3 < 64"
    using assms by (simp add: div_less_iff_less_mult)
  moreover have "n div 64 ^ 2 = n div 64 div 64" "n div 64 ^ 3 = n div 64 div 64 div 64"
    by (simp_all only: flip: div_mult2_eq) simp_all
  ultimately show ?thesis
    unfolding quad_value_def by (simp only: mod_less div_mult_mod_eq)
qed

lemma quad_value_digits3:
  assumes "n < 64 ^ 3"
  shows "quad_value (n div 64 ^ 2 mod 64) (n div 64 mod 64) (n mod 64) 0 = n * 64"
proof -
  have "n div 64 ^ 2 < 64"
    using assms by (simp add: div_less_iff_less_mult)
  moreover have "n div 64 ^ 2 = n div 64 div 64"
    by (simp only: flip: div_mult2_eq) simp
  ultimately show ?thesis
    unfolding quad_value_def by (simp only: mod_less div_mult_mod_eq)
qed

lemma quad_value_digits2:
  assumes "n < 64 ^ 2"
  shows "quad_value (n div 64 mod 64) (n mod 64) 0 0 = n * 64 ^ 2"
proof -
  have "n div 64 < 64"
    using assms by (simp add: div_less_iff_less_mult)
  then have "quad_value (n div 64 mod 64) (n mod 64) 0 0 = (n * 64 + 0) * 64 + 0"
    unfolding quad_value_def by (simp only: mod_less div_mult_mod_eq)
  then show ?thesis
    by simp
qed

lemma len8_eq: "2 ^ LENGTH(8) = (256 :: nat)"
  by simp

lemma octets3_bytes:
  fixes a b c :: u8
  shows "octets3 (unat a * 256 ^ 2 + unat b * 256 + unat c) = [a, b, c]"
proof -
  have "(unat a * 256 ^ 2 + unat b * 256 + unat c) div 256 = unat a * 256 + unat b"
    using unat_u8_less [of c] by simp
  moreover have "(unat a * 256 ^ 2 + unat b * 256 + unat c) div 256 ^ 2 = unat a"
    using unat_u8_less [of b] unat_u8_less [of c] by simp
  moreover have "(of_nat (unat a * 256 + unat b) :: u8) = b"
    using unat_u8_less [of b] by (simp add: word_unat_eq_iff unat_of_nat unat_word_ariths)
  moreover have "(unat a * 256 ^ 2 + unat b * 256 + unat c) mod 256 = unat c"
    using mult_add_mod [of "unat c" 256 "unat a * 256 + unat b" 1] unat_u8_less [of c]
    by (simp add: algebra_simps)
  then have "(of_nat (unat a * 256 ^ 2 + unat b * 256 + unat c) :: u8) = c"
    by (simp only: word_unat_eq_iff unat_of_nat len8_eq)
  ultimately show ?thesis
    by (simp only: octets3_def) simp
qed

lemma strip_padding_append:
  "2 \<le> length t \<Longrightarrow> strip_padding (q @ t) = q @ strip_padding t"
  by (auto simp: strip_padding_def Let_def nth_append)

lemma strip_padding_no_pad:
  "last t \<noteq> 61 \<Longrightarrow> strip_padding t = t"
  by (cases t rule: rev_cases) (auto simp: strip_padding_def Let_def nth_append)

lemma strip_padding_one:
  "last t \<noteq> 61 \<Longrightarrow> t \<noteq> [] \<Longrightarrow> strip_padding (t @ [byte (CHR ''='')]) = t"
  by (cases t rule: rev_cases) (auto simp: strip_padding_def Let_def nth_append)

lemma strip_padding_two: "strip_padding (t @ [byte (CHR ''=''), byte (CHR ''='')]) = t"
  by (auto simp: strip_padding_def Let_def nth_append)

lemma b64_bytes_sextets:
  "b64_bytes data = Some bs \<Longrightarrow> \<forall>x \<in> set data. sextet x \<noteq> None"
  by (induction data arbitrary: bs rule: b64_bytes.induct) (auto split: option.splits)

lemma b64_bytes_text: "b64_bytes (strip_padding (b64_text bs)) = Some bs"
proof (induction bs rule: b64_text.induct)
  case 1
  then show ?case by (simp add: strip_padding_def)
next
  case (2 a)
  let ?n = "unat a * 2 ^ 4"
  have "strip_padding (b64_text [a]) = [sextet_char (?n div 64), sextet_char ?n]"
    using strip_padding_two [of "[sextet_char (?n div 64), sextet_char ?n]"] by (simp add: Let_def)
  moreover have "quad_value (?n div 64 mod 64) (?n mod 64) 0 0 = unat a * 256 ^ 2"
    using quad_value_digits2 [of ?n] unat_u8_less [of a] by simp
  ultimately show ?case
    using octets3_bytes [of a 0 0] by simp
next
  case (3 a b)
  let ?n = "(unat a * 256 + unat b) * 2 ^ 2"
  have "strip_padding (b64_text [a, b]) =
      [sextet_char (?n div 64 ^ 2), sextet_char (?n div 64), sextet_char ?n]"
    using strip_padding_one [of "[sextet_char (?n div 64 ^ 2), sextet_char (?n div 64), sextet_char ?n]"]
    by (simp add: Let_def)
  moreover have "quad_value (?n div 64 ^ 2 mod 64) (?n div 64 mod 64) (?n mod 64) 0 =
      unat a * 256 ^ 2 + unat b * 256"
    using quad_value_digits3 [of ?n] unat_u8_less [of a] unat_u8_less [of b]
    by (simp add: algebra_simps)
  ultimately show ?case
    using octets3_bytes [of a b 0] by simp
next
  case (4 a b c bs)
  let ?n = "unat a * 256 ^ 2 + unat b * 256 + unat c"
  let ?q = "[sextet_char (?n div 64 ^ 3), sextet_char (?n div 64 ^ 2), sextet_char (?n div 64), sextet_char ?n]"
  have t: "b64_text (a # b # c # bs) = ?q @ b64_text bs"
    by (simp add: Let_def)
  have "strip_padding (?q @ b64_text bs) = ?q @ strip_padding (b64_text bs)"
  proof (cases "bs = []")
    case True
    then show ?thesis 
      using strip_padding_no_pad [of ?q] by (simp add: strip_padding_def [of "[]"])
  next
    case False
    then have "2 \<le> length (b64_text bs)"
      by (simp add: length_b64_text div_greater_zero_iff Suc_le_eq flip: length_greater_0_conv)
    then show ?thesis
      by (rule strip_padding_append)
  qed
  moreover have "?n < 64 ^ 4"
    using unat_u8_less [of a] unat_u8_less [of b] unat_u8_less [of c] by simp
  ultimately show ?case
    using "4.IH" [OF refl] quad_value_digits [of ?n] octets3_bytes [of a b c] unfolding t by simp
qed

lemma encode_table_ascii: "list_all (\<lambda>b. b < 0x80) ENCODE_TABLE"
  by code_simp

lemma sextet_char_ascii: "sextet_char n < 0x80"
proof -
  have "length ENCODE_TABLE = 64"
    by (simp add: ENCODE_TABLE_def)
  then show ?thesis
    using encode_table_ascii by (simp add: list_all_length sextet_char_def)
qed

lemma b64_text_ascii: "\<forall>b \<in> set (b64_text bs). b < 0x80"
  by (induction bs rule: b64_text.induct) (auto simp: Let_def sextet_char_ascii)

section \<open>Properties\<close>

text \<open>The decoder never stores past a buffer that holds three bytes for every four characters.\<close>

lemma decode_total:
  assumes "3 * length (strip_padding input) div 4 \<le> length out"
  shows "\<exists>out'. length out' = length out \<and>
     decode input out =
       Ret (case b64_bytes (strip_padding input) of
              None \<Rightarrow> (Err (), out')
            | Some bs \<Rightarrow> (Ok (length bs), bs @ drop (length bs) out))"
proof (cases "b64_bytes (strip_padding input)")
  case None
  have "3 * (k div 4) \<le> 3 * k div 4" for k :: nat
    by arith
  from order_trans [OF this assms] None show ?thesis
    using decode_data_err [of 0 out "strip_padding input"] by (auto simp: decode_eq)
next
  case (Some bs)
  then show ?thesis
    using decode_data_valid [of 0 out "strip_padding input" bs] length_b64_bytes [OF Some] assms
    by (auto simp: decode_eq)
qed

lemma length_strip_padding: "length (strip_padding input) \<le> length input"
  by (simp add: strip_padding_def Let_def)

lemma decode_overrun:
  "b64_bytes (strip_padding input) = Some bs \<Longrightarrow> decode input out = Panic \<longleftrightarrow> length out < length bs"
  using decode_data_valid [of 0 out "strip_padding input" bs] by (simp add: decode_eq not_le)

lemma encode_eq:
  "encode bs out =
     (if length (b64_text bs) \<le> length out
      then Ret (length (b64_text bs), b64_text bs @ drop (length (b64_text bs)) out) else Panic)"
  using encode_run [of 0 out bs] by (simp add: encode_def case_prod_beta Let_def)

lemma encode_fits:
  "length (b64_text bs) \<le> length out \<Longrightarrow>
   encode bs out = Ret (length (b64_text bs), b64_text bs @ drop (length (b64_text bs)) out)"
  by (simp add: encode_eq)

text \<open>\<open>encode\<close> writes exactly the RFC 4648 text of its input, four characters for every
  three bytes begun, leaves the rest of the buffer alone, and panics exactly when the buffer is
  shorter than that text.\<close>

theorem encode_writes_text:
  "encode inp out =
     (if 4 * ((length inp + 2) div 3) \<le> length out
      then Ret (4 * ((length inp + 2) div 3),
                b64_text inp @ drop (4 * ((length inp + 2) div 3)) out)
      else Panic)"
  by (simp add: encode_eq length_b64_text)

text \<open>With the buffer size its documentation asks for, \<open>decode\<close> never panics: it returns
  the bytes of the text when every character and the length are valid and \<open>Err\<close> otherwise.\<close>

theorem decode_documented_size:
  assumes "length input div 4 * 3 + 3 \<le> length out"
  shows "\<exists>out'. length out' = length out \<and>
     decode input out =
       Ret (case b64_bytes (strip_padding input) of
              None \<Rightarrow> (Err (), out')
            | Some bs \<Rightarrow> (Ok (length bs), bs @ drop (length bs) out))"
proof (rule decode_total)
  have "3 * k div 4 \<le> n div 4 * 3 + 3" if "k \<le> n" for k n :: nat
    using that by arith
  from this [OF length_strip_padding [of input]] assms
  show "3 * length (strip_padding input) div 4 \<le> length out"
    by linarith
qed

theorem decode_documented_size_witness:
  "\<exists>out'. length out' = 9 \<and>
     decode (as_bytes ''TWFuTQ=='') (replicate 9 0) =
       Ret (case b64_bytes (strip_padding (as_bytes ''TWFuTQ=='')) of
              None \<Rightarrow> (Err (), out')
            | Some bs \<Rightarrow> (Ok (length bs), bs @ drop (length bs) (replicate 9 0)))"
  using decode_documented_size [of "as_bytes ''TWFuTQ==''" "replicate 9 0"] by simp

text \<open>Valid text is decoded whatever the buffer, as long as it holds the decoded bytes; when
  it does not, \<open>decode\<close> panics on the store past its end instead of returning an error.\<close>

theorem decode_panics_iff:
  assumes "b64_bytes (strip_padding input) = Some bs"
  shows "decode input out = Panic \<longleftrightarrow> length out < length bs"
  using assms by (rule decode_overrun)

theorem decode_panics_iff_witness:
  "decode (as_bytes ''AAAA'') [1, 1] = Panic \<longleftrightarrow> length [1 :: u8, 1] < length [0 :: u8, 0, 0]"
  by (rule decode_panics_iff [where bs = "[0, 0, 0]"])
    (simp add: strip_padding_def sextet_A [simplified] octets3_def quad_value_def)

text \<open>C16: Decoding what \<open>encode\<close> wrote gives the bytes back, with the padding and also with the
  padding left out.\<close>

theorem base64_roundtrip:
  assumes "4 * ((length bs + 2) div 3) \<le> length out1" and "length bs \<le> length out2"
  shows "\<exists>n text. encode bs out1 = Ret (n, text) \<and>
     decode (take n text) out2 = Ret (Ok (length bs), bs @ drop (length bs) out2) \<and>
     decode (strip_padding (take n text)) out2 = Ret (Ok (length bs), bs @ drop (length bs) out2)"
proof -
  let ?t = "b64_text bs"
  have "\<forall>x \<in> set (strip_padding ?t). sextet x \<noteq> None"
    using b64_bytes_text by (rule b64_bytes_sextets)
  then have strip: "strip_padding (strip_padding ?t) = strip_padding ?t"
    using sextet_pad strip_padding_no_pad [of "strip_padding ?t"] last_in_set [of "strip_padding ?t"]
    by (cases "strip_padding ?t = []") (simp add: strip_padding_def [of "[]"], metis)
  have dec: "decode t out2 = Ret (Ok (length bs), bs @ drop (length bs) out2)"
    if "strip_padding t = strip_padding ?t" for t
    using decode_data_valid [of 0 out2 "strip_padding ?t" bs] b64_bytes_text assms(2) that
    by (simp add: decode_eq)
  have "encode bs out1 = Ret (length ?t, ?t @ drop (length ?t) out1)"
    using assms(1) by (intro encode_fits) (simp add: length_b64_text)
  then show ?thesis
    using dec [OF refl] dec [OF strip] by auto
qed

theorem base64_roundtrip_witness:
  "\<exists>n text. encode [77, 97] (replicate 4 0) = Ret (n, text) \<and>
     decode (take n text) (replicate 3 0) = Ret (Ok 2, [77, 97, 0]) \<and>
     decode (strip_padding (take n text)) (replicate 3 0) = Ret (Ok 2, [77, 97, 0])"
  using base64_roundtrip [of "[77, 97]" "replicate 4 0" "replicate 3 0"]
  by (simp add: numeral_2_eq_2)

text \<open>The documentation promises \<open>Err\<close> on invalid padding; two stray \<open>=\<close> after a complete group
  are stripped and accepted.\<close>

lemma decode_accepts_stray_padding:
  "decode (as_bytes ''AAAA=='') [1, 1, 1] = Ret (Ok 3, [0, 0, 0])"
  using decode_data_valid [of 0 "[1, 1, 1]" "as_bytes ''AAAA''" "[0, 0, 0]"] sextet_A
  by (simp add: decode_eq strip_padding_def octets3_def quad_value_def Let_def)

end
