(* ===== verification/Rust_Std.thy ===== *)
theory Rust_Std
  imports Prelude
begin

text \<open>
  The functions of Rust's standard library the firmware calls on byte strings: UTF-8
  validation, prefixes and suffixes, splitting, ASCII case folding, decimal and hexadecimal
  numbers. A \<open>&str\<close> is the list of its bytes, so these work byte by byte.
\<close>

section \<open>UTF-8\<close>

definition utf8_cont :: "u8 \<Rightarrow> bool" where
  "utf8_cont b \<longleftrightarrow> 0x80 \<le> b \<and> b \<le> 0xBF"

text \<open>The well-formed byte sequences of RFC 3629, as \<open>core::str::from_utf8\<close> accepts them.\<close>

fun utf8_valid :: "u8 list \<Rightarrow> bool" where
  "utf8_valid [] = True"
| "utf8_valid (b # bs) =
     (if b < 0x80 then utf8_valid bs
      else if 0xC2 \<le> b \<and> b \<le> 0xDF then
        (case bs of c # r \<Rightarrow> utf8_cont c \<and> utf8_valid r | _ \<Rightarrow> False)
      else if 0xE0 \<le> b \<and> b \<le> 0xEF then
        (case bs of
           c # d # r \<Rightarrow>
             (if b = 0xE0 then 0xA0 \<le> c \<and> c \<le> 0xBF
              else if b = 0xED then 0x80 \<le> c \<and> c \<le> 0x9F
              else utf8_cont c) \<and> utf8_cont d \<and> utf8_valid r
         | _ \<Rightarrow> False)
      else if 0xF0 \<le> b \<and> b \<le> 0xF4 then
        (case bs of
           c # d # e # r \<Rightarrow>
             (if b = 0xF0 then 0x90 \<le> c \<and> c \<le> 0xBF
              else if b = 0xF4 then 0x80 \<le> c \<and> c \<le> 0x8F
              else utf8_cont c) \<and> utf8_cont d \<and> utf8_cont e \<and> utf8_valid r
         | _ \<Rightarrow> False)
      else False)"

definition from_utf8 :: "u8 list \<Rightarrow> (str, unit) result" where
  "from_utf8 bs = (if utf8_valid bs then Ok (of_bytes bs) else Err ())"

lemma utf8_valid_ascii: "\<forall>b \<in> set bs. b < 0x80 \<Longrightarrow> utf8_valid bs"
  by (induction bs) auto

lemma utf8_valid_append: "utf8_valid xs \<Longrightarrow> utf8_valid (xs @ ys) = utf8_valid ys"
proof (induction xs rule: utf8_valid.induct)
  case (2 b bs)
  consider (one) "b < 0x80"
    | (two) "\<not> b < 0x80" "0xC2 \<le> b \<and> b \<le> 0xDF"
    | (three) "\<not> b < 0x80" "\<not> (0xC2 \<le> b \<and> b \<le> 0xDF)" "0xE0 \<le> b \<and> b \<le> 0xEF"
    | (four) "\<not> b < 0x80" "\<not> (0xC2 \<le> b \<and> b \<le> 0xDF)" "\<not> (0xE0 \<le> b \<and> b \<le> 0xEF)"
        "0xF0 \<le> b \<and> b \<le> 0xF4"
    using "2.prems" by (auto split: if_splits)
  then show ?case
  proof cases
    case one
    then show ?thesis using 2 by simp
  next
    case two
    have eq: "utf8_valid (b # zs) = (case zs of c # r \<Rightarrow> utf8_cont c \<and> utf8_valid r | _ \<Rightarrow> False)" for zs
      by (simp only: utf8_valid.simps two if_False if_True simp_thms)
    obtain c r where bs: "bs = c # r"
      using "2.prems" unfolding eq by (cases bs) auto
    show ?thesis
      using "2.IH"(2) [OF two bs] "2.prems" unfolding eq append_Cons bs by simp
  next
    case three
    let ?G = "\<lambda>c. if b = 0xE0 then 0xA0 \<le> c \<and> c \<le> 0xBF
              else if b = 0xED then 0x80 \<le> c \<and> c \<le> 0x9F else utf8_cont c"
    have eq: "utf8_valid (b # zs) =
        (case zs of c # d # r \<Rightarrow> ?G c \<and> utf8_cont d \<and> utf8_valid r | _ \<Rightarrow> False)" for zs
      by (simp only: utf8_valid.simps three if_False if_True simp_thms)
    obtain c d r where bs: "bs = c # d # r"
      using "2.prems" unfolding eq by (simp split: list.splits)
    show ?thesis
      using "2.IH"(3) [OF three bs refl] "2.prems" unfolding eq append_Cons bs by simp
  next
    case four
    let ?G = "\<lambda>c. if b = 0xF0 then 0x90 \<le> c \<and> c \<le> 0xBF
              else if b = 0xF4 then 0x80 \<le> c \<and> c \<le> 0x8F else utf8_cont c"
    have eq: "utf8_valid (b # zs) =
        (case zs of c # d # e # r \<Rightarrow> ?G c \<and> utf8_cont d \<and> utf8_cont e \<and> utf8_valid r | _ \<Rightarrow> False)" for zs
      by (simp only: utf8_valid.simps four if_False if_True simp_thms)
    obtain c d e r where bs: "bs = c # d # e # r"
      using "2.prems" unfolding eq by (simp split: list.splits)
    show ?thesis
      using "2.IH"(4) [OF four bs refl refl] "2.prems" unfolding eq append_Cons bs by simp
  qed
qed simp

text \<open>An ASCII byte is never inside a sequence, so a text may be cut there.\<close>

lemma utf8_valid_cut:
  "c < 0x80 \<Longrightarrow> utf8_valid (xs @ c # ys) \<Longrightarrow> utf8_valid xs \<and> utf8_valid ys"
proof (induction xs rule: utf8_valid.induct)
  case (2 b bs)
  have nc: "\<not> utf8_cont c" "\<not> 0xA0 \<le> c" "\<not> 0x80 \<le> c" "\<not> 0x90 \<le> c"
    using "2.prems"(1) by (auto simp: utf8_cont_def word_le_nat_alt word_less_nat_alt)
  consider (one) "b < 0x80"
    | (two) "\<not> b < 0x80" "0xC2 \<le> b \<and> b \<le> 0xDF"
    | (three) "\<not> b < 0x80" "\<not> (0xC2 \<le> b \<and> b \<le> 0xDF)" "0xE0 \<le> b \<and> b \<le> 0xEF"
    | (four) "\<not> b < 0x80" "\<not> (0xC2 \<le> b \<and> b \<le> 0xDF)" "\<not> (0xE0 \<le> b \<and> b \<le> 0xEF)"
        "0xF0 \<le> b \<and> b \<le> 0xF4"
    using "2.prems" by (auto split: if_splits)
  then show ?case
  proof cases
    case one
    then have eq: "utf8_valid (b # zs) = utf8_valid zs" for zs
      by simp
    show ?thesis
      using "2.IH"(1) [OF one "2.prems"(1)] "2.prems"(2) unfolding append_Cons eq by blast
  next
    case two
    have eq: "utf8_valid (b # zs) = (case zs of c # r \<Rightarrow> utf8_cont c \<and> utf8_valid r | _ \<Rightarrow> False)" for zs
      by (simp only: utf8_valid.simps two if_False if_True simp_thms)
    obtain c' r where bs: "bs = c' # r"
      using "2.prems" nc unfolding append_Cons eq by (cases bs) auto
    show ?thesis
      using "2.IH"(2) [OF two bs] "2.prems" unfolding append_Cons bs eq by simp
  next
    case three
    let ?G = "\<lambda>c. if b = 0xE0 then 0xA0 \<le> c \<and> c \<le> 0xBF
              else if b = 0xED then 0x80 \<le> c \<and> c \<le> 0x9F else utf8_cont c"
    have eq: "utf8_valid (b # zs) =
        (case zs of c # d # r \<Rightarrow> ?G c \<and> utf8_cont d \<and> utf8_valid r | _ \<Rightarrow> False)" for zs
      by (simp only: utf8_valid.simps three if_False if_True simp_thms)
    have ng: "\<not> ?G c"
      using nc by simp
    obtain c' d r where bs: "bs = c' # d # r"
      using "2.prems" nc ng unfolding append_Cons eq
      by (cases bs rule: remdups_adj.cases) (auto split: list.splits simp del: if_split_asm)
    show ?thesis
      using "2.IH"(3) [OF three bs refl] "2.prems" unfolding append_Cons bs eq by simp
  next
    case four
    let ?G = "\<lambda>c. if b = 0xF0 then 0x90 \<le> c \<and> c \<le> 0xBF
              else if b = 0xF4 then 0x80 \<le> c \<and> c \<le> 0x8F else utf8_cont c"
    have eq: "utf8_valid (b # zs) =
        (case zs of c # d # e # r \<Rightarrow> ?G c \<and> utf8_cont d \<and> utf8_cont e \<and> utf8_valid r | _ \<Rightarrow> False)" for zs
      by (simp only: utf8_valid.simps four if_False if_True simp_thms)
    have ng: "\<not> ?G c"
      using nc by simp
    obtain c' d e r where bs: "bs = c' # d # e # r"
    proof (cases bs rule: remdups_adj.cases)
      case (3 x y zs)
      then show ?thesis
        using "2.prems"(2) nc that unfolding append_Cons eq by (cases zs) auto
    qed (use "2.prems"(2) nc ng in \<open>unfold append_Cons eq, auto split: list.splits\<close>)
    show ?thesis
      using "2.IH"(4) [OF four bs refl refl] "2.prems" unfolding append_Cons bs eq by simp
  qed
qed simp

lemma from_utf8_as_bytes [simp]: "utf8_valid (as_bytes s) \<Longrightarrow> from_utf8 (as_bytes s) = Ok s"
  by (simp add: from_utf8_def)

section \<open>Prefixes, suffixes, splitting\<close>

definition strip_suffix :: "'a list \<Rightarrow> 'a list \<Rightarrow> 'a list option" where
  "strip_suffix suf xs =
     (if length suf \<le> length xs \<and> drop (length xs - length suf) xs = suf
      then Some (take (length xs - length suf) xs) else None)"

definition strip_prefix :: "'a list \<Rightarrow> 'a list \<Rightarrow> 'a list option" where
  "strip_prefix pre xs =
     (if take (length pre) xs = pre then Some (drop (length pre) xs) else None)"

definition starts_with :: "'a list \<Rightarrow> 'a list \<Rightarrow> bool" where
  "starts_with pre xs \<longleftrightarrow> take (length pre) xs = pre"

text \<open>\<open>s.split(c)\<close> and \<open>s.splitn(n, c)\<close>: the parts between the separators, at least one.\<close>

fun split_on :: "'a \<Rightarrow> 'a list \<Rightarrow> 'a list list" where
  "split_on c [] = [[]]"
| "split_on c (x # xs) =
     (if x = c then [] # split_on c xs
      else case split_on c xs of p # ps \<Rightarrow> (x # p) # ps | [] \<Rightarrow> [[x]])"

fun splitn :: "nat \<Rightarrow> 'a \<Rightarrow> 'a list \<Rightarrow> 'a list list" where
  "splitn 0 c xs = []"
| "splitn (Suc 0) c xs = [xs]"
| "splitn (Suc (Suc n)) c xs =
     (case dropWhile (\<lambda>x. x \<noteq> c) xs of
        [] \<Rightarrow> [xs]
      | _ # r \<Rightarrow> takeWhile (\<lambda>x. x \<noteq> c) xs # splitn (Suc n) c r)"

lemma split_on_nonempty [simp]: "split_on c xs \<noteq> []"
  by (cases xs) (auto split: list.split)

lemma split_on_no_sep: "c \<notin> set xs \<Longrightarrow> split_on c xs = [xs]"
  by (induction xs) auto

lemma split_on_append_sep: "c \<notin> set xs \<Longrightarrow> split_on c (xs @ c # ys) = xs # split_on c ys"
  by (induction xs) auto

lemma split_on_utf8:
  assumes "(of_char c :: u8) < 0x80" "utf8_valid (as_bytes s)" "p \<in> set (split_on c s)"
  shows "utf8_valid (as_bytes p)"
  using assms(2,3)
proof (induction "length s" arbitrary: s rule: less_induct)
  case less
  show ?case
  proof (cases "c \<in> set s")
    case True
    then obtain l r where s: "s = l @ c # r" "c \<notin> set l"
      by (metis split_list_first)
    then have "utf8_valid (as_bytes l)" "utf8_valid (as_bytes r)"
      using utf8_valid_cut [OF assms(1), of "as_bytes l" "as_bytes r"] less.prems(1) by simp_all
    then show ?thesis
      using less.hyps [of r] less.prems(2) s by (auto simp: split_on_append_sep)
  qed (use less.prems in \<open>simp add: split_on_no_sep\<close>)
qed

lemma split_on_parts: "p \<in> set (split_on c xs) \<Longrightarrow> c \<notin> set p"
  by (induction xs arbitrary: p) (auto split: list.splits if_splits)

lemma splitn_no_sep: "c \<notin> set xs \<Longrightarrow> splitn (Suc n) c xs = [xs]"
proof -
  assume "c \<notin> set xs"
  then have "dropWhile (\<lambda>x. x \<noteq> c) xs = []"
    by (auto simp: dropWhile_eq_Nil_conv)
  then show ?thesis
    by (cases n) (simp_all only: splitn.simps list.case)
qed

lemma splitn_append_sep:
  "c \<notin> set xs \<Longrightarrow> splitn (Suc (Suc n)) c (xs @ c # ys) = xs # splitn (Suc n) c ys"
proof -
  assume c: "c \<notin> set xs"
  then have "dropWhile (\<lambda>x. x \<noteq> c) (xs @ c # ys) = c # ys"
    by (subst dropWhile_append2) auto
  moreover have "takeWhile (\<lambda>x. x \<noteq> c) (xs @ c # ys) = xs"
    using c by (subst takeWhile_append2) auto
  ultimately show ?thesis by simp
qed

text \<open>\<open>s.trim()\<close>: the encodings of the characters with the property \<open>White_Space\<close> of Unicode.\<close>

definition whitespace_encodings :: "str list" where
  "whitespace_encodings = map of_bytes
     ([[9], [10], [11], [12], [13], [32], [0xC2, 0x85], [0xC2, 0xA0], [0xE1, 0x9A, 0x80],
       [0xE2, 0x80, 0xA8], [0xE2, 0x80, 0xA9], [0xE2, 0x80, 0xAF], [0xE2, 0x81, 0x9F],
       [0xE3, 0x80, 0x80]] @ map (\<lambda>k. [0xE2, 0x80, 0x80 + of_nat k]) [0..<11])"

text \<open>Removes any of the strings \<open>ws\<close> from the front as long as there is one.\<close>

function trim_front :: "str list \<Rightarrow> str \<Rightarrow> str" where
  "trim_front ws s =
     (case find (\<lambda>w. w \<noteq> [] \<and> starts_with w s) ws of
        None \<Rightarrow> s
      | Some w \<Rightarrow> trim_front ws (drop (length w) s))"
  by pat_completeness auto
termination
proof (relation "measure (\<lambda>(ws, s). length s)")
  fix ws s w
  assume "find (\<lambda>w. w \<noteq> [] \<and> starts_with w s) ws = Some (w :: str)"
  then have "w \<noteq> []" "starts_with w s"
    by (auto simp: find_Some_iff)
  then have "s \<noteq> []" "length w > 0"
    by (auto simp: starts_with_def)
  then show "((ws, drop (length w) s), (ws, s)) \<in> measure (\<lambda>(ws, s). length s)"
    by simp
qed simp

declare trim_front.simps [simp del]

definition trim :: "str \<Rightarrow> str" where
  "trim s =
     rev (trim_front (map rev whitespace_encodings) (rev (trim_front whitespace_encodings s)))"

section \<open>ASCII case\<close>

definition to_ascii_lower :: "u8 \<Rightarrow> u8" where
  "to_ascii_lower b = (if byte (CHR ''A'') \<le> b \<and> b \<le> byte (CHR ''Z'') then b + 32 else b)"

definition eq_ignore_ascii_case :: "u8 list \<Rightarrow> u8 list \<Rightarrow> bool" where
  "eq_ignore_ascii_case xs ys \<longleftrightarrow> map to_ascii_lower xs = map to_ascii_lower ys"

section \<open>Numbers\<close>

definition ascii_digit :: "char \<Rightarrow> nat option" where
  "ascii_digit c = (let n = of_char c in if 48 \<le> n \<and> n \<le> 57 then Some (n - 48) else None)"

text \<open>
  \<open>s.parse::<uN>()\<close>: an optional \<open>+\<close>, then at least one digit and nothing else, with every
  intermediate value below the type's bound.
\<close>

fun parse_digits :: "nat \<Rightarrow> nat \<Rightarrow> str \<Rightarrow> nat option" where
  "parse_digits bound acc [] = Some acc"
| "parse_digits bound acc (c # cs) =
     (case ascii_digit c of
        None \<Rightarrow> None
      | Some d \<Rightarrow> (if acc * 10 + d < bound then parse_digits bound (acc * 10 + d) cs else None))"

definition parse_uint :: "nat \<Rightarrow> str \<Rightarrow> nat option" where
  "parse_uint bound s =
     (case s of
        [] \<Rightarrow> None
      | c # cs \<Rightarrow>
          (if c = CHR ''+'' then (if cs = [] then None else parse_digits bound 0 cs)
           else parse_digits bound 0 s))"

definition hex_digit :: "bool \<Rightarrow> nat \<Rightarrow> char" where
  "hex_digit upper n =
     (if n < 10 then char_of (48 + n) else char_of ((if upper then 55 else 87) + n))"

text \<open>\<open>{:02x}\<close> and \<open>{:02X}\<close> on a byte.\<close>

definition fmt_02x :: "bool \<Rightarrow> u8 \<Rightarrow> str" where
  "fmt_02x upper b = [hex_digit upper (unat b div 16), hex_digit upper (unat b mod 16)]"

lemma length_fmt_02x [simp]: "length (fmt_02x u b) = 2"
  by (simp add: fmt_02x_def)

lemma parse_digits_bound: "parse_digits bound acc s = Some n \<Longrightarrow> acc < bound \<Longrightarrow> n < bound"
  by (induction bound acc s rule: parse_digits.induct) (auto split: option.splits if_splits)

lemma parse_uint_bound: "parse_uint bound s = Some n \<Longrightarrow> n < bound"
  using parse_digits_bound [of bound]
  by (auto simp: parse_uint_def split: list.splits if_splits option.splits elim: parse_digits.elims)

text \<open>\<open>{}\<close> on an unsigned integer.\<close>

fun fmt_dec :: "nat \<Rightarrow> str" where
  "fmt_dec n =
     (if n < 10 then [char_of (48 + n)] else fmt_dec (n div 10) @ [char_of (48 + n mod 10)])"

declare fmt_dec.simps [simp del]

lemma ascii_digit_char: "d < 10 \<Longrightarrow> ascii_digit (char_of (48 + d)) = Some d"
  by (simp add: ascii_digit_def)

lemma parse_digits_append:
  "parse_digits bound acc (s @ t) =
     (case parse_digits bound acc s of None \<Rightarrow> None | Some a \<Rightarrow> parse_digits bound a t)"
  by (induction s arbitrary: acc) (auto split: option.splits)

lemma parse_fmt_dec: "n < bound \<Longrightarrow> parse_digits bound 0 (fmt_dec n) = Some n"
proof (induction n rule: fmt_dec.induct)
  case (1 n)
  then show ?case
    using div_le_dividend [of n 10]
    by (subst fmt_dec.simps) (auto simp: parse_digits_append ascii_digit_char)
qed

lemma fmt_dec_digits: "\<forall>c \<in> set (fmt_dec n). 48 \<le> (of_char c :: nat) \<and> (of_char c :: nat) \<le> 57"
proof (induction n rule: fmt_dec.induct)
  case (1 n)
  then show ?case
    by (subst fmt_dec.simps) auto
qed

lemma fmt_dec_nonempty [simp]: "fmt_dec n \<noteq> []"
  by (subst fmt_dec.simps) simp

lemma parse_uint_fmt_dec: "n < bound \<Longrightarrow> parse_uint bound (fmt_dec n) = Some n"
  using fmt_dec_digits [of n] parse_fmt_dec [of n bound]
  by (cases "fmt_dec n") (auto simp: parse_uint_def)

end
