(* ===== verification/Protocol.thy ===== *)
theory Protocol
  imports Base64 Rust_Std
begin

text \<open>
  \<open>src/protocol.rs\<close>: the limits and error codes of the wire protocol, commands and responses
  with what their \<open>Serialize\<close> and \<open>Deserialize\<close> implementations do, the newline framing of the
  TCP stream, and the subscription types. \<open>serde_json_core\<close> is not part of the repository: its
  \<open>from_slice\<close> and \<open>to_slice\<close> are arguments of the functions that call them.
\<close>

section \<open>Limits and error codes\<close>

definition MAX_MSG_LEN :: nat where "MAX_MSG_LEN = 1024"
definition MAX_PAYLOAD_LEN :: nat where "MAX_PAYLOAD_LEN = 512"
definition MAX_B64_LEN :: nat where "MAX_B64_LEN = (MAX_PAYLOAD_LEN div 3 + 1) * 4"
definition MAX_BATCH_SIZE :: nat where "MAX_BATCH_SIZE = 16"
definition MAX_SUBSCRIPTIONS :: nat where "MAX_SUBSCRIPTIONS = 8"

lemmas limit_defs = MAX_MSG_LEN_def MAX_PAYLOAD_LEN_def MAX_B64_LEN_def MAX_BATCH_SIZE_def
  MAX_SUBSCRIPTIONS_def

definition ERROR_MISSING_VERSION :: str where
  [errcode_defs]: "ERROR_MISSING_VERSION = ''missing_version''"
definition ERROR_UNSUPPORTED_VERSION :: str where
  [errcode_defs]: "ERROR_UNSUPPORTED_VERSION = ''unsupported_version''"
definition ERROR_MSG_TOO_LARGE :: str where
  [errcode_defs]: "ERROR_MSG_TOO_LARGE = ''msg_too_large''"
definition ERROR_MALFORMED_JSON :: str where
  [errcode_defs]: "ERROR_MALFORMED_JSON = ''malformed_json''"
definition ERROR_MISSING_FIELD :: str where
  [errcode_defs]: "ERROR_MISSING_FIELD = ''missing_field''"
definition ERROR_UNKNOWN_INTERFACE :: str where
  [errcode_defs]: "ERROR_UNKNOWN_INTERFACE = ''unknown_interface''"
definition ERROR_UNKNOWN_ACTION :: str where
  [errcode_defs]: "ERROR_UNKNOWN_ACTION = ''unknown_action''"
definition ERROR_INVALID_PIN :: str where
  [errcode_defs]: "ERROR_INVALID_PIN = ''invalid_pin''"
definition ERROR_VALUE_OUT_OF_RANGE :: str where
  [errcode_defs]: "ERROR_VALUE_OUT_OF_RANGE = ''value_out_of_range''"
definition ERROR_NOT_CONFIGURED :: str where
  [errcode_defs]: "ERROR_NOT_CONFIGURED = ''not_configured''"
definition ERROR_PERIPHERAL_ERROR :: str where
  [errcode_defs]: "ERROR_PERIPHERAL_ERROR = ''peripheral_error''"
definition ERROR_INVALID_ENCODING :: str where
  [errcode_defs]: "ERROR_INVALID_ENCODING = ''invalid_encoding''"
definition ERROR_WEBSOCKET_HANDSHAKE :: str where
  [errcode_defs]: "ERROR_WEBSOCKET_HANDSHAKE = ''ws_handshake_failed''"
definition ERROR_BATCH_TOO_LARGE :: str where
  [errcode_defs]: "ERROR_BATCH_TOO_LARGE = ''batch_too_large''"
definition ERROR_BATCH_EMPTY :: str where
  [errcode_defs]: "ERROR_BATCH_EMPTY = ''batch_empty''"
definition ERROR_SUBSCRIPTION_LIMIT :: str where
  [errcode_defs]: "ERROR_SUBSCRIPTION_LIMIT = ''subscription_limit''"
definition ERROR_ALREADY_SUBSCRIBED :: str where
  [errcode_defs]: "ERROR_ALREADY_SUBSCRIBED = ''already_subscribed''"
definition ERROR_NOT_SUBSCRIBED :: str where
  [errcode_defs]: "ERROR_NOT_SUBSCRIBED = ''not_subscribed''"

section \<open>What a value serialises to\<close>

text \<open>The calls a \<open>Serialize\<close> implementation makes on its serializer, as a tree.\<close>

datatype ser =
    SBool bool
  | SUint nat
  | SF32 f32
  | SStr str
  | SNone
  | SSeq "ser list"
  | SMap "(str \<times> ser) list"

fun ser_option :: "('a \<Rightarrow> ser) \<Rightarrow> 'a option \<Rightarrow> ser" where
  "ser_option f None = SNone"
| "ser_option f (Some x) = f x"

section \<open>ADC channels\<close>

datatype adc_channel = Ch0 | Ch1 | Ch2 | Temp

definition adc_channel_serialize :: "adc_channel \<Rightarrow> u8" where
  "adc_channel_serialize c = (case c of Ch0 \<Rightarrow> 0 | Ch1 \<Rightarrow> 1 | Ch2 \<Rightarrow> 2 | Temp \<Rightarrow> 3)"

definition visit_u64 :: "u64 \<Rightarrow> (adc_channel, str) result" where
  "visit_u64 v =
     (if v = 0 then Ok Ch0 else if v = 1 then Ok Ch1 else if v = 2 then Ok Ch2
      else if v = 3 then Ok Temp
      else Err ''adc channel out of range (valid: 0, 1, 2, 3)'')"

definition visit_i64 :: "64 word \<Rightarrow> (adc_channel, str) result" where
  "visit_i64 v =
     (if sint v < 0 then Err ''adc channel cannot be negative'' else visit_u64 v)"

instantiation adc_channel :: enum
begin

definition enum_adc_channel :: "adc_channel list" where
  "enum_adc_channel = [Ch0, Ch1, Ch2, Temp]"

definition enum_all_adc_channel :: "(adc_channel \<Rightarrow> bool) \<Rightarrow> bool" where
  "enum_all_adc_channel P \<longleftrightarrow> P Ch0 \<and> P Ch1 \<and> P Ch2 \<and> P Temp"

definition enum_ex_adc_channel :: "(adc_channel \<Rightarrow> bool) \<Rightarrow> bool" where
  "enum_ex_adc_channel P \<longleftrightarrow> P Ch0 \<or> P Ch1 \<or> P Ch2 \<or> P Temp"

instance
proof
  show "UNIV = set (enum_class.enum :: adc_channel list)"
    using adc_channel.exhaust by (auto simp: enum_adc_channel_def)
  show "distinct (enum_class.enum :: adc_channel list)"
    by (simp add: enum_adc_channel_def)
  fix P :: "adc_channel \<Rightarrow> bool"
  show "enum_class.enum_all P \<longleftrightarrow> Ball UNIV P"
    by (metis adc_channel.exhaust enum_all_adc_channel_def UNIV_I)
  show "enum_class.enum_ex P \<longleftrightarrow> Bex UNIV P"
    by (metis adc_channel.exhaust enum_ex_adc_channel_def UNIV_I)
qed

end

lemma adc_channel_roundtrip: "visit_u64 (ucast (adc_channel_serialize c)) = Ok c"
  by (cases c) (simp_all add: visit_u64_def adc_channel_serialize_def)

section \<open>Commands\<close>

text \<open>
  \<open>CommandInner\<close> and \<open>Command\<close> have the same fields but for the inner commands of a batch,
  so \<open>Command\<close> is the record extended. The identifiers carry the prefix \<open>c_\<close>; the borrowed
  strings are values, the receive buffer they point into being immutable while a command lives.
\<close>

record command_inner =
  c_version :: "u8 option"
  c_id :: str
  c_interface :: "str option"
  c_action :: "str option"
  c_pin :: "u8 option"
  c_value :: "u8 option"
  c_mode :: "str option"
  c_pull :: "str option"
  c_uart :: "u8 option"
  c_bytes :: "str option"
  c_len :: "nat option"
  c_baud :: "u32 option"
  c_data_bits :: "u8 option"
  c_parity :: "str option"
  c_stop_bits :: "u8 option"
  c_spi :: "u8 option"
  c_freq_hz :: "u32 option"
  c_cpol :: "u8 option"
  c_cpha :: "u8 option"
  c_i2c :: "u8 option"
  c_addr :: "u8 option"
  c_write_bytes :: "str option"
  c_read_len :: "nat option"
  c_channel :: "u8 option"
  c_duty_u16 :: "u16 option"
  c_adc_channel :: "adc_channel option"
  c_interval_ms :: "u32 option"
  c_trigger :: "str option"

record command = command_inner +
  c_commands :: "command_inner list option"

definition to_command :: "command_inner \<Rightarrow> command" where
  "to_command c =
   \<lparr>c_version = c_version c,
     c_id = c_id c,
     c_interface = c_interface c,
     c_action = c_action c,
     c_pin = c_pin c,
     c_value = c_value c,
     c_mode = c_mode c,
     c_pull = c_pull c,
     c_uart = c_uart c,
     c_bytes = c_bytes c,
     c_len = c_len c,
     c_baud = c_baud c,
     c_data_bits = c_data_bits c,
     c_parity = c_parity c,
     c_stop_bits = c_stop_bits c,
     c_spi = c_spi c,
     c_freq_hz = c_freq_hz c,
     c_cpol = c_cpol c,
     c_cpha = c_cpha c,
     c_i2c = c_i2c c,
     c_addr = c_addr c,
     c_write_bytes = c_write_bytes c,
     c_read_len = c_read_len c,
     c_channel = c_channel c,
     c_duty_u16 = c_duty_u16 c,
     c_adc_channel = c_adc_channel c,
     c_interval_ms = c_interval_ms c,
     c_trigger = c_trigger c,
     c_commands = None\<rparr>"

lemma to_command_fields [simp]:
  "c_version (to_command c) = c_version c"
  "c_id (to_command c) = c_id c"
  "c_interface (to_command c) = c_interface c"
  "c_action (to_command c) = c_action c"
  "c_pin (to_command c) = c_pin c"
  "c_value (to_command c) = c_value c"
  "c_mode (to_command c) = c_mode c"
  "c_pull (to_command c) = c_pull c"
  "c_uart (to_command c) = c_uart c"
  "c_bytes (to_command c) = c_bytes c"
  "c_len (to_command c) = c_len c"
  "c_baud (to_command c) = c_baud c"
  "c_data_bits (to_command c) = c_data_bits c"
  "c_parity (to_command c) = c_parity c"
  "c_stop_bits (to_command c) = c_stop_bits c"
  "c_spi (to_command c) = c_spi c"
  "c_freq_hz (to_command c) = c_freq_hz c"
  "c_cpol (to_command c) = c_cpol c"
  "c_cpha (to_command c) = c_cpha c"
  "c_i2c (to_command c) = c_i2c c"
  "c_addr (to_command c) = c_addr c"
  "c_write_bytes (to_command c) = c_write_bytes c"
  "c_read_len (to_command c) = c_read_len c"
  "c_channel (to_command c) = c_channel c"
  "c_duty_u16 (to_command c) = c_duty_u16 c"
  "c_adc_channel (to_command c) = c_adc_channel c"
  "c_interval_ms (to_command c) = c_interval_ms c"
  "c_trigger (to_command c) = c_trigger c"
  "c_commands (to_command c) = None"
  by (simp_all add: to_command_def)

definition check_version :: "command \<Rightarrow> (unit, str) result" where
  "check_version c =
     (case c_version c of
        None \<Rightarrow> Err ERROR_MISSING_VERSION
      | Some v \<Rightarrow> if v = 1 then Ok () else Err ERROR_UNSUPPORTED_VERSION)"

text \<open>What \<open>serde_json_core::from_slice\<close> gives for \<open>Command\<close>: the command and the bytes read.\<close>

type_synonym from_slice = "u8 list \<Rightarrow> (command \<times> nat) option"

definition parse_command :: "from_slice \<Rightarrow> u8 list \<Rightarrow> (command, str) result" where
  "parse_command from_slice buf =
     (if length buf > MAX_MSG_LEN then Err ERROR_MSG_TOO_LARGE
      else bind_result (ok_or ERROR_MALFORMED_JSON (from_slice buf))
        (\<lambda>(cmd, n). bind_result (check_version cmd) (\<lambda>_. Ok cmd)))"

section \<open>Responses\<close>

text \<open>
  \<open>Config\<close> has the MQTT host and port exactly when the firmware is built with the
  \<open>transport-mqtt\<close> feature. A finite single-precision float is its value.
\<close>

datatype response_data =
    GpioRead u8
  | AdcRead u16 f32
  | AdcTemp f32
  | Bytes "u8 list"
  | Config str str bool "(str \<times> u16) option"
  | Version str

record response =
  r_id :: str
  r_ok :: bool
  r_data :: "response_data option"
  r_error :: "str option"

definition response_ok :: "str \<Rightarrow> response_data option \<Rightarrow> response" where
  "response_ok rid dat = \<lparr>r_id = rid, r_ok = True, r_data = dat, r_error = None\<rparr>"

definition response_error :: "str \<Rightarrow> str \<Rightarrow> response" where
  "response_error rid e = \<lparr>r_id = rid, r_ok = False, r_data = None, r_error = Some e\<rparr>"

lemma response_ok_sel [simp]:
  "r_id (response_ok i d) = i" "r_ok (response_ok i d)" "r_data (response_ok i d) = d"
  "r_error (response_ok i d) = None"
  by (simp_all add: response_ok_def)

lemma response_error_sel [simp]:
  "r_id (response_error i e) = i" "\<not> r_ok (response_error i e)"
  "r_data (response_error i e) = None" "r_error (response_error i e) = Some e"
  by (simp_all add: response_error_def)

text \<open>A response of the protocol: success has no error, failure has an error and no data.\<close>

definition wf_response :: "str \<Rightarrow> response \<Rightarrow> bool" where
  "wf_response i r \<longleftrightarrow> r_id r = i \<and> (r_ok r \<longleftrightarrow> r_error r = None) \<and> (\<not> r_ok r \<longrightarrow> r_data r = None)"

lemma wf_response_ok [simp]: "wf_response i (response_ok j d) \<longleftrightarrow> i = j"
  by (auto simp: wf_response_def)

lemma wf_response_error [simp]: "wf_response i (response_error j e) \<longleftrightarrow> i = j"
  by (auto simp: wf_response_def)

definition base64_bytes_serialize :: "u8 list \<Rightarrow> ser exec" where
  "base64_bytes_serialize bs =
     bind_exec (encode bs (replicate MAX_B64_LEN 0)) (\<lambda>(n, buf).
     bind_exec (slice buf 0 n) (\<lambda>enc.
       case from_utf8 enc of Ok s \<Rightarrow> Ret (SStr s) | Err _ \<Rightarrow> Panic))"

definition response_data_ser :: "response_data \<Rightarrow> ser exec" where
  "response_data_ser d =
     (case d of
        GpioRead v \<Rightarrow> Ret (SMap [(''value'', SUint (unat v))])
      | AdcRead raw voltage \<Rightarrow>
          Ret (SMap [(''raw'', SUint (unat raw)), (''voltage'', SF32 voltage)])
      | AdcTemp celsius \<Rightarrow> Ret (SMap [(''celsius'', SF32 celsius)])
      | Bytes bs \<Rightarrow>
          bind_exec (base64_bytes_serialize bs) (\<lambda>s. Ret (SMap [(''bytes'', s)]))
      | Config ssid ip conn mqtt \<Rightarrow>
          Ret (SMap ([(''ssid'', SStr ssid), (''ip'', SStr ip), (''connected'', SBool conn)] @
                     (case mqtt of None \<Rightarrow> []
                      | Some (host, port) \<Rightarrow>
                          [(''mqtt_host'', SStr host), (''mqtt_port'', SUint (unat port))])))
      | Version v \<Rightarrow> Ret (SMap [(''version'', SStr v)]))"

definition response_ser :: "response \<Rightarrow> ser exec" where
  "response_ser r =
     bind_exec (case r_data r of None \<Rightarrow> Ret SNone | Some d \<Rightarrow> response_data_ser d) (\<lambda>dat.
       Ret (SMap [(''id'', SStr (r_id r)), (''ok'', SBool (r_ok r)), (''data'', dat),
                  (''error'', ser_option SStr (r_error r))]))"

text \<open>What \<open>serde_json_core::to_slice\<close> does: the bytes written, if they fit, and the buffer.\<close>

type_synonym to_slice = "ser \<Rightarrow> u8 list \<Rightarrow> nat option \<times> u8 list"

text \<open>The body \<open>serialize_response\<close> and \<open>serialize_batch_response\<close> share.\<close>

definition finish_line :: "nat option \<times> u8 list \<Rightarrow> ((nat, str) result \<times> u8 list) exec" where
  "finish_line r =
     (case r of
        (None, buf) \<Rightarrow> Ret (Err ERROR_MSG_TOO_LARGE, buf)
      | (Some n, buf) \<Rightarrow>
          (if n \<ge> length buf then Ret (Err ERROR_MSG_TOO_LARGE, buf)
           else bind_exec (put_at buf n 10) (\<lambda>buf'. Ret (Ok (n + 1), buf'))))"

definition serialize_response ::
  "to_slice \<Rightarrow> response \<Rightarrow> u8 list \<Rightarrow> ((nat, str) result \<times> u8 list) exec" where
  "serialize_response to_slice resp buf =
     bind_exec (response_ser resp) (\<lambda>v. finish_line (to_slice v buf))"

section \<open>The frame reader\<close>

record frame_reader =
  fr_buf :: "u8 list"
  fr_pos :: nat
  fr_overflowed :: bool

definition frame_reader_new :: frame_reader where
  "frame_reader_new = \<lparr>fr_buf = replicate MAX_MSG_LEN 0, fr_pos = 0, fr_overflowed = False\<rparr>"

definition frame_reader_reset :: "frame_reader \<Rightarrow> frame_reader" where
  "frame_reader_reset r = r\<lparr>fr_pos := 0, fr_overflowed := False\<rparr>"

definition frame_reader_push ::
  "frame_reader \<Rightarrow> u8 \<Rightarrow> ((u8 list option, str) result \<times> frame_reader) exec" where
  "frame_reader_push r b =
     (if b = byte (CHR ''\<newline>'') then
        (if fr_overflowed r then Ret (Err ERROR_MSG_TOO_LARGE, frame_reader_reset r)
         else bind_exec (slice (fr_buf r) 0 (fr_pos r)) (\<lambda>frame.
                Ret (Ok (Some frame), r\<lparr>fr_pos := 0\<rparr>)))
      else if fr_pos r \<ge> MAX_MSG_LEN - 1 then Ret (Ok None, r\<lparr>fr_overflowed := True\<rparr>)
      else bind_exec (put_at (fr_buf r) (fr_pos r) b) (\<lambda>buf.
             Ret (Ok None, r\<lparr>fr_buf := buf, fr_pos := fr_pos r + 1\<rparr>)))"

text \<open>What pushing a run of bytes delivers: the complete frames and the overflow errors.\<close>

fun push_all ::
  "frame_reader \<Rightarrow> u8 list \<Rightarrow> ((u8 list, str) result list \<times> frame_reader) exec" where
  "push_all r [] = Ret ([], r)"
| "push_all r (b # bs) =
     bind_exec (frame_reader_push r b) (\<lambda>(out, r').
     bind_exec (push_all r' bs) (\<lambda>(outs, r'').
       Ret ((case out of Ok None \<Rightarrow> outs | Ok (Some f) \<Rightarrow> Ok f # outs | Err e \<Rightarrow> Err e # outs), r'')))"

subsection \<open>Specification\<close>

text \<open>
  A byte stream is its lines. The reader state holds a partial line: its first 1023 bytes and
  whether there are more.
\<close>

definition line_result :: "u8 list \<Rightarrow> (u8 list, str) result" where
  "line_result l = (if length l < MAX_MSG_LEN then Ok l else Err ERROR_MSG_TOO_LARGE)"

definition stream_frames :: "u8 list \<Rightarrow> (u8 list, str) result list" where
  "stream_frames bs = map line_result (butlast (split_on 10 bs))"

definition fr_holds :: "frame_reader \<Rightarrow> u8 list \<Rightarrow> bool" where
  "fr_holds r l \<longleftrightarrow>
     length (fr_buf r) = MAX_MSG_LEN \<and>
     fr_pos r = min (length l) (MAX_MSG_LEN - 1) \<and>
     take (fr_pos r) (fr_buf r) = take (MAX_MSG_LEN - 1) l \<and>
     (fr_overflowed r \<longleftrightarrow> MAX_MSG_LEN \<le> length l)"

lemma newline_byte: "byte (CHR ''\<newline>'') = 10"
  by simp

lemma fr_holds_new: "fr_holds frame_reader_new []"
  by (simp add: fr_holds_def frame_reader_new_def limit_defs)

lemma frame_reader_push_data:
  assumes "fr_holds r l" "b \<noteq> 10"
  shows "\<exists>r'. frame_reader_push r b = Ret (Ok None, r') \<and> fr_holds r' (l @ [b])"
  using assms
  by (cases "length l < MAX_MSG_LEN - 1")
    (auto simp: frame_reader_push_def fr_holds_def limit_defs exec_simps take_Suc_conv_app_nth min_def)

lemma frame_reader_push_newline:
  assumes "fr_holds r l"
  shows "\<exists>r'. frame_reader_push r 10 =
           Ret (case line_result l of Ok f \<Rightarrow> Ok (Some f) | Err e \<Rightarrow> Err e, r') \<and> fr_holds r' []"
  using assms
  by (auto simp: frame_reader_push_def fr_holds_def limit_defs exec_simps line_result_def
      frame_reader_reset_def)

lemma push_all_holds:
  assumes "fr_holds r l" "10 \<notin> set l"
  shows "\<exists>r'. push_all r bs = Ret (stream_frames (l @ bs), r') \<and> fr_holds r' (last (split_on 10 (l @ bs)))"
  using assms
proof (induction bs arbitrary: r l)
  case Nil
  then show ?case
    by (simp add: stream_frames_def split_on_no_sep)
next
  case (Cons b bs)
  show ?case
  proof (cases "b = 10")
    case True
    obtain r' where r': "frame_reader_push r 10 =
        Ret (case line_result l of Ok f \<Rightarrow> Ok (Some f) | Err e \<Rightarrow> Err e, r')" "fr_holds r' []"
      using frame_reader_push_newline [OF Cons.prems(1)] by blast
    obtain r'' where "push_all r' bs = Ret (stream_frames bs, r'')"
      "fr_holds r'' (last (split_on 10 bs))"
      using Cons.IH [OF r'(2)] by auto
    then show ?thesis
      using r' True Cons.prems(2)
      by (auto simp: stream_frames_def split_on_append_sep line_result_def)
  next
    case False
    obtain r' where r': "frame_reader_push r b = Ret (Ok None, r')" "fr_holds r' (l @ [b])"
      using frame_reader_push_data [OF Cons.prems(1) False] by blast
    then show ?thesis
      using Cons.IH [OF r'(2)] Cons.prems(2) False by auto
  qed
qed

text \<open>C15: The reader turns any byte stream into its lines: each line of at most 1023 bytes is
  delivered whole, each longer one gives one \<open>msg_too_large\<close> and nothing else, the reader
  resynchronises at the next newline, no access leaves the buffer, and the bytes after the last
  newline are what the reader holds.\<close>

theorem frame_reader_stream:
  "\<exists>r. push_all frame_reader_new bs = Ret (stream_frames bs, r) \<and>
       fr_holds r (last (split_on 10 bs))"
  using push_all_holds [OF fr_holds_new, of bs] by simp

section \<open>Subscriptions\<close>

datatype edge_trigger = Rising | Falling | Both

definition edge_trigger_parse :: "str \<Rightarrow> edge_trigger option" where
  "edge_trigger_parse s =
     (if s = ''edge_rising'' then Some Rising
      else if s = ''edge_falling'' then Some Falling
      else if s = ''edge_both'' then Some Both
      else None)"

datatype subscription_target =
    Adc adc_channel u32
  | GpioLevel u8 u32
  | GpioEdge u8 edge_trigger

record subscription =
  s_id :: str
  s_target :: subscription_target

definition same_target :: "subscription \<Rightarrow> subscription_target \<Rightarrow> bool" where
  "same_target self other =
     (case (s_target self, other) of
        (Adc a _, Adc b _) \<Rightarrow> a = b
      | (GpioLevel a _, GpioLevel b _) \<Rightarrow> a = b
      | (GpioEdge a _, GpioEdge b _) \<Rightarrow> a = b
      | _ \<Rightarrow> False)"

text \<open>What a target watches, without the rate or the edge: \<open>same_target\<close> compares this.\<close>

datatype watched = WatchAdc adc_channel | WatchLevel u8 | WatchEdge u8

fun watched_of :: "subscription_target \<Rightarrow> watched" where
  "watched_of (Adc c _) = WatchAdc c"
| "watched_of (GpioLevel p _) = WatchLevel p"
| "watched_of (GpioEdge p _) = WatchEdge p"

lemma same_target_iff: "same_target s t \<longleftrightarrow> watched_of (s_target s) = watched_of t"
  by (cases "s_target s"; cases t) (simp_all add: same_target_def)

section \<open>Batch responses\<close>

record batch_response =
  b_id :: str
  b_ok :: bool
  b_responses :: "response list"
  b_error :: "str option"

fun seq_exec :: "'a exec list \<Rightarrow> 'a list exec" where
  "seq_exec [] = Ret []"
| "seq_exec (m # ms) = bind_exec m (\<lambda>x. bind_exec (seq_exec ms) (\<lambda>xs. Ret (x # xs)))"

definition batch_data_ser :: "response list \<Rightarrow> ser exec" where
  "batch_data_ser rs =
     bind_exec (seq_exec (map response_ser rs)) (\<lambda>vs. Ret (SMap [(''responses'', SSeq vs)]))"

definition batch_response_ser :: "batch_response \<Rightarrow> ser exec" where
  "batch_response_ser b =
     bind_exec (if b_ok b then batch_data_ser (b_responses b) else Ret SNone) (\<lambda>dat.
       Ret (SMap [(''id'', SStr (b_id b)), (''ok'', SBool (b_ok b)), (''data'', dat),
                  (''error'', ser_option SStr (b_error b))]))"

definition serialize_batch_response ::
  "to_slice \<Rightarrow> batch_response \<Rightarrow> u8 list \<Rightarrow> ((nat, str) result \<times> u8 list) exec" where
  "serialize_batch_response to_slice resp buf =
     bind_exec (batch_response_ser resp) (\<lambda>v. finish_line (to_slice v buf))"

section \<open>Serialised responses are frames\<close>

text \<open>The length the type \<open>heapless::Vec<u8, 512>\<close> allows.\<close>

definition response_fits :: "response \<Rightarrow> bool" where
  "response_fits r = (case r_data r of Some (Bytes bs) \<Rightarrow> length bs \<le> MAX_PAYLOAD_LEN | _ \<Rightarrow> True)"

text \<open>
  The documented behaviour of \<open>serde_json_core::to_slice\<close>: the JSON text of the value if it
  fits the buffer, an error otherwise; JSON text escapes control characters.
\<close>

definition to_slice_ok :: "(ser \<Rightarrow> u8 list) \<Rightarrow> to_slice \<Rightarrow> bool" where
  "to_slice_ok json to_slice \<longleftrightarrow>
     (\<forall>v. 10 \<notin> set (json v)) \<and>
     (\<forall>v buf. length buf < length (json v) \<longrightarrow>
        fst (to_slice v buf) = None \<and> length (snd (to_slice v buf)) = length buf) \<and>
     (\<forall>v buf. length (json v) \<le> length buf \<longrightarrow>
        to_slice v buf = (Some (length (json v)), json v @ drop (length (json v)) buf))"

lemma base64_bytes_serialize_eq:
  assumes "length bs \<le> MAX_PAYLOAD_LEN"
  shows "base64_bytes_serialize bs = Ret (SStr (of_bytes (b64_text bs)))"
proof -
  have "length (b64_text bs) \<le> MAX_B64_LEN"
    using assms by (simp add: length_b64_text limit_defs)
  moreover have "from_utf8 (b64_text bs) = Ok (of_bytes (b64_text bs))"
    using b64_text_ascii by (simp add: from_utf8_def utf8_valid_ascii)
  ultimately show ?thesis
    by (simp add: base64_bytes_serialize_def encode_fits slice_Ret)
qed

text \<open>A value that does not fit leaves the buffer its length.\<close>

lemma to_slice_length:
  assumes "to_slice_ok json to_slice"
  shows "length (snd (to_slice v buf)) = length buf"
  using assms by (cases "length buf < length (json v)") (auto simp: to_slice_ok_def)

lemma response_ser_total: "response_fits r \<Longrightarrow> \<exists>v. response_ser r = Ret v"
  by (auto simp: response_ser_def response_data_ser_def response_fits_def base64_bytes_serialize_eq
      split: option.splits response_data.splits)

lemma finish_line_fits:
  assumes "to_slice_ok json to_slice" "length (json v) < length buf"
  shows "finish_line (to_slice v buf) =
     Ret (Ok (length (json v) + 1), json v @ 10 # drop (length (json v) + 1) buf)"
proof -
  have "to_slice v buf = (Some (length (json v)), json v @ drop (length (json v)) buf)"
    using assms unfolding to_slice_ok_def by (metis less_imp_le)
  moreover have "drop (length (json v)) buf = buf ! length (json v) # drop (length (json v) + 1) buf"
    using assms(2) by (simp add: Cons_nth_drop_Suc)
  ultimately show ?thesis
    using assms(2) by (simp add: finish_line_def put_at_def list_update_append)
qed

lemma finish_line_overflow:
  assumes "to_slice_ok json to_slice" "length buf \<le> length (json v)"
  shows "\<exists>buf'. finish_line (to_slice v buf) = Ret (Err ERROR_MSG_TOO_LARGE, buf') \<and>
     length buf' = length buf"
proof (cases "length buf < length (json v)")
  case True
  then have "fst (to_slice v buf) = None"
    using assms(1) by (simp add: to_slice_ok_def)
  then show ?thesis
    using to_slice_length [OF assms(1), of v buf]
    by (cases "to_slice v buf") (simp add: finish_line_def)
next
  case False
  then have "to_slice v buf = (Some (length (json v)), json v @ drop (length (json v)) buf)"
    using assms unfolding to_slice_ok_def by (metis not_less)
  then show ?thesis
    using False assms(2) by (simp add: finish_line_def)
qed

lemma push_all_line:
  assumes "10 \<notin> set l" "length l < MAX_MSG_LEN"
  shows "\<exists>r. push_all frame_reader_new (l @ [10]) = Ret ([Ok l], r) \<and> fr_holds r []"
  using push_all_holds [OF fr_holds_new, of "l @ [10]"] assms
  by (simp add: stream_frames_def split_on_append_sep line_result_def)

text \<open>C35: A response whose payload fits its type is always serialised, without a panic. If its
  JSON text and a newline fit the buffer, the bytes written are one frame: a frame reader of the
  protocol gives back the JSON text. Otherwise the result is \<open>msg_too_large\<close>.\<close>

theorem serialize_response_framing:
  assumes "to_slice_ok json to_slice" "response_fits r" "length buf \<le> MAX_MSG_LEN"
  shows "\<exists>v. response_ser r = Ret v \<and>
     (if length (json v) < length buf
      then \<exists>buf' fr. serialize_response to_slice r buf = Ret (Ok (length (json v) + 1), buf') \<and>
             length buf' = length buf \<and>
             push_all frame_reader_new (take (length (json v) + 1) buf') = Ret ([Ok (json v)], fr)
      else \<exists>buf'. serialize_response to_slice r buf = Ret (Err ERROR_MSG_TOO_LARGE, buf') \<and>
             length buf' = length buf)"
proof -
  obtain v where v: "response_ser r = Ret v"
    using response_ser_total [OF assms(2)] by blast
  have "10 \<notin> set (json v)"
    using assms(1) by (simp add: to_slice_ok_def)
  then show ?thesis
    using v assms finish_line_fits [OF assms(1), of v buf] finish_line_overflow [OF assms(1), of buf v]
      push_all_line [of "json v"]
    by (auto simp: serialize_response_def not_less)
qed

text \<open>A renderer and a \<open>to_slice\<close> with the documented behaviour, to evaluate instances with.\<close>

definition json_char :: "char \<Rightarrow> str" where
  "json_char c =
     (if c = CHR 0x22 \<or> c = CHR 0x5C then [CHR 0x5C, c]
      else if of_char c < (32 :: nat) then CHR 0x5C # ''u00'' @ fmt_02x False (of_char c)
      else [c])"

definition json_string :: "str \<Rightarrow> str" where
  "json_string s = CHR 0x22 # concat (map json_char s) @ [CHR 0x22]"

fun json_value :: "ser \<Rightarrow> str"
  and json_seq :: "ser list \<Rightarrow> str list"
  and json_entries :: "(str \<times> ser) list \<Rightarrow> str list" where
  "json_value (SBool b) = (if b then ''true'' else ''false'')"
| "json_value (SUint n) = fmt_dec n"
| "json_value (SF32 x) = fmt_dec (nat \<lfloor>x\<rfloor>)"
| "json_value (SStr s) = json_string s"
| "json_value SNone = ''null''"
| "json_value (SSeq vs) = ''['' @ concat (json_seq vs) @ '']''"
| "json_value (SMap kvs) = ''{'' @ concat (json_entries kvs) @ ''}''"
| "json_seq [] = []"
| "json_seq (v # vs) = json_value v # (if vs = [] then [] else '','' # json_seq vs)"
| "json_entries [] = []"
| "json_entries ((k, v) # kvs) =
     (json_string k @ '':'' @ json_value v) # (if kvs = [] then [] else '','' # json_entries kvs)"

definition sample_to_slice :: to_slice where
  "sample_to_slice v buf =
     (let t = as_bytes (json_value v)
      in if length t \<le> length buf then (Some (length t), t @ drop (length t) buf) else (None, buf))"

lemma hex_digit_newline: "n < 16 \<Longrightarrow> hex_digit u n \<noteq> CHR ''\<newline>''"
  by (auto simp: hex_digit_def dest: arg_cong [where f = "of_char :: char \<Rightarrow> nat"])

lemma newline_json_string: "CHR ''\<newline>'' \<notin> set (json_string s)"
  using hex_digit_newline
  by (auto simp: json_string_def json_char_def fmt_02x_def dest: sym split: if_splits)

lemma newline_fmt_dec: "CHR ''\<newline>'' \<notin> set (fmt_dec n)"
  using fmt_dec_digits [of n] by fastforce

lemma newline_json:
  "CHR ''\<newline>'' \<notin> set (json_value v)"
  "\<forall>t \<in> set (json_seq vs). CHR ''\<newline>'' \<notin> set t"
  "\<forall>t \<in> set (json_entries kvs). CHR ''\<newline>'' \<notin> set t"
  by (induction v and vs and kvs rule: json_value_json_seq_json_entries.induct)
    (auto simp: newline_fmt_dec newline_json_string)

lemma newline_as_bytes: "10 \<in> set (as_bytes s) \<longleftrightarrow> CHR ''\<newline>'' \<in> set s"
proof -
  have "(of_char c :: u8) = 10 \<longleftrightarrow> c = CHR ''\<newline>''" for c
    by (metis newline_byte of_bytes_as_bytes as_bytes_Cons as_bytes_Nil list.inject)
  then show ?thesis
    by (force simp: as_bytes_def)
qed

lemma sample_to_slice_ok: "to_slice_ok (\<lambda>v. as_bytes (json_value v)) sample_to_slice"
  by (simp add: to_slice_ok_def sample_to_slice_def newline_as_bytes newline_json Let_def)

theorem serialize_response_framing_witness:
  "\<exists>v. response_ser (response_ok ''7'' (Some (GpioRead 1))) = Ret v \<and>
     (if length (as_bytes (json_value v)) < 100
      then \<exists>buf' fr. serialize_response sample_to_slice (response_ok ''7'' (Some (GpioRead 1)))
               (replicate 100 0) = Ret (Ok (length (as_bytes (json_value v)) + 1), buf') \<and>
             length buf' = 100 \<and>
             push_all frame_reader_new (take (length (as_bytes (json_value v)) + 1) buf') =
               Ret ([Ok (as_bytes (json_value v))], fr)
      else \<exists>buf'. serialize_response sample_to_slice (response_ok ''7'' (Some (GpioRead 1)))
               (replicate 100 0) = Ret (Err ERROR_MSG_TOO_LARGE, buf') \<and> length buf' = 100)"
  by (rule serialize_response_framing [OF sample_to_slice_ok,
      of "response_ok ''7'' (Some (GpioRead 1))" "replicate 100 0", unfolded length_replicate])
    (simp_all add: response_fits_def limit_defs)

end
