(* ===== verification/Heapless.thy ===== *)
theory Heapless
  imports Protocol
begin

text \<open>
  The fixed-capacity containers of the crate \<open>heapless\<close>, which is not part of the repository:
  the operations the router and the handlers call are arguments of their models, gathered in a
  record, and the documented behaviour they rely on is the predicate \<open>heapless_ok\<close>. A container
  is the list of its elements; its capacity is the first argument of an operation.
\<close>

record heapless =
  hl_push_str :: "nat \<Rightarrow> str \<Rightarrow> str \<Rightarrow> str \<times> (unit, unit) result"
  hl_try_from :: "nat \<Rightarrow> str \<Rightarrow> (str, unit) result"
  hl_write_str :: "nat \<Rightarrow> str \<Rightarrow> str \<Rightarrow> str \<times> (unit, unit) result"
  hl_extend :: "nat \<Rightarrow> u8 list \<Rightarrow> u8 list \<Rightarrow> u8 list \<times> (unit, unit) result"
  hl_push_subscription ::
    "nat \<Rightarrow> subscription list \<Rightarrow> subscription \<Rightarrow> subscription list \<times> (unit, subscription) result"
  hl_push_response ::
    "nat \<Rightarrow> response list \<Rightarrow> response \<Rightarrow> response list \<times> (unit, response) result"
  hl_retain_subscription ::
    "(subscription \<Rightarrow> bool) \<Rightarrow> subscription list \<Rightarrow> subscription list"
  hl_push_string :: "nat \<Rightarrow> str list \<Rightarrow> str \<Rightarrow> str list \<times> (unit, str) result"

text \<open>
  An operation that appends: all of the new elements when they fit the capacity, none of them
  and an error otherwise.
\<close>

definition appends ::
  "(nat \<Rightarrow> 'a list \<Rightarrow> 'b \<Rightarrow> 'a list \<times> (unit, 'e) result) \<Rightarrow> ('b \<Rightarrow> 'a list) \<Rightarrow> bool" where
  "appends f elems \<longleftrightarrow>
     (\<forall>n xs y. length xs + length (elems y) \<le> n \<longrightarrow> f n xs y = (xs @ elems y, Ok ())) \<and>
     (\<forall>n xs y. n < length xs + length (elems y) \<longrightarrow>
        fst (f n xs y) = xs \<and> result_ok (snd (f n xs y)) = None)"

definition heapless_ok :: "heapless \<Rightarrow> bool" where
  "heapless_ok hl \<longleftrightarrow>
     appends (hl_push_str hl) (\<lambda>s. s) \<and>
     appends (hl_write_str hl) (\<lambda>s. s) \<and>
     appends (hl_extend hl) (\<lambda>bs. bs) \<and>
     appends (hl_push_subscription hl) (\<lambda>s. [s]) \<and>
     appends (hl_push_response hl) (\<lambda>r. [r]) \<and>
     (\<forall>n s. hl_try_from hl n s = (if length s \<le> n then Ok s else Err ())) \<and>
     (\<forall>P ss. hl_retain_subscription hl P ss = filter P ss) \<and>
     appends (hl_push_string hl) (\<lambda>s. [s])"

lemma appends_fits: "appends f e \<Longrightarrow> length xs + length (e y) \<le> n \<Longrightarrow> f n xs y = (xs @ e y, Ok ())"
  by (simp add: appends_def)

lemma appends_full:
  "appends f e \<Longrightarrow> n < length xs + length (e y) \<Longrightarrow> \<exists>x. f n xs y = (xs, Err x)"
proof -
  assume "appends f e" "n < length xs + length (e y)"
  then have "fst (f n xs y) = xs" "result_ok (snd (f n xs y)) = None"
    unfolding appends_def by blast+
  then show ?thesis
    by (cases "f n xs y"; cases "snd (f n xs y)") auto
qed

lemma appends_length:
  "appends f e \<Longrightarrow> length xs \<le> n \<Longrightarrow> length (fst (f n xs y)) \<le> n"
  using appends_fits [of f e xs y n] appends_full [of f e n xs y]
  by (cases "length xs + length (e y) \<le> n") auto

lemma heapless_okD:
  assumes "heapless_ok hl"
  shows "appends (hl_push_str hl) (\<lambda>s. s)" "appends (hl_extend hl) (\<lambda>bs. bs)"
    "appends (hl_push_subscription hl) (\<lambda>s. [s])" "appends (hl_push_response hl) (\<lambda>r. [r])"
    "hl_retain_subscription hl P ss = filter P ss"
    "appends (hl_write_str hl) (\<lambda>s. s)"
    "hl_try_from hl n s = (if length s \<le> n then Ok s else Err ())"
    "appends (hl_push_string hl) (\<lambda>s. [s])"
  using assms by (simp_all add: heapless_ok_def)

text \<open>Containers as bounded lists, to evaluate instances with.\<close>

definition bounded_append ::
  "('b \<Rightarrow> 'a list) \<Rightarrow> ('b \<Rightarrow> 'e) \<Rightarrow> nat \<Rightarrow> 'a list \<Rightarrow> 'b \<Rightarrow> 'a list \<times> (unit, 'e) result" where
  "bounded_append elems err n xs y =
     (if length xs + length (elems y) \<le> n then (xs @ elems y, Ok ()) else (xs, Err (err y)))"

definition heapless_lists :: heapless where
  "heapless_lists =
     \<lparr>hl_push_str = bounded_append (\<lambda>s. s) (\<lambda>s. ()),
      hl_try_from = (\<lambda>n s. if length s \<le> n then Ok s else Err ()),
      hl_write_str = bounded_append (\<lambda>s. s) (\<lambda>s. ()),
      hl_extend = bounded_append (\<lambda>bs. bs) (\<lambda>bs. ()),
      hl_push_subscription = bounded_append (\<lambda>s. [s]) (\<lambda>s. s),
      hl_push_response = bounded_append (\<lambda>r. [r]) (\<lambda>r. r),
      hl_retain_subscription = filter,
      hl_push_string = bounded_append (\<lambda>s. [s]) (\<lambda>s. s)\<rparr>"

lemma appends_bounded_append: "appends (bounded_append elems err) elems"
  by (simp add: appends_def bounded_append_def)

lemma heapless_lists_ok: "heapless_ok heapless_lists"
  by (simp add: heapless_ok_def heapless_lists_def appends_bounded_append)

text \<open>
  The macro \<open>write!\<close> on a string: the formatter hands over the pieces one by one and stops at the
  first that does not fit.
\<close>

fun write_pieces :: "heapless \<Rightarrow> nat \<Rightarrow> str \<Rightarrow> str list \<Rightarrow> str \<times> (unit, unit) result" where
  "write_pieces hl n s [] = (s, Ok ())"
| "write_pieces hl n s (p # ps) =
     (case hl_write_str hl n s p of
        (s', Ok _) \<Rightarrow> write_pieces hl n s' ps
      | (s', Err e) \<Rightarrow> (s', Err e))"

lemma write_pieces_fits:
  "heapless_ok hl \<Longrightarrow> length s + length (concat ps) \<le> n \<Longrightarrow>
     write_pieces hl n s ps = (s @ concat ps, Ok ())"
proof (induction ps arbitrary: s)
  case (Cons p ps)
  then show ?case
    using appends_fits [OF heapless_okD(6) [OF Cons.prems(1)], of s p n] by simp
qed simp

end
