(* ===== verification/F32.thy ===== *)
theory F32
  imports Prelude
begin

text \<open>
  IEEE 754 single precision as the firmware uses it: a finite float is its rational value, and an
  operation is the exact one rounded to 24 bits, to nearest and ties to even. Overflow and
  subnormals are left out: every value the firmware computes lies between \<open>2 ^ -126\<close> and
  \<open>2 ^ 127\<close> or is zero.
\<close>

fun nat_log2 :: "nat \<Rightarrow> nat" where
  "nat_log2 n = (if n < 2 then 0 else Suc (nat_log2 (n div 2)))"

declare nat_log2.simps [simp del]

text \<open>The exponent \<open>e\<close> with \<open>2 ^ e \<le> \<bar>x\<bar> < 2 ^ (e + 1)\<close>, for \<open>x\<close> not zero.\<close>

definition f32_exponent :: "rat \<Rightarrow> int" where
  "f32_exponent x =
     (if 1 \<le> \<bar>x\<bar> then int (nat_log2 (nat \<lfloor>\<bar>x\<bar>\<rfloor>))
      else let k = nat_log2 (nat \<lfloor>1 / \<bar>x\<bar>\<rfloor>)
           in if 2 ^ k = 1 / \<bar>x\<bar> then - int k else - int k - 1)"

definition round_even :: "rat \<Rightarrow> int" where
  "round_even x =
     (let f = \<lfloor>x\<rfloor>; r = x - of_int f
      in if r < 1 / 2 \<or> r = 1 / 2 \<and> even f then f else f + 1)"

definition f32_round :: "rat \<Rightarrow> f32" where
  "f32_round x =
     (if x = 0 then 0
      else let u = 2 powi (f32_exponent x - 23) in of_int (round_even (x / u)) * u)"

definition f32_div :: "f32 \<Rightarrow> f32 \<Rightarrow> f32" where "f32_div x y = f32_round (x / y)"
definition f32_mul :: "f32 \<Rightarrow> f32 \<Rightarrow> f32" where "f32_mul x y = f32_round (x * y)"
definition f32_sub :: "f32 \<Rightarrow> f32 \<Rightarrow> f32" where "f32_sub x y = f32_round (x - y)"

lemma nat_log2_bounds: "0 < n \<Longrightarrow> 2 ^ nat_log2 n \<le> n \<and> n < 2 * 2 ^ nat_log2 n"
proof (induction n rule: nat_log2.induct)
  case (1 n)
  show ?case
  proof (cases "n < 2")
    case True
    then show ?thesis using 1(2) by (simp add: nat_log2.simps)
  next
    case False
    then have "2 ^ nat_log2 (n div 2) \<le> n div 2" "n div 2 < 2 * 2 ^ nat_log2 (n div 2)"
      using 1(1) by auto
    then show ?thesis
      using False by (subst (1 2) nat_log2.simps) auto
  qed
qed

lemma log2_floor_bounds:
  assumes "1 \<le> (y :: rat)"
  shows "2 ^ nat_log2 (nat \<lfloor>y\<rfloor>) \<le> y" "y < 2 * 2 ^ nat_log2 (nat \<lfloor>y\<rfloor>)"
proof -
  let ?n = "nat \<lfloor>y\<rfloor>"
  have n: "0 < ?n" "of_nat ?n \<le> y" "y < of_nat ?n + 1"
    using assms floor_correct [of y] by (auto simp: zero_less_nat_eq le_floor_iff)
  note b = nat_log2_bounds [OF n(1)]
  have "of_nat (2 ^ nat_log2 ?n) \<le> (of_nat ?n :: rat)" "of_nat (?n + 1) \<le> (of_nat (2 * 2 ^ nat_log2 ?n) :: rat)"
    using b by (simp_all only: of_nat_le_iff) simp
  then have "2 ^ nat_log2 ?n \<le> (of_nat ?n :: rat)" "of_nat ?n + 1 \<le> (2 * 2 ^ nat_log2 ?n :: rat)"
    by (simp_all only: of_nat_power of_nat_mult of_nat_add of_nat_numeral of_nat_1)
  then show "2 ^ nat_log2 ?n \<le> y" "y < 2 * 2 ^ nat_log2 ?n"
    using n(2,3) by linarith+
qed

lemma f32_exponent_bounds:
  assumes "x \<noteq> 0"
  shows "2 powi f32_exponent x \<le> \<bar>x\<bar>" "\<bar>x\<bar> < 2 powi (f32_exponent x + 1)"
proof -
  have "2 powi f32_exponent x \<le> \<bar>x\<bar> \<and> \<bar>x\<bar> < 2 powi (f32_exponent x + 1)"
  proof (cases "1 \<le> \<bar>x\<bar>")
    case True
    then show ?thesis
      using log2_floor_bounds [of "\<bar>x\<bar>"] by (simp add: f32_exponent_def power_int_add)
  next
    case False
    define k where "k = nat_log2 (nat \<lfloor>1 / \<bar>x\<bar>\<rfloor>)"
    have "1 \<le> 1 / \<bar>x\<bar>"
      using False assms by simp
    from log2_floor_bounds [OF this] have k: "2 ^ k * \<bar>x\<bar> \<le> 1" "1 < 2 * 2 ^ k * \<bar>x\<bar>"
      using assms by (simp_all add: k_def field_simps)
    have e: "f32_exponent x = (if 2 ^ k * \<bar>x\<bar> = 1 then - int k else - int k - 1)"
      using False assms by (auto simp: f32_exponent_def k_def Let_def field_simps)
    show ?thesis
      using k unfolding e by (auto simp: power_int_minus power_int_diff power_int_add field_simps)
  qed
  then show "2 powi f32_exponent x \<le> \<bar>x\<bar>" "\<bar>x\<bar> < 2 powi (f32_exponent x + 1)"
    by simp_all
qed

lemma round_even_error: "\<bar>of_int (round_even x) - x\<bar> \<le> 1 / 2"
proof -
  have "of_int \<lfloor>x\<rfloor> \<le> x" "x < of_int \<lfloor>x\<rfloor> + 1"
    by linarith+
  then show ?thesis
    by (auto simp: round_even_def Let_def)
qed

text \<open>The relative error of a rounding.\<close>

lemma f32_round_error: "\<bar>f32_round x - x\<bar> \<le> \<bar>x\<bar> / 2 ^ 24"
proof (cases "x = 0")
  case True
  then show ?thesis by (simp add: f32_round_def)
next
  case False
  let ?u = "2 powi (f32_exponent x - 23) :: rat"
  have u: "0 < ?u" by simp
  have "f32_round x - x = (of_int (round_even (x / ?u)) - x / ?u) * ?u"
    using False u by (simp add: f32_round_def Let_def field_simps)
  then have "\<bar>f32_round x - x\<bar> = \<bar>of_int (round_even (x / ?u)) - x / ?u\<bar> * ?u"
    using u by (simp add: abs_mult)
  also have "\<dots> \<le> 1 / 2 * ?u"
    using u by (intro mult_right_mono round_even_error) simp
  also have "\<dots> = 2 powi f32_exponent x / 2 ^ 24"
    by (simp add: power_int_diff)
  also have "\<dots> \<le> \<bar>x\<bar> / 2 ^ 24"
    using f32_exponent_bounds(1) [OF False] by (intro divide_right_mono) simp_all
  finally show ?thesis .
qed

lemma pow2: "(2 :: rat) ^ 22 = 4194304" "(2 :: rat) ^ 24 = 16777216" "(2 :: rat) ^ 25 = 33554432"
  by simp_all

lemma f32_round_near:
  assumes "\<bar>x - y\<bar> \<le> d"
    and "\<bar>y\<bar> \<le> m"
  shows "\<bar>f32_round x - y\<bar> \<le> d + (m + d) / 2 ^ 24"
proof -
  have "\<bar>x\<bar> \<le> m + d"
    using assms by linarith
  then have "\<bar>x\<bar> / 2 ^ 24 \<le> (m + d) / 2 ^ 24"
    by (rule divide_right_mono) simp
  then show ?thesis
    using f32_round_error [of x] assms(1) by linarith
qed

lemma f32_round_bound: "\<bar>x\<bar> \<le> m \<Longrightarrow> \<bar>f32_round x - x\<bar> \<le> m / 2 ^ 24"
  using f32_round_near [of x x 0 m] by simp

end
