(* ===== verification/Interfaces.thy ===== *)
theory Interfaces
  imports Heapless F32
begin

text \<open>
  \<open>src/interfaces/mod.rs\<close> and the seven handler modules below it: the shared validation
  helpers, the handlers that only validate, and those the firmware calls with the data or the
  pins of a peripheral. The macro \<open>try_r!\<close> is \<open>try_r\<close>; a handler that decodes a payload can
  panic and has a result of type \<open>response exec\<close>.
\<close>

section \<open>Shared helpers (interfaces/mod.rs)\<close>

definition RESERVED_PINS :: "u8 list" where
  "RESERVED_PINS = [23, 24, 25, 26, 27, 28, 29]"

definition is_pin_available :: "u8 \<Rightarrow> bool" where
  "is_pin_available p \<longleftrightarrow> p \<le> 29 \<and> p \<notin> set RESERVED_PINS"

definition validate_index :: "command \<Rightarrow> u8 option \<Rightarrow> u8 \<Rightarrow> (u8, response) result" where
  "validate_index cmd field maxi =
     (case field of
        None \<Rightarrow> Err (response_error (c_id cmd) ERROR_MISSING_FIELD)
      | Some idx \<Rightarrow>
          (if idx > maxi then Err (response_error (c_id cmd) ERROR_VALUE_OUT_OF_RANGE)
           else Ok idx))"

definition check_configured :: "command \<Rightarrow> bool \<Rightarrow> (unit, response) result" where
  "check_configured cmd configured =
     (if configured then Ok () else Err (response_error (c_id cmd) ERROR_NOT_CONFIGURED))"

definition decode_bytes ::
  "heapless \<Rightarrow> command \<Rightarrow> str option \<Rightarrow> (u8 list, response) result exec" where
  "decode_bytes hl cmd field =
     (case (case field of Some s \<Rightarrow> if s \<noteq> [] then Some s else None | None \<Rightarrow> None) of
        None \<Rightarrow> Ret (Err (response_error (c_id cmd) ERROR_MISSING_FIELD))
      | Some encoded \<Rightarrow>
          bind_exec (decode (as_bytes encoded) (replicate MAX_PAYLOAD_LEN 0)) (\<lambda>(r, buf).
            case r of
              Err _ \<Rightarrow> Ret (Err (response_error (c_id cmd) ERROR_INVALID_ENCODING))
            | Ok n \<Rightarrow>
                bind_exec (slice buf 0 n) (\<lambda>bs.
                  case hl_extend hl MAX_PAYLOAD_LEN [] bs of
                    (v, Ok _) \<Rightarrow> Ret (Ok v)
                  | (v, Err _) \<Rightarrow> Ret (Err (response_error (c_id cmd) ERROR_INVALID_ENCODING)))))"

definition require_positive :: "command \<Rightarrow> nat option \<Rightarrow> (nat, response) result" where
  "require_positive cmd field =
     (case field of
        Some v \<Rightarrow>
          (if v > 0 then Ok v else Err (response_error (c_id cmd) ERROR_VALUE_OUT_OF_RANGE))
      | None \<Rightarrow> Err (response_error (c_id cmd) ERROR_MISSING_FIELD))"

text \<open>The macro \<open>try_r!\<close>, and the same with a computation that can panic.\<close>

fun try_r :: "('a, response) result \<Rightarrow> ('a \<Rightarrow> response exec) \<Rightarrow> response exec" where
  "try_r (Ok v) k = k v"
| "try_r (Err r) k = Ret r"

definition try_exec ::
  "('a, response) result exec \<Rightarrow> ('a \<Rightarrow> response exec) \<Rightarrow> response exec" where
  "try_exec m k = bind_exec m (\<lambda>x. try_r x k)"

definition bytes_response :: "heapless \<Rightarrow> str \<Rightarrow> u8 list \<Rightarrow> nat \<Rightarrow> response exec" where
  "bytes_response hl rid dat max_len =
     (let n = min (min max_len (length dat)) MAX_PAYLOAD_LEN
      in bind_exec (slice dat 0 n) (\<lambda>bs.
           Ret (response_ok rid (Some (Bytes (fst (hl_extend hl MAX_PAYLOAD_LEN [] bs)))))))"

section \<open>GPIO (interfaces/gpio.rs)\<close>

definition validate_pin :: "command \<Rightarrow> (u8, response) result" where
  "validate_pin cmd =
     (case c_pin cmd of
        None \<Rightarrow> Err (response_error (c_id cmd) ERROR_MISSING_FIELD)
      | Some pin_num \<Rightarrow>
          (if \<not> is_pin_available pin_num then Err (response_error (c_id cmd) ERROR_INVALID_PIN)
           else Ok pin_num))"

text \<open>
  The pins are \<open>embedded_hal\<close> objects with a state of their own: \<open>is_high\<close> gives the level or
  an error, \<open>set_low\<close> and \<open>set_high\<close> succeed or fail, and each returns the new state.
\<close>

definition gpio_handle_read ::
  "('p \<Rightarrow> (bool, 'e) result \<times> 'p) \<Rightarrow> 'p \<Rightarrow> command \<Rightarrow> response \<times> 'p" where
  "gpio_handle_read is_high pin cmd =
     (case validate_pin cmd of
        Err r \<Rightarrow> (r, pin)
      | Ok _ \<Rightarrow>
          (case is_high pin of
             (Ok high, pin') \<Rightarrow>
               (response_ok (c_id cmd) (Some (GpioRead (if high then 1 else 0))), pin')
           | (Err _, pin') \<Rightarrow> (response_error (c_id cmd) ERROR_PERIPHERAL_ERROR, pin')))"

definition gpio_handle_write ::
  "('p \<Rightarrow> (unit, 'e) result \<times> 'p) \<Rightarrow> ('p \<Rightarrow> (unit, 'e) result \<times> 'p) \<Rightarrow>
   'p \<Rightarrow> command \<Rightarrow> response \<times> 'p" where
  "gpio_handle_write set_low set_high pin cmd =
     (case validate_pin cmd of
        Err r \<Rightarrow> (r, pin)
      | Ok _ \<Rightarrow>
          (case c_value cmd of
             None \<Rightarrow> (response_error (c_id cmd) ERROR_MISSING_FIELD, pin)
           | Some v \<Rightarrow>
               (if v = 0 then
                  (case set_low pin of
                     (Err _, pin') \<Rightarrow> (response_error (c_id cmd) ERROR_PERIPHERAL_ERROR, pin')
                   | (Ok _, pin') \<Rightarrow> (response_ok (c_id cmd) None, pin'))
                else if v = 1 then
                  (case set_high pin of
                     (Err _, pin') \<Rightarrow> (response_error (c_id cmd) ERROR_PERIPHERAL_ERROR, pin')
                   | (Ok _, pin') \<Rightarrow> (response_ok (c_id cmd) None, pin'))
                else (response_error (c_id cmd) ERROR_VALUE_OUT_OF_RANGE, pin))))"

definition gpio_handle_set_mode :: "command \<Rightarrow> response" where
  "gpio_handle_set_mode cmd =
     (case validate_pin cmd of
        Err r \<Rightarrow> r
      | Ok _ \<Rightarrow>
          (case c_mode cmd of
             None \<Rightarrow> response_error (c_id cmd) ERROR_MISSING_FIELD
           | Some m \<Rightarrow>
               (if m = ''input'' \<or> m = ''output'' then
                  (case c_pull cmd of
                     None \<Rightarrow> response_ok (c_id cmd) None
                   | Some p \<Rightarrow>
                       (if p = ''up'' \<or> p = ''down'' \<or> p = ''none''
                        then response_ok (c_id cmd) None
                        else response_error (c_id cmd) ERROR_VALUE_OUT_OF_RANGE))
                else response_error (c_id cmd) ERROR_VALUE_OUT_OF_RANGE)))"

definition gpio_handle_unknown_action :: "command \<Rightarrow> response" where
  "gpio_handle_unknown_action cmd = response_error (c_id cmd) ERROR_UNKNOWN_ACTION"

section \<open>UART (interfaces/uart.rs)\<close>

datatype uart_parity = ParityNone | ParityOdd | ParityEven

record uart_config =
  uc_baud :: u32
  uc_data_bits :: u8
  uc_parity :: uart_parity
  uc_stop_bits :: u8
  uc_configured :: bool

definition uart_config_default :: uart_config where
  "uart_config_default =
     \<lparr>uc_baud = 115200, uc_data_bits = 8, uc_parity = ParityNone, uc_stop_bits = 1,
      uc_configured = False\<rparr>"

definition validate_uart :: "command \<Rightarrow> (u8, response) result" where
  "validate_uart cmd = validate_index cmd (c_uart cmd) 1"

definition uart_handle_configure :: "command \<Rightarrow> (uart_config, response) result" where
  "uart_handle_configure cmd =
     bind_result (validate_uart cmd) (\<lambda>_.
     bind_result
       (case c_baud cmd of
          None \<Rightarrow> Err (response_error (c_id cmd) ERROR_MISSING_FIELD)
        | Some b \<Rightarrow>
            (if b > 0 then Ok b else Err (response_error (c_id cmd) ERROR_VALUE_OUT_OF_RANGE)))
       (\<lambda>baud.
     bind_result
       (case c_data_bits cmd of
          None \<Rightarrow> Ok 8
        | Some d \<Rightarrow>
            (if d = 7 \<or> d = 8 then Ok d
             else Err (response_error (c_id cmd) ERROR_VALUE_OUT_OF_RANGE)))
       (\<lambda>data_bits.
     bind_result
       (case c_parity cmd of
          None \<Rightarrow> Ok ParityNone
        | Some p \<Rightarrow>
            (if p = ''none'' then Ok ParityNone
             else if p = ''odd'' then Ok ParityOdd
             else if p = ''even'' then Ok ParityEven
             else Err (response_error (c_id cmd) ERROR_VALUE_OUT_OF_RANGE)))
       (\<lambda>parity.
     bind_result
       (case c_stop_bits cmd of
          None \<Rightarrow> Ok 1
        | Some s \<Rightarrow>
            (if s = 1 \<or> s = 2 then Ok s
             else Err (response_error (c_id cmd) ERROR_VALUE_OUT_OF_RANGE)))
       (\<lambda>stop_bits.
     Ok \<lparr>uc_baud = baud, uc_data_bits = data_bits, uc_parity = parity,
         uc_stop_bits = stop_bits, uc_configured = True\<rparr>)))))"

definition uart_handle_write :: "heapless \<Rightarrow> command \<Rightarrow> bool \<Rightarrow> response exec" where
  "uart_handle_write hl cmd configured =
     try_r (check_configured cmd configured) (\<lambda>_.
     try_exec (decode_bytes hl cmd (c_bytes cmd)) (\<lambda>_.
     Ret (response_ok (c_id cmd) None)))"

definition uart_handle_read_with_data ::
  "heapless \<Rightarrow> command \<Rightarrow> bool \<Rightarrow> u8 list \<Rightarrow> response exec" where
  "uart_handle_read_with_data hl cmd configured rx_data =
     try_r (check_configured cmd configured) (\<lambda>_.
     try_r (validate_uart cmd) (\<lambda>_.
     try_r (require_positive cmd (c_len cmd)) (\<lambda>len.
     bytes_response hl (c_id cmd) rx_data len)))"

section \<open>SPI (interfaces/spi.rs)\<close>

record spi_config =
  sc_freq_hz :: u32
  sc_cpol :: u8
  sc_cpha :: u8
  sc_configured :: bool

definition spi_config_default :: spi_config where
  "spi_config_default =
     \<lparr>sc_freq_hz = 1000000, sc_cpol = 0, sc_cpha = 0, sc_configured = False\<rparr>"

definition validate_spi :: "command \<Rightarrow> (u8, response) result" where
  "validate_spi cmd = validate_index cmd (c_spi cmd) 1"

definition spi_handle_configure :: "command \<Rightarrow> (spi_config, response) result" where
  "spi_handle_configure cmd =
     bind_result (validate_spi cmd) (\<lambda>_.
     bind_result
       (case c_freq_hz cmd of
          None \<Rightarrow> Err (response_error (c_id cmd) ERROR_MISSING_FIELD)
        | Some f \<Rightarrow>
            (if f > 0 then Ok f else Err (response_error (c_id cmd) ERROR_VALUE_OUT_OF_RANGE)))
       (\<lambda>freq_hz.
     bind_result
       (case c_cpol cmd of
          None \<Rightarrow> Ok 0
        | Some p \<Rightarrow>
            (if p \<le> 1 then Ok p else Err (response_error (c_id cmd) ERROR_VALUE_OUT_OF_RANGE)))
       (\<lambda>cpol.
     bind_result
       (case c_cpha cmd of
          None \<Rightarrow> Ok 0
        | Some p \<Rightarrow>
            (if p \<le> 1 then Ok p else Err (response_error (c_id cmd) ERROR_VALUE_OUT_OF_RANGE)))
       (\<lambda>cpha.
     Ok \<lparr>sc_freq_hz = freq_hz, sc_cpol = cpol, sc_cpha = cpha, sc_configured = True\<rparr>))))"

definition spi_handle_transfer ::
  "heapless \<Rightarrow> command \<Rightarrow> bool \<Rightarrow> u8 list \<Rightarrow> response exec" where
  "spi_handle_transfer hl cmd configured miso_data =
     try_r (check_configured cmd configured) (\<lambda>_.
     try_r (validate_spi cmd) (\<lambda>_.
     try_exec (decode_bytes hl cmd (c_bytes cmd)) (\<lambda>mosi.
     bytes_response hl (c_id cmd) miso_data (length mosi))))"

definition spi_handle_write :: "heapless \<Rightarrow> command \<Rightarrow> bool \<Rightarrow> response exec" where
  "spi_handle_write hl cmd configured =
     try_r (check_configured cmd configured) (\<lambda>_.
     try_exec (decode_bytes hl cmd (c_bytes cmd)) (\<lambda>_.
     Ret (response_ok (c_id cmd) None)))"

section \<open>I2C (interfaces/i2c.rs)\<close>

record i2c_config =
  ic_freq_hz :: u32
  ic_configured :: bool

definition i2c_config_default :: i2c_config where
  "i2c_config_default = \<lparr>ic_freq_hz = 100000, ic_configured = False\<rparr>"

definition validate_i2c :: "command \<Rightarrow> (u8, response) result" where
  "validate_i2c cmd = validate_index cmd (c_i2c cmd) 1"

definition validate_addr :: "command \<Rightarrow> (u8, response) result" where
  "validate_addr cmd =
     (case c_addr cmd of
        Some a \<Rightarrow> Ok a
      | None \<Rightarrow> Err (response_error (c_id cmd) ERROR_MISSING_FIELD))"

definition i2c_handle_configure :: "command \<Rightarrow> (i2c_config, response) result" where
  "i2c_handle_configure cmd =
     bind_result (validate_i2c cmd) (\<lambda>_.
     bind_result
       (case c_freq_hz cmd of
          None \<Rightarrow> Err (response_error (c_id cmd) ERROR_MISSING_FIELD)
        | Some v \<Rightarrow>
            (if v = 100000 \<or> v = 400000 then Ok v
             else Err (response_error (c_id cmd) ERROR_VALUE_OUT_OF_RANGE)))
       (\<lambda>freq_hz.
     Ok \<lparr>ic_freq_hz = freq_hz, ic_configured = True\<rparr>))"

definition i2c_handle_read ::
  "heapless \<Rightarrow> command \<Rightarrow> bool \<Rightarrow> u8 list \<Rightarrow> response exec" where
  "i2c_handle_read hl cmd configured rx_data =
     try_r (check_configured cmd configured) (\<lambda>_.
     try_r (validate_i2c cmd) (\<lambda>_.
     try_r (validate_addr cmd) (\<lambda>_.
     try_r (require_positive cmd (c_len cmd)) (\<lambda>len.
     bytes_response hl (c_id cmd) rx_data len))))"

definition i2c_handle_write :: "heapless \<Rightarrow> command \<Rightarrow> bool \<Rightarrow> response exec" where
  "i2c_handle_write hl cmd configured =
     try_r (check_configured cmd configured) (\<lambda>_.
     try_r (validate_addr cmd) (\<lambda>_.
     try_exec (decode_bytes hl cmd (c_bytes cmd)) (\<lambda>_.
     Ret (response_ok (c_id cmd) None))))"

definition i2c_handle_write_read ::
  "heapless \<Rightarrow> command \<Rightarrow> bool \<Rightarrow> u8 list \<Rightarrow> response exec" where
  "i2c_handle_write_read hl cmd configured rx_data =
     try_r (check_configured cmd configured) (\<lambda>_.
     try_r (validate_i2c cmd) (\<lambda>_.
     try_r (validate_addr cmd) (\<lambda>_.
     try_exec (decode_bytes hl cmd (c_write_bytes cmd)) (\<lambda>_.
     try_r (require_positive cmd (c_read_len cmd)) (\<lambda>read_len.
     bytes_response hl (c_id cmd) rx_data read_len)))))"

section \<open>PWM (interfaces/pwm.rs)\<close>

definition MAX_PWM_CHANNEL :: u8 where
  "MAX_PWM_CHANNEL = 15"

definition validate_channel :: "command \<Rightarrow> (u8, response) result" where
  "validate_channel cmd = validate_index cmd (c_channel cmd) MAX_PWM_CHANNEL"

definition handle_set_duty :: "command \<Rightarrow> response" where
  "handle_set_duty cmd =
     (case validate_channel cmd of
        Err r \<Rightarrow> r
      | Ok _ \<Rightarrow>
          (case c_duty_u16 cmd of
             None \<Rightarrow> response_error (c_id cmd) ERROR_MISSING_FIELD
           | Some _ \<Rightarrow> response_ok (c_id cmd) None))"

definition handle_set_freq :: "command \<Rightarrow> response" where
  "handle_set_freq cmd =
     (case validate_channel cmd of
        Err r \<Rightarrow> r
      | Ok _ \<Rightarrow>
          (case c_freq_hz cmd of
             None \<Rightarrow> response_error (c_id cmd) ERROR_MISSING_FIELD
           | Some freq \<Rightarrow>
               (if freq = 0 then response_error (c_id cmd) ERROR_VALUE_OUT_OF_RANGE
                else response_ok (c_id cmd) None)))"

definition handle_enable :: "command \<Rightarrow> response" where
  "handle_enable cmd =
     (case validate_channel cmd of Err r \<Rightarrow> r | Ok _ \<Rightarrow> response_ok (c_id cmd) None)"

definition handle_disable :: "command \<Rightarrow> response" where
  "handle_disable cmd =
     (case validate_channel cmd of Err r \<Rightarrow> r | Ok _ \<Rightarrow> response_ok (c_id cmd) None)"

section \<open>ADC (interfaces/adc.rs)\<close>

definition ADC_VREF :: f32 where "ADC_VREF = f32_round (33 / 10)"
definition ADC_MAX :: f32 where "ADC_MAX = 4095"

definition raw_to_voltage :: "u16 \<Rightarrow> f32" where
  "raw_to_voltage raw = f32_mul (f32_div (of_nat (unat raw)) ADC_MAX) ADC_VREF"

definition raw_to_celsius :: "u16 \<Rightarrow> f32" where
  "raw_to_celsius raw =
     (let voltage = raw_to_voltage raw
      in f32_sub 27 (f32_div (f32_sub voltage (f32_round (706 / 1000)))
                             (f32_round (1721 / 1000000))))"

definition validate_read :: "command \<Rightarrow> (adc_channel, response) result" where
  "validate_read cmd =
     (case c_adc_channel cmd of
        None \<Rightarrow> Err (response_error (c_id cmd) ERROR_MISSING_FIELD)
      | Some ch \<Rightarrow> Ok ch)"

definition adc_handle_read_with_raw :: "command \<Rightarrow> u16 \<Rightarrow> response" where
  "adc_handle_read_with_raw cmd raw =
     (case validate_read cmd of
        Err r \<Rightarrow> r
      | Ok ch \<Rightarrow>
          (case ch of
             Temp \<Rightarrow> response_ok (c_id cmd) (Some (AdcTemp (raw_to_celsius raw)))
           | _ \<Rightarrow> response_ok (c_id cmd) (Some (AdcRead raw (raw_to_voltage raw)))))"

definition handle_invalid_channel :: "command \<Rightarrow> response" where
  "handle_invalid_channel cmd = response_error (c_id cmd) ERROR_VALUE_OUT_OF_RANGE"

section \<open>USB (interfaces/usb.rs)\<close>

definition usb_handle_write :: "heapless \<Rightarrow> command \<Rightarrow> bool \<Rightarrow> response exec" where
  "usb_handle_write hl cmd configured =
     try_r (check_configured cmd configured) (\<lambda>_.
     try_exec (decode_bytes hl cmd (c_bytes cmd)) (\<lambda>_.
     Ret (response_ok (c_id cmd) None)))"

definition usb_handle_read_with_data ::
  "heapless \<Rightarrow> command \<Rightarrow> bool \<Rightarrow> u8 list \<Rightarrow> response exec" where
  "usb_handle_read_with_data hl cmd configured rx_data =
     try_r (check_configured cmd configured) (\<lambda>_.
     try_r (require_positive cmd (c_len cmd)) (\<lambda>len.
     bytes_response hl (c_id cmd) rx_data len))"

section \<open>Lemmas on the helpers\<close>

named_theorems outcome \<open>the results of the validation helpers\<close>

lemma is_pin_available_iff: "is_pin_available p \<longleftrightarrow> p \<le> 22"
proof -
  have "p \<le> 29 \<and> p \<notin> {23, 24, 25, 26, 27, 28, 29} \<longleftrightarrow> unat p \<le> 22"
    by (auto simp: word_le_nat_alt word_unat_eq_iff)
  then show ?thesis
    by (simp add: is_pin_available_def RESERVED_PINS_def word_le_nat_alt)
qed

lemma validate_index_Ok [outcome]:
  "validate_index cmd field m = Ok i \<longleftrightarrow> field = Some i \<and> i \<le> m"
  by (auto simp: validate_index_def split: option.splits if_splits)

lemma validate_index_Err [outcome]:
  "validate_index cmd field m = Err r \<longleftrightarrow>
     field = None \<and> r = response_error (c_id cmd) ERROR_MISSING_FIELD \<or>
     (\<exists>i. field = Some i \<and> m < i \<and> r = response_error (c_id cmd) ERROR_VALUE_OUT_OF_RANGE)"
  by (auto simp: validate_index_def split: option.splits if_splits)

lemma check_configured_simps [simp]:
  "check_configured cmd True = Ok ()"
  "check_configured cmd False = Err (response_error (c_id cmd) ERROR_NOT_CONFIGURED)"
  by (simp_all add: check_configured_def)

lemma validate_pin_Ok [outcome]: "validate_pin cmd = Ok p \<longleftrightarrow> c_pin cmd = Some p \<and> p \<le> 22"
  by (auto simp: validate_pin_def is_pin_available_iff split: option.splits if_splits)

lemma validate_pin_Err [outcome]:
  "validate_pin cmd = Err r \<longleftrightarrow>
     c_pin cmd = None \<and> r = response_error (c_id cmd) ERROR_MISSING_FIELD \<or>
     (\<exists>p. c_pin cmd = Some p \<and> 22 < p \<and> r = response_error (c_id cmd) ERROR_INVALID_PIN)"
  by (auto simp: validate_pin_def is_pin_available_iff not_le split: option.splits if_splits)

lemma unat_le_1: "(i :: u8) \<le> 1 \<Longrightarrow> unat i < 2"
  by (simp add: word_le_nat_alt)

lemma try_r_eq_Ret:
  "try_r m k = Ret x \<longleftrightarrow> m = Err x \<or> (\<exists>v. m = Ok v \<and> k v = Ret x)"
  by (cases m) auto

lemma try_r_Panic: "try_r m k = Panic \<longleftrightarrow> (\<exists>v. m = Ok v \<and> k v = Panic)"
  by (cases m) auto

lemma try_exec_simps [simp]:
  "try_exec Panic k = Panic" "try_exec (Ret x) k = try_r x k"
  by (simp_all add: try_exec_def)

lemma try_exec_eq_Ret:
  "try_exec m k = Ret x \<longleftrightarrow> m = Ret (Err x) \<or> (\<exists>v. m = Ret (Ok v) \<and> k v = Ret x)"
  by (cases m) (auto simp: try_r_eq_Ret)

lemma try_exec_Panic:
  "try_exec m k = Panic \<longleftrightarrow> m = Panic \<or> (\<exists>v. m = Ret (Ok v) \<and> k v = Panic)"
  by (cases m) (auto simp: try_r_Panic)

section \<open>Payloads\<close>

text \<open>A payload text whose decoded length is within the 512 bytes of the buffer.\<close>

definition payload_fits :: "str option \<Rightarrow> bool" where
  "payload_fits field =
     (case field of
        None \<Rightarrow> True
      | Some s \<Rightarrow> 3 * length (strip_padding (as_bytes s)) div 4 \<le> MAX_PAYLOAD_LEN)"

lemma decode_bytes_missing [simp]:
  "decode_bytes hl cmd None = Ret (Err (response_error (c_id cmd) ERROR_MISSING_FIELD))"
  "decode_bytes hl cmd (Some []) = Ret (Err (response_error (c_id cmd) ERROR_MISSING_FIELD))"
  by (simp_all add: decode_bytes_def)

lemma decode_bytes_total:
  assumes "payload_fits field"
  shows "decode_bytes hl cmd field \<noteq> Panic"
proof (cases field)
  case (Some s)
  then obtain out' where
    "decode (as_bytes s) (replicate MAX_PAYLOAD_LEN 0) =
       Ret (case b64_bytes (strip_padding (as_bytes s)) of None \<Rightarrow> (Err (), out')
            | Some bs \<Rightarrow> (Ok (length bs), bs @ drop (length bs) (replicate MAX_PAYLOAD_LEN 0)))"
    using decode_total [of "as_bytes s" "replicate MAX_PAYLOAD_LEN 0"] assms
    by (auto simp: payload_fits_def)
  then show ?thesis
    using Some by (simp add: decode_bytes_def slice_def split: option.split prod.split result.split)
qed simp

lemma decode_bytes_eq:
  assumes "heapless_ok hl" "payload_fits (Some s)" "s \<noteq> []"
  shows "decode_bytes hl cmd (Some s) =
     Ret (case b64_bytes (strip_padding (as_bytes s)) of
            None \<Rightarrow> Err (response_error (c_id cmd) ERROR_INVALID_ENCODING)
          | Some bs \<Rightarrow> Ok bs)"
proof -
  let ?t = "strip_padding (as_bytes s)"
  obtain out' where d: "decode (as_bytes s) (replicate MAX_PAYLOAD_LEN 0) =
       Ret (case b64_bytes ?t of None \<Rightarrow> (Err (), out')
            | Some bs \<Rightarrow> (Ok (length bs), bs @ drop (length bs) (replicate MAX_PAYLOAD_LEN 0)))"
    using decode_total [of "as_bytes s" "replicate MAX_PAYLOAD_LEN 0"] assms(2)
    by (auto simp: payload_fits_def)
  show ?thesis
  proof (cases "b64_bytes ?t")
    case (Some bs)
    have "length bs \<le> MAX_PAYLOAD_LEN"
      using length_b64_bytes [OF Some] assms(2) by (simp add: payload_fits_def)
    then show ?thesis
      using d Some assms(3) appends_fits [OF heapless_okD(2) [OF assms(1)], of "[]" bs]
      by (simp add: decode_bytes_def slice_Ret)
  qed (use d assms(3) in \<open>simp add: decode_bytes_def\<close>)
qed

lemma decode_bytes_overrun:
  assumes "b64_bytes (strip_padding (as_bytes s)) = Some bs" "MAX_PAYLOAD_LEN < length bs"
  shows "decode_bytes hl cmd (Some s) = Panic"
proof -
  have "s \<noteq> []"
    using assms by (auto simp: strip_padding_def limit_defs)
  moreover have "decode (as_bytes s) (replicate MAX_PAYLOAD_LEN 0) = Panic"
    using decode_overrun [OF assms(1), of "replicate MAX_PAYLOAD_LEN 0"] assms(2) by simp
  ultimately show ?thesis
    by (simp add: decode_bytes_def)
qed

lemma unit_result_Err: "m \<noteq> Ok () \<Longrightarrow> m = Err ()"
  by (cases m) auto

lemma decode_bytes_Err:
  "decode_bytes hl cmd field = Ret (Err r) \<Longrightarrow>
     r = response_error (c_id cmd) ERROR_MISSING_FIELD \<or>
     r = response_error (c_id cmd) ERROR_INVALID_ENCODING"
  by (auto simp: decode_bytes_def bind_exec_eq_Ret case_prod_beta dest: unit_result_Err
      split: option.splits if_splits result.splits)

lemma bytes_response_eq:
  assumes "heapless_ok hl"
  shows "bytes_response hl i dat n =
     Ret (response_ok i (Some (Bytes (take (min n MAX_PAYLOAD_LEN) dat))))"
proof -
  let ?k = "min (min n (length dat)) MAX_PAYLOAD_LEN"
  have "take ?k dat = take (min n MAX_PAYLOAD_LEN) dat"
    by (auto simp: min_def)
  then show ?thesis
    using appends_fits [OF heapless_okD(2) [OF assms], of "[]" "take ?k dat" MAX_PAYLOAD_LEN]
    by (simp add: bytes_response_def slice_Ret Let_def)
qed

section \<open>The contracts of the handlers\<close>

text \<open>
  What the router relies on when it writes to an indexed peripheral: the index a command passes
  is one of the two units, a refused index is an error response, and the handler refuses an
  unconfigured unit, answers with the command's identifier and panics on oversized payloads only.
\<close>

locale write_handler =
  fixes validate :: "command \<Rightarrow> (u8, response) result"
    and handler :: "command \<Rightarrow> bool \<Rightarrow> response exec"
  assumes index_range: "validate cmd = Ok i \<Longrightarrow> unat i < 2"
    and index_error: "validate cmd = Err r \<Longrightarrow> wf_response (c_id cmd) r \<and> \<not> r_ok r"
    and unconfigured: "handler cmd False = Ret (response_error (c_id cmd) ERROR_NOT_CONFIGURED)"
    and answer: "handler cmd b = Ret r \<Longrightarrow> wf_response (c_id cmd) r \<and> r_data r = None"
    and safe: "payload_fits (c_bytes cmd) \<Longrightarrow> handler cmd b \<noteq> Panic"

text \<open>
  What it relies on when it configures one: an accepted command names one of the two units and
  gives a valid configuration marked as such, a refused one an error response.
\<close>

locale configure_handler =
  fixes configure :: "command \<Rightarrow> ('c, response) result"
    and field :: "command \<Rightarrow> u8 option"
    and good :: "'c \<Rightarrow> bool"
  assumes accepted: "configure cmd = Ok cfg \<Longrightarrow> good cfg \<and> (\<exists>i. field cmd = Some i \<and> unat i < 2)"
    and refused: "configure cmd = Err r \<Longrightarrow> wf_response (c_id cmd) r \<and> \<not> r_ok r"

definition uart_valid :: "uart_config \<Rightarrow> bool" where
  "uart_valid c \<longleftrightarrow>
     0 < uc_baud c \<and> (uc_data_bits c = 7 \<or> uc_data_bits c = 8) \<and>
     (uc_stop_bits c = 1 \<or> uc_stop_bits c = 2)"

definition spi_valid :: "spi_config \<Rightarrow> bool" where
  "spi_valid c \<longleftrightarrow> 0 < sc_freq_hz c \<and> sc_cpol c \<le> 1 \<and> sc_cpha c \<le> 1"

definition i2c_valid :: "i2c_config \<Rightarrow> bool" where
  "i2c_valid c \<longleftrightarrow> ic_freq_hz c = 100000 \<or> ic_freq_hz c = 400000"

lemmas validate_defs = validate_uart_def validate_spi_def validate_i2c_def validate_channel_def

lemmas write_defs = uart_handle_write_def spi_handle_write_def i2c_handle_write_def usb_handle_write_def

lemma validate_addr_Err [outcome]:
  "validate_addr cmd = Err r \<longleftrightarrow>
     c_addr cmd = None \<and> r = response_error (c_id cmd) ERROR_MISSING_FIELD"
  by (auto simp: validate_addr_def split: option.splits)

lemma check_configured_Err [outcome]:
  "check_configured cmd b = Err r \<longleftrightarrow>
     \<not> b \<and> r = response_error (c_id cmd) ERROR_NOT_CONFIGURED"
  by (auto simp: check_configured_def)

interpretation uart_write: write_handler validate_uart "uart_handle_write hl" for hl
  by unfold_locales
    (auto simp: write_defs validate_defs outcome try_r_eq_Ret try_r_Panic try_exec_eq_Ret
      try_exec_Panic decode_bytes_total unat_le_1 dest!: decode_bytes_Err)

interpretation spi_write: write_handler validate_spi "spi_handle_write hl" for hl
  by unfold_locales
    (auto simp: write_defs validate_defs outcome try_r_eq_Ret try_r_Panic try_exec_eq_Ret
      try_exec_Panic decode_bytes_total unat_le_1 dest!: decode_bytes_Err)

interpretation i2c_write: write_handler validate_i2c "i2c_handle_write hl" for hl
  by unfold_locales
    (auto simp: write_defs validate_defs outcome try_r_eq_Ret try_r_Panic try_exec_eq_Ret
      try_exec_Panic decode_bytes_total unat_le_1 dest!: decode_bytes_Err)

text \<open>A field that is checked when present and has a default, and one that is required.\<close>

lemma default_check:
  "(case x of None \<Rightarrow> Ok d | Some y \<Rightarrow> if P y then Ok y else Err e) = Ok v \<longleftrightarrow>
     v = unwrap_or d x \<and> (x \<noteq> None \<longrightarrow> P v)"
  by (cases x) auto

lemma required_check:
  "(case x of None \<Rightarrow> Err d | Some y \<Rightarrow> if P y then Ok y else Err e) = Ok v \<longleftrightarrow> x = Some v \<and> P v"
  by (cases x) auto

fun parity_text :: "uart_parity \<Rightarrow> str" where
  "parity_text ParityNone = ''none''"
| "parity_text ParityOdd = ''odd''"
| "parity_text ParityEven = ''even''"

lemma parity_check:
  "(case x of None \<Rightarrow> Ok ParityNone
     | Some p \<Rightarrow> if p = ''none'' then Ok ParityNone else if p = ''odd'' then Ok ParityOdd
                 else if p = ''even'' then Ok ParityEven else Err e) = Ok v \<longleftrightarrow>
     parity_text v = unwrap_or ''none'' x"
  by (cases x; cases v) auto

lemma uart_config_eq:
  "\<lparr>uc_baud = b, uc_data_bits = d, uc_parity = p, uc_stop_bits = s, uc_configured = True\<rparr> = cfg \<longleftrightarrow>
     b = uc_baud cfg \<and> d = uc_data_bits cfg \<and> p = uc_parity cfg \<and> s = uc_stop_bits cfg \<and>
     uc_configured cfg"
  by (cases cfg) auto

lemma uart_handle_configure_Ok:
  "uart_handle_configure cmd = Ok cfg \<longleftrightarrow>
     (\<exists>i. c_uart cmd = Some i \<and> i \<le> 1) \<and>
     c_baud cmd = Some (uc_baud cfg) \<and> 0 < uc_baud cfg \<and>
     unwrap_or 8 (c_data_bits cmd) = uc_data_bits cfg \<and> uc_data_bits cfg \<in> {7, 8} \<and>
     unwrap_or ''none'' (c_parity cmd) = parity_text (uc_parity cfg) \<and>
     unwrap_or 1 (c_stop_bits cmd) = uc_stop_bits cfg \<and> uc_stop_bits cfg \<in> {1, 2} \<and>
     uc_configured cfg"
  unfolding uart_handle_configure_def bind_result_eq_Ok default_check required_check parity_check
    validate_defs validate_index_Ok result.inject uart_config_eq
  by (cases "c_data_bits cmd"; cases "c_stop_bits cmd") (simp; fastforce)+

text \<open>Every error of a validation is an error response to the command.\<close>

definition refuses :: "command \<Rightarrow> ('a, response) result \<Rightarrow> bool" where
  "refuses cmd m = (case m of Ok _ \<Rightarrow> True | Err r \<Rightarrow> wf_response (c_id cmd) r \<and> \<not> r_ok r)"

lemma refuses_simps [simp]:
  "refuses cmd (Ok x)" "refuses cmd (Err (response_error (c_id cmd) e))"
  by (simp_all add: refuses_def)

lemma refuses_bind: "refuses cmd m \<Longrightarrow> (\<And>x. m = Ok x \<Longrightarrow> refuses cmd (f x)) \<Longrightarrow> refuses cmd (bind_result m f)"
  by (cases m) (simp_all add: refuses_def)

lemma refusesD: "refuses cmd m \<Longrightarrow> m = Err r \<Longrightarrow> wf_response (c_id cmd) r \<and> \<not> r_ok r"
  by (simp add: refuses_def)

lemma refuses_validate_index: "refuses cmd (validate_index cmd field m)"
  by (simp add: validate_index_def split: option.split)

lemma refuses_configure:
  "refuses cmd (uart_handle_configure cmd)"
  "refuses cmd (spi_handle_configure cmd)"
  "refuses cmd (i2c_handle_configure cmd)"
  unfolding uart_handle_configure_def spi_handle_configure_def i2c_handle_configure_def validate_defs
  by (intro refuses_bind refuses_validate_index refuses_simps; simp split: option.split)+

interpretation uart_conf: configure_handler uart_handle_configure c_uart
    "\<lambda>c. uart_valid c \<and> uc_configured c"
proof unfold_locales
  show "(uart_valid cfg \<and> uc_configured cfg) \<and> (\<exists>i. c_uart cmd = Some i \<and> unat i < 2)"
    if "uart_handle_configure cmd = Ok cfg" for cmd cfg
    using that by (auto simp: uart_handle_configure_Ok uart_valid_def unat_le_1)
qed (rule refusesD [OF refuses_configure(1)])

lemma spi_handle_configure_Ok:
  "spi_handle_configure cmd = Ok cfg \<longleftrightarrow>
     (\<exists>i. c_spi cmd = Some i \<and> i \<le> 1) \<and>
     (\<exists>f. c_freq_hz cmd = Some f \<and> 0 < f \<and>
       unwrap_or 0 (c_cpol cmd) \<le> 1 \<and> unwrap_or 0 (c_cpha cmd) \<le> 1 \<and>
       cfg = \<lparr>sc_freq_hz = f, sc_cpol = unwrap_or 0 (c_cpol cmd),
              sc_cpha = unwrap_or 0 (c_cpha cmd), sc_configured = True\<rparr>)"
  by (cases "c_cpol cmd"; cases "c_cpha cmd")
    (auto simp: spi_handle_configure_def bind_result_eq_Ok validate_defs outcome
      split: option.splits if_splits)

lemma i2c_handle_configure_Ok:
  "i2c_handle_configure cmd = Ok cfg \<longleftrightarrow>
     (\<exists>i. c_i2c cmd = Some i \<and> i \<le> 1) \<and>
     (\<exists>f. c_freq_hz cmd = Some f \<and> (f = 100000 \<or> f = 400000) \<and>
       cfg = \<lparr>ic_freq_hz = f, ic_configured = True\<rparr>)"
  by (auto simp: i2c_handle_configure_def bind_result_eq_Ok validate_defs outcome
      split: option.splits if_splits)

interpretation spi_conf: configure_handler spi_handle_configure c_spi
    "\<lambda>c. spi_valid c \<and> sc_configured c"
  by unfold_locales
    (auto simp: spi_handle_configure_Ok spi_valid_def unat_le_1 dest: refusesD [OF refuses_configure(2)])

interpretation i2c_conf: configure_handler i2c_handle_configure c_i2c
    "\<lambda>c. i2c_valid c \<and> ic_configured c"
  by unfold_locales
    (auto simp: i2c_handle_configure_Ok i2c_valid_def unat_le_1 dest: refusesD [OF refuses_configure(3)])

section \<open>Properties of the handlers\<close>

lemma float_constants:
  "f32_round (33 / 10) = 13841203 / 4194304"
  "f32_round (706 / 1000) = 5922357 / 8388608"
  "f32_round (1721 / 1000000) = 14783277 / 8589934592"
  by code_simp+

lemma raw_to_voltage_error:
  "\<bar>raw_to_voltage raw - of_nat (unat raw) * 33 / 10 / 4095\<bar> \<le> of_nat (unat raw) * 33 / 10 / 4095 / 2 ^ 22"
proof -
  define r :: rat where "r = of_nat (unat raw)"
  define q where "q = f32_round (r / 4095)"
  define Y where "Y = r / 4095 * 33 / 10"
  have r: "0 \<le> r"
    unfolding r_def by (rule of_nat_0_le_iff)
  have q: "\<bar>q - r / 4095\<bar> \<le> r / 4095 / 2 ^ 24"
    using f32_round_error [of "r / 4095"] r by (simp add: q_def)
  have "\<bar>q * (13841203 / 4194304) - r / 4095 * 33 / 10\<bar> \<le> r / 4095 * 33 / 10 * (5 / 2 ^ 25)"
    using q r unfolding pow2 by linarith
  then have "\<bar>f32_mul q ADC_VREF - Y\<bar> \<le> Y * (5 / 2 ^ 25) + (Y + Y * (5 / 2 ^ 25)) / 2 ^ 24"
    unfolding f32_mul_def ADC_VREF_def float_constants Y_def
    by (rule f32_round_near) (use r in simp)
  also have "\<dots> = Y * (5 / 2 ^ 25 + (1 + 5 / 2 ^ 25) / 2 ^ 24)"
    by (simp add: algebra_simps)
  also have "\<dots> \<le> Y * (1 / 2 ^ 22)"
    by (rule mult_left_mono) (use r in \<open>simp_all add: Y_def\<close>)
  finally show ?thesis
    unfolding raw_to_voltage_def f32_div_def ADC_MAX_def q_def r_def Y_def by simp
qed

text \<open>C38: The temperature computed in single precision from a 12-bit reading is within 0.002 degrees
  of the exact value of the datasheet formula.\<close>

theorem raw_to_celsius_error:
  assumes "raw \<le> 4095"
  shows "\<bar>raw_to_celsius raw - (27 - (of_nat (unat raw) * 33 / 10 / 4095 - 706 / 1000) / (1721 / 1000000))\<bar> \<le> 1 / 500"
proof -
  define V where "V = (of_nat (unat raw) :: rat) * 33 / 10 / 4095"
  define v where "v = raw_to_voltage raw"
  have "unat raw \<le> 4095"
    using assms by (simp add: word_le_nat_alt)
  then have "(of_nat (unat raw) :: rat) \<le> 4095"
    by (metis of_nat_le_iff of_nat_numeral)
  moreover have "(0 :: rat) \<le> of_nat (unat raw)"
    by (rule of_nat_0_le_iff)
  ultimately have V: "0 \<le> V" "V \<le> 33 / 10"
    unfolding V_def by linarith+
  have "\<bar>v - V\<bar> \<le> V / 2 ^ 22"
    unfolding v_def V_def by (rule raw_to_voltage_error)
  then have v: "\<bar>v - V\<bar> \<le> 33 / 10 / 2 ^ 22"
    using V unfolding pow2 by linarith
  define s where "s = f32_sub v (5922357 / 8388608)"
  have "\<bar>v - 5922357 / 8388608\<bar> \<le> 3"
    using v V unfolding pow2 by linarith
  then have s: "\<bar>s - (v - 5922357 / 8388608)\<bar> \<le> 3 / 2 ^ 24"
    unfolding s_def f32_sub_def by (rule f32_round_bound)
  define q where "q = f32_div s (14783277 / 8589934592)"
  have "\<bar>s * (8589934592 / 14783277)\<bar> \<le> 2000"
    using s v V unfolding pow2 by linarith
  note sb = this
  have "f32_div s (14783277 / 8589934592) = f32_round (s * (8589934592 / 14783277))"
    by (simp add: f32_div_def)
  then have q: "\<bar>q - s * (8589934592 / 14783277)\<bar> \<le> 2000 / 2 ^ 24"
    using f32_round_bound [OF sb] by (simp only: q_def)
  then have "\<bar>27 - q\<bar> \<le> 2030"
    using sb unfolding pow2 by linarith
  then have f: "\<bar>f32_sub 27 q - (27 - q)\<bar> \<le> 2030 / 2 ^ 24"
    unfolding f32_sub_def by (rule f32_round_bound)
  have "raw_to_celsius raw = f32_sub 27 q"
    by (simp only: raw_to_celsius_def float_constants q_def s_def v_def Let_def)
  moreover have "(V - 706 / 1000) / (1721 / 1000000) = V * (1000000 / 1721) - 706000 / 1721"
    by (simp add: field_simps)
  ultimately show ?thesis
    using f q s v V unfolding V_def [symmetric] pow2 by linarith
qed

theorem raw_to_celsius_error_witness:
  "\<bar>raw_to_celsius 876 - (27 - (of_nat (unat (876 :: u16)) * 33 / 10 / 4095 - 706 / 1000)
      / (1721 / 1000000))\<bar> \<le> 1 / 500"
  by (rule raw_to_celsius_error) simp


definition blank_command :: "str \<Rightarrow> command" where
  "blank_command rid =
     to_command \<lparr>c_version = Some 1, c_id = rid, c_interface = None, c_action = None,
       c_pin = None, c_value = None, c_mode = None, c_pull = None, c_uart = None, c_bytes = None,
       c_len = None, c_baud = None, c_data_bits = None, c_parity = None, c_stop_bits = None,
       c_spi = None, c_freq_hz = None, c_cpol = None, c_cpha = None, c_i2c = None, c_addr = None,
       c_write_bytes = None, c_read_len = None, c_channel = None, c_duty_u16 = None,
       c_adc_channel = None, c_interval_ms = None, c_trigger = None\<rparr>"


text \<open>A payload field is decoded to exactly the bytes its base64 text stands for, with
  \<open>missing_field\<close> when it is absent or empty and \<open>invalid_encoding\<close> when the text is invalid, as
  long as it decodes to at most 512 bytes; the text of a longer payload makes the handler panic,
  although a frame has room for it.\<close>

theorem decode_bytes_outcome:
  assumes "heapless_ok hl"
  shows "(payload_fits field \<longrightarrow>
     decode_bytes hl cmd field =
       Ret (case field of
              None \<Rightarrow> Err (response_error (c_id cmd) ERROR_MISSING_FIELD)
            | Some s \<Rightarrow>
                (if s = [] then Err (response_error (c_id cmd) ERROR_MISSING_FIELD)
                 else case b64_bytes (strip_padding (as_bytes s)) of
                        None \<Rightarrow> Err (response_error (c_id cmd) ERROR_INVALID_ENCODING)
                      | Some bs \<Rightarrow> Ok bs))) \<and>
     (\<forall>s bs. field = Some s \<and> b64_bytes (strip_padding (as_bytes s)) = Some bs \<and>
        MAX_PAYLOAD_LEN < length bs \<longrightarrow> decode_bytes hl cmd field = Panic)"
  using decode_bytes_eq [OF assms] decode_bytes_overrun
  by (auto split: option.split)

lemma sextet_Q: "sextet (byte (CHR ''Q'')) = Some 16"
  by code_simp

theorem decode_bytes_outcome_witness:
  "decode_bytes heapless_lists (blank_command ''1'') (Some ''QQ=='') = Ret (Ok [0x41])"
proof -
  have "strip_padding (as_bytes ''QQ=='') = as_bytes ''QQ''"
    by (simp add: strip_padding_def)
  moreover have "b64_bytes (as_bytes ''QQ'') = Some [0x41]"
    using sextet_Q by (simp add: quad_value_def octets3_def)
  ultimately show ?thesis
    using decode_bytes_outcome [OF heapless_lists_ok, of "Some ''QQ==''" "blank_command ''1''"]
    by (simp add: payload_fits_def limit_defs)
qed

text \<open>A payload a client encodes arrives as it was.\<close>

lemma decode_bytes_encoded:
  assumes "heapless_ok hl" "length bs \<le> MAX_PAYLOAD_LEN" "bs \<noteq> []"
  shows "decode_bytes hl cmd (Some (of_bytes (b64_text bs))) = Ret (Ok bs)"
proof -
  have "of_bytes (b64_text bs) \<noteq> []"
    using assms(3) by (cases bs rule: b64_text.cases) (simp_all add: Let_def)
  moreover have "payload_fits (Some (of_bytes (b64_text bs)))"
    using length_b64_bytes [OF b64_bytes_text [of bs]] assms(2) by (simp add: payload_fits_def)
  ultimately show ?thesis
    using decode_bytes_eq [OF assms(1)] b64_bytes_text [of bs] by simp
qed

text \<open>A full-duplex SPI transfer on a configured unit: the payload the client encoded is
  decoded whole, and the answer carries as many of the slave's bytes as were sent, at most 512,
  with the identifier of the command.\<close>

theorem spi_transfer_result:
  assumes "heapless_ok hl" "c_spi cmd = Some i" "i \<le> 1"
    and "c_bytes cmd = Some (of_bytes (b64_text mosi))" "mosi \<noteq> []" "length mosi \<le> MAX_PAYLOAD_LEN"
  shows "spi_handle_transfer hl cmd True miso =
     Ret (response_ok (c_id cmd) (Some (Bytes (take (length mosi) miso))))"
proof -
  have "validate_spi cmd = Ok i"
    using assms(2,3) by (simp add: validate_defs outcome)
  then show ?thesis
    using decode_bytes_encoded [OF assms(1,6,5)] assms(4,6)
    by (simp add: spi_handle_transfer_def bytes_response_eq [OF assms(1)] min_def)
qed

theorem spi_transfer_result_witness:
  "spi_handle_transfer heapless_lists
     (blank_command ''9''\<lparr>c_spi := Some 1, c_bytes := Some (of_bytes (b64_text [1, 2]))\<rparr>)
     True [7, 8, 9] = Ret (response_ok ''9'' (Some (Bytes [7, 8])))"
  using spi_transfer_result [OF heapless_lists_ok,
      of "blank_command ''9''\<lparr>c_spi := Some 1, c_bytes := Some (of_bytes (b64_text [1, 2]))\<rparr>"
         1 "[1, 2]" "[7, 8, 9]"]
  by (simp add: blank_command_def to_command_def limit_defs)

end
