(* ===== verification/Router.thy ===== *)
theory Router
  imports Interfaces
begin

text \<open>
  \<open>src/router.rs\<close>: the state of a session, the routing table, \<open>dispatch\<close> with its two macros,
  the batch dispatcher and the subscription helpers. The state is passed and returned; a branch
  that can index out of range, reach \<open>unreachable!()\<close> or panic in the base64 decoder makes
  \<open>dispatch\<close> a function to \<open>exec\<close>.
\<close>

section \<open>Session state\<close>

text \<open>The MQTT host and port are there exactly when the feature \<open>transport-mqtt\<close> is on.\<close>

record device_state =
  ds_uart :: "uart_config list"
  ds_spi :: "spi_config list"
  ds_i2c :: "i2c_config list"
  ds_usb_configured :: bool
  ds_config_ssid :: str
  ds_config_ip :: str
  ds_config_connected :: bool
  ds_config_mqtt :: "(str \<times> u16) option"
  ds_pending_reboot :: bool
  ds_subscriptions :: "subscription list"

definition device_state_default :: "bool \<Rightarrow> device_state" where
  "device_state_default mqtt =
     \<lparr>ds_uart = [uart_config_default, uart_config_default],
      ds_spi = [spi_config_default, spi_config_default],
      ds_i2c = [i2c_config_default, i2c_config_default],
      ds_usb_configured = False,
      ds_config_ssid = [], ds_config_ip = [], ds_config_connected = False,
      ds_config_mqtt = (if mqtt then Some ([], 1883) else None),
      ds_pending_reboot = False,
      ds_subscriptions = []\<rparr>"

section \<open>Routing\<close>

definition VALID_ROUTES :: "(str \<times> str list) list" where
  "VALID_ROUTES =
     [(''gpio'', [''read'', ''write'', ''set_mode'', ''subscribe'', ''unsubscribe'']),
      (''uart'', [''read'', ''write'', ''configure'']),
      (''spi'', [''transfer'', ''write'', ''configure'']),
      (''i2c'', [''read'', ''write'', ''write_read'', ''configure'']),
      (''pwm'', [''set_duty'', ''set_freq'', ''enable'', ''disable'']),
      (''adc'', [''read'', ''subscribe'', ''unsubscribe'']),
      (''usb'', [''read'', ''write'']),
      (''config'', [''get'']),
      (''system'', [''get_version'', ''reboot_to_bootloader'']),
      (''batch'', [''run''])]"

definition validate_route :: "command \<Rightarrow> (str \<times> str, response) result" where
  "validate_route cmd =
     (case c_interface cmd of
        None \<Rightarrow> Err (response_error (c_id cmd) ERROR_UNKNOWN_INTERFACE)
      | Some iface \<Rightarrow>
          (case c_action cmd of
             None \<Rightarrow> Err (response_error (c_id cmd) ERROR_UNKNOWN_ACTION)
           | Some act \<Rightarrow>
               bind_result
                 (ok_or (response_error (c_id cmd) ERROR_UNKNOWN_INTERFACE)
                   (map_option snd (find (\<lambda>(i, _). i = iface) VALID_ROUTES)))
                 (\<lambda>acts.
                    if act \<notin> set acts then Err (response_error (c_id cmd) ERROR_UNKNOWN_ACTION)
                    else Ok (iface, act))))"

section \<open>Subscriptions\<close>

definition handle_subscribe ::
  "heapless \<Rightarrow> str \<Rightarrow> subscription_target \<Rightarrow> device_state \<Rightarrow> response \<times> device_state" where
  "handle_subscribe hl rid target st =
     (if list_ex (\<lambda>s. same_target s target) (ds_subscriptions st) then
        (response_error rid ERROR_ALREADY_SUBSCRIBED, st)
      else if length (ds_subscriptions st) \<ge> MAX_SUBSCRIPTIONS then
        (response_error rid ERROR_SUBSCRIPTION_LIMIT, st)
      else
        (let (sub_id, _) = hl_push_str hl 32 [] rid;
             sub = \<lparr>s_id = sub_id, s_target = target\<rparr>;
             (subs, _) = hl_push_subscription hl MAX_SUBSCRIPTIONS (ds_subscriptions st) sub
         in (response_ok rid None, st\<lparr>ds_subscriptions := subs\<rparr>)))"

definition handle_unsubscribe_adc ::
  "heapless \<Rightarrow> str \<Rightarrow> adc_channel \<Rightarrow> device_state \<Rightarrow> response \<times> device_state" where
  "handle_unsubscribe_adc hl rid ch st =
     (let before = length (ds_subscriptions st);
          subs = hl_retain_subscription hl
            (\<lambda>s. case s_target s of Adc c _ \<Rightarrow> c \<noteq> ch | _ \<Rightarrow> True) (ds_subscriptions st);
          st' = st\<lparr>ds_subscriptions := subs\<rparr>
      in if length subs = before then (response_error rid ERROR_NOT_SUBSCRIBED, st')
         else (response_ok rid None, st'))"

definition handle_unsubscribe_gpio ::
  "heapless \<Rightarrow> str \<Rightarrow> u8 \<Rightarrow> device_state \<Rightarrow> response \<times> device_state" where
  "handle_unsubscribe_gpio hl rid p st =
     (let before = length (ds_subscriptions st);
          subs = hl_retain_subscription hl
            (\<lambda>s. case s_target s of GpioLevel q _ \<Rightarrow> q \<noteq> p | GpioEdge q _ \<Rightarrow> q \<noteq> p | Adc _ _ \<Rightarrow> True)
            (ds_subscriptions st);
          st' = st\<lparr>ds_subscriptions := subs\<rparr>
      in if length subs = before then (response_error rid ERROR_NOT_SUBSCRIBED, st')
         else (response_ok rid None, st'))"

section \<open>Dispatch\<close>

text \<open>The macro \<open>configure!\<close>: the response and the array of configurations.\<close>

definition configure_macro ::
  "(command \<Rightarrow> ('c, response) result) \<Rightarrow> u8 option \<Rightarrow> 'c list \<Rightarrow> command \<Rightarrow>
   (response \<times> 'c list) exec" where
  "configure_macro handler field arr cmd =
     (case handler cmd of
        Ok cfg \<Rightarrow>
          bind_exec (put_at arr (unat (unwrap_or 0 field)) cfg) (\<lambda>arr'.
            Ret (response_ok (c_id cmd) None, arr'))
      | Err r \<Rightarrow> Ret (r, arr))"

text \<open>The macro \<open>peripheral_write!\<close>.\<close>

definition peripheral_write ::
  "(command \<Rightarrow> (u8, response) result) \<Rightarrow> ('c \<Rightarrow> bool) \<Rightarrow> 'c list \<Rightarrow>
   (command \<Rightarrow> bool \<Rightarrow> response exec) \<Rightarrow> command \<Rightarrow> response exec" where
  "peripheral_write validate configured arr handler cmd =
     (case validate cmd of
        Err r \<Rightarrow> Ret r
      | Ok i \<Rightarrow> bind_exec (get_at arr (unat i)) (\<lambda>cfg. handler cmd (configured cfg)))"

text \<open>A result paired with the unchanged state.\<close>

definition keep :: "device_state \<Rightarrow> response exec \<Rightarrow> (response \<times> device_state) exec" where
  "keep st m = bind_exec m (\<lambda>r. Ret (r, st))"

definition CARGO_PKG_VERSION :: str where
  "CARGO_PKG_VERSION = ''0.1.0''"

definition dispatch ::
  "heapless \<Rightarrow> command \<Rightarrow> str \<times> str \<Rightarrow> device_state \<Rightarrow> (response \<times> device_state) exec" where
  "dispatch hl cmd route st =
     (let not_configured = Ret (response_error (c_id cmd) ERROR_NOT_CONFIGURED, st);
          missing = Ret (response_error (c_id cmd) ERROR_MISSING_FIELD, st)
      in
      if route = (''gpio'', ''set_mode'') then Ret (gpio_handle_set_mode cmd, st)
      else if route = (''gpio'', ''read'') \<or> route = (''gpio'', ''write'') then not_configured
      else if route = (''gpio'', ''subscribe'') then
        (case c_pin cmd of
           None \<Rightarrow> missing
         | Some p \<Rightarrow>
             (case c_trigger cmd of
                Some trigger_str \<Rightarrow>
                  (case edge_trigger_parse trigger_str of
                     None \<Rightarrow> missing
                   | Some t \<Rightarrow> Ret (handle_subscribe hl (c_id cmd) (GpioEdge p t) st))
              | None \<Rightarrow>
                  Ret (handle_subscribe hl (c_id cmd)
                         (GpioLevel p (unwrap_or 100 (c_interval_ms cmd))) st)))
      else if route = (''gpio'', ''unsubscribe'') then
        (case c_pin cmd of
           None \<Rightarrow> missing
         | Some p \<Rightarrow> Ret (handle_unsubscribe_gpio hl (c_id cmd) p st))
      else if route = (''adc'', ''read'') then
        (case validate_read cmd of Ok _ \<Rightarrow> not_configured | Err r \<Rightarrow> Ret (r, st))
      else if route = (''adc'', ''subscribe'') then
        (case c_adc_channel cmd of
           None \<Rightarrow> missing
         | Some ch \<Rightarrow>
             Ret (handle_subscribe hl (c_id cmd)
                    (Adc ch (unwrap_or 100 (c_interval_ms cmd))) st))
      else if route = (''adc'', ''unsubscribe'') then
        (case c_adc_channel cmd of
           None \<Rightarrow> missing
         | Some ch \<Rightarrow> Ret (handle_unsubscribe_adc hl (c_id cmd) ch st))
      else if route = (''uart'', ''configure'') then
        bind_exec (configure_macro uart_handle_configure (c_uart cmd) (ds_uart st) cmd)
          (\<lambda>(r, arr). Ret (r, st\<lparr>ds_uart := arr\<rparr>))
      else if route = (''uart'', ''write'') then
        keep st (peripheral_write validate_uart uc_configured (ds_uart st) (uart_handle_write hl) cmd)
      else if route = (''uart'', ''read'') then not_configured
      else if route = (''spi'', ''configure'') then
        bind_exec (configure_macro spi_handle_configure (c_spi cmd) (ds_spi st) cmd)
          (\<lambda>(r, arr). Ret (r, st\<lparr>ds_spi := arr\<rparr>))
      else if route = (''spi'', ''write'') then
        keep st (peripheral_write validate_spi sc_configured (ds_spi st) (spi_handle_write hl) cmd)
      else if route = (''spi'', ''transfer'') then not_configured
      else if route = (''i2c'', ''configure'') then
        bind_exec (configure_macro i2c_handle_configure (c_i2c cmd) (ds_i2c st) cmd)
          (\<lambda>(r, arr). Ret (r, st\<lparr>ds_i2c := arr\<rparr>))
      else if route = (''i2c'', ''write'') then
        keep st (peripheral_write validate_i2c ic_configured (ds_i2c st) (i2c_handle_write hl) cmd)
      else if route = (''i2c'', ''read'') \<or> route = (''i2c'', ''write_read'') then not_configured
      else if route = (''pwm'', ''set_duty'') then Ret (handle_set_duty cmd, st)
      else if route = (''pwm'', ''set_freq'') then Ret (handle_set_freq cmd, st)
      else if route = (''pwm'', ''enable'') then Ret (handle_enable cmd, st)
      else if route = (''pwm'', ''disable'') then Ret (handle_disable cmd, st)
      else if route = (''usb'', ''write'') then
        keep st (usb_handle_write hl cmd (ds_usb_configured st))
      else if route = (''usb'', ''read'') then not_configured
      else if route = (''config'', ''get'') then
        Ret (response_ok (c_id cmd)
               (Some (Config (ds_config_ssid st) (ds_config_ip st) (ds_config_connected st)
                             (ds_config_mqtt st))), st)
      else if route = (''system'', ''get_version'') then
        Ret (response_ok (c_id cmd)
               (Some (Version (fst (hl_write_str hl 16 [] CARGO_PKG_VERSION)))), st)
      else if route = (''system'', ''reboot_to_bootloader'') then
        Ret (response_ok (c_id cmd) None, st\<lparr>ds_pending_reboot := True\<rparr>)
      else if route = (''batch'', ''run'') then
        Ret (response_error (c_id cmd) ERROR_UNKNOWN_INTERFACE, st)
      else Panic)"

section \<open>Batches\<close>

fun dispatch_inner ::
  "heapless \<Rightarrow> command_inner list \<Rightarrow> response list \<Rightarrow> device_state \<Rightarrow>
   (response list \<times> device_state) exec" where
  "dispatch_inner hl [] responses st = Ret (responses, st)"
| "dispatch_inner hl (inner # rest) responses st =
     bind_exec
       (let full_cmd = to_command inner
        in case validate_route full_cmd of
             Err r \<Rightarrow> Ret (r, st)
           | Ok route \<Rightarrow> dispatch hl full_cmd route st)
       (\<lambda>(resp, st').
          let (responses', _) = hl_push_response hl MAX_BATCH_SIZE responses resp
          in dispatch_inner hl rest responses' st')"

definition batch_refusal :: "command \<Rightarrow> str \<Rightarrow> batch_response" where
  "batch_refusal cmd e =
     \<lparr>b_id = c_id cmd, b_ok = False, b_responses = [], b_error = Some e\<rparr>"

definition dispatch_batch ::
  "heapless \<Rightarrow> command \<Rightarrow> device_state \<Rightarrow> (batch_response \<times> device_state) exec" where
  "dispatch_batch hl cmd st =
     (case c_commands cmd of
        None \<Rightarrow> Ret (batch_refusal cmd ERROR_BATCH_EMPTY, st)
      | Some inner_cmds \<Rightarrow>
          if inner_cmds = [] then Ret (batch_refusal cmd ERROR_BATCH_EMPTY, st)
          else if length inner_cmds > MAX_BATCH_SIZE then
            Ret (batch_refusal cmd ERROR_BATCH_TOO_LARGE, st)
          else
            bind_exec (dispatch_inner hl inner_cmds [] st) (\<lambda>(responses, st').
              Ret (\<lparr>b_id = c_id cmd, b_ok = True, b_responses = responses, b_error = None\<rparr>, st')))"

section \<open>The table and the branches of dispatch\<close>

definition valid_routes :: "(str \<times> str) list" where
  "valid_routes = concat (map (\<lambda>(i, acts). map (Pair i) acts) VALID_ROUTES)"

lemma find_is_map_of: "map_option snd (find (\<lambda>(i, _). i = k) xs) = map_of xs k"
  by (induction xs) auto

lemma map_of_concat:
  "distinct (map fst xs) \<Longrightarrow>
   (\<exists>acts. map_of xs i = Some acts \<and> a \<in> set acts) \<longleftrightarrow>
   (i, a) \<in> set (concat (map (\<lambda>(i, acts). map (Pair i) acts) xs))"
  by (auto dest: map_of_SomeD)

lemma distinct_interfaces: "distinct (map fst VALID_ROUTES)"
  by (simp add: VALID_ROUTES_def)

lemma valid_routes_iff:
  "(i, a) \<in> set valid_routes \<longleftrightarrow> (\<exists>acts. map_of VALID_ROUTES i = Some acts \<and> a \<in> set acts)"
  unfolding valid_routes_def by (rule map_of_concat [OF distinct_interfaces, symmetric])

lemma validate_route_eq:
  "validate_route cmd =
     (case (c_interface cmd, c_action cmd) of
        (Some i, Some a) \<Rightarrow>
          (if (i, a) \<in> set valid_routes then Ok (i, a)
           else Err (response_error (c_id cmd)
             (if map_of VALID_ROUTES i = None then ERROR_UNKNOWN_INTERFACE else ERROR_UNKNOWN_ACTION)))
      | (None, _) \<Rightarrow> Err (response_error (c_id cmd) ERROR_UNKNOWN_INTERFACE)
      | (Some _, None) \<Rightarrow> Err (response_error (c_id cmd) ERROR_UNKNOWN_ACTION))"
  by (cases "c_interface cmd"; cases "c_action cmd"; cases "map_of VALID_ROUTES (the (c_interface cmd))")
    (simp_all add: validate_route_def find_is_map_of valid_routes_iff)

lemma validate_route_Ok:
  "validate_route cmd = Ok r \<longleftrightarrow>
     c_interface cmd = Some (fst r) \<and> c_action cmd = Some (snd r) \<and> r \<in> set valid_routes"
  by (cases r) (auto simp: validate_route_eq split: option.split)

lemma validate_route_Err:
  "validate_route cmd = Err r \<Longrightarrow> wf_response (c_id cmd) r \<and> \<not> r_ok r"
  by (auto simp: validate_route_eq split: option.splits if_splits)

text \<open>The routes, one by one: the case rule of every proof about \<open>dispatch\<close>.\<close>

lemma valid_routes_list:
  "valid_routes =
     [(''gpio'', ''read''), (''gpio'', ''write''), (''gpio'', ''set_mode''),
      (''gpio'', ''subscribe''), (''gpio'', ''unsubscribe''),
      (''uart'', ''read''), (''uart'', ''write''), (''uart'', ''configure''),
      (''spi'', ''transfer''), (''spi'', ''write''), (''spi'', ''configure''),
      (''i2c'', ''read''), (''i2c'', ''write''), (''i2c'', ''write_read''), (''i2c'', ''configure''),
      (''pwm'', ''set_duty''), (''pwm'', ''set_freq''), (''pwm'', ''enable''), (''pwm'', ''disable''),
      (''adc'', ''read''), (''adc'', ''subscribe''), (''adc'', ''unsubscribe''),
      (''usb'', ''read''), (''usb'', ''write''), (''config'', ''get''),
      (''system'', ''get_version''), (''system'', ''reboot_to_bootloader''), (''batch'', ''run'')]"
  by (simp add: valid_routes_def VALID_ROUTES_def)

text \<open>The equations of \<open>dispatch\<close> on the routes that use or change the state of the session.\<close>

lemma dispatch_subscribe:
  "dispatch hl cmd (''gpio'', ''subscribe'') st =
     Ret (case c_pin cmd of
            None \<Rightarrow> (response_error (c_id cmd) ERROR_MISSING_FIELD, st)
          | Some p \<Rightarrow>
              (case c_trigger cmd of
                 None \<Rightarrow> handle_subscribe hl (c_id cmd) (GpioLevel p (unwrap_or 100 (c_interval_ms cmd))) st
               | Some s \<Rightarrow>
                   (case edge_trigger_parse s of
                      None \<Rightarrow> (response_error (c_id cmd) ERROR_MISSING_FIELD, st)
                    | Some t \<Rightarrow> handle_subscribe hl (c_id cmd) (GpioEdge p t) st)))"
  "dispatch hl cmd (''gpio'', ''unsubscribe'') st =
     Ret (case c_pin cmd of
            None \<Rightarrow> (response_error (c_id cmd) ERROR_MISSING_FIELD, st)
          | Some p \<Rightarrow> handle_unsubscribe_gpio hl (c_id cmd) p st)"
  "dispatch hl cmd (''adc'', ''subscribe'') st =
     Ret (case c_adc_channel cmd of
            None \<Rightarrow> (response_error (c_id cmd) ERROR_MISSING_FIELD, st)
          | Some ch \<Rightarrow> handle_subscribe hl (c_id cmd) (Adc ch (unwrap_or 100 (c_interval_ms cmd))) st)"
  "dispatch hl cmd (''adc'', ''unsubscribe'') st =
     Ret (case c_adc_channel cmd of
            None \<Rightarrow> (response_error (c_id cmd) ERROR_MISSING_FIELD, st)
          | Some ch \<Rightarrow> handle_unsubscribe_adc hl (c_id cmd) ch st)"
  by (simp_all add: dispatch_def split: option.split)

lemma dispatch_configure:
  "dispatch hl cmd (''uart'', ''configure'') st =
     bind_exec (configure_macro uart_handle_configure (c_uart cmd) (ds_uart st) cmd)
       (\<lambda>(r, arr). Ret (r, st\<lparr>ds_uart := arr\<rparr>))"
  "dispatch hl cmd (''spi'', ''configure'') st =
     bind_exec (configure_macro spi_handle_configure (c_spi cmd) (ds_spi st) cmd)
       (\<lambda>(r, arr). Ret (r, st\<lparr>ds_spi := arr\<rparr>))"
  "dispatch hl cmd (''i2c'', ''configure'') st =
     bind_exec (configure_macro i2c_handle_configure (c_i2c cmd) (ds_i2c st) cmd)
       (\<lambda>(r, arr). Ret (r, st\<lparr>ds_i2c := arr\<rparr>))"
  by (simp_all add: dispatch_def)

lemma dispatch_write:
  "dispatch hl cmd (''uart'', ''write'') st =
     keep st (peripheral_write validate_uart uc_configured (ds_uart st) (uart_handle_write hl) cmd)"
  "dispatch hl cmd (''spi'', ''write'') st =
     keep st (peripheral_write validate_spi sc_configured (ds_spi st) (spi_handle_write hl) cmd)"
  "dispatch hl cmd (''i2c'', ''write'') st =
     keep st (peripheral_write validate_i2c ic_configured (ds_i2c st) (i2c_handle_write hl) cmd)"
  "dispatch hl cmd (''usb'', ''write'') st = keep st (usb_handle_write hl cmd (ds_usb_configured st))"
  by (simp_all add: dispatch_def)

lemma dispatch_reboot:
  "dispatch hl cmd (''system'', ''reboot_to_bootloader'') st =
     Ret (response_ok (c_id cmd) None, st\<lparr>ds_pending_reboot := True\<rparr>)"
  by (simp add: dispatch_def)

text \<open>The other routes answer at once and leave the state alone.\<close>

definition plain_routes :: "(str \<times> str) list" where
  "plain_routes =
     [(''gpio'', ''read''), (''gpio'', ''write''), (''gpio'', ''set_mode''), (''uart'', ''read''),
      (''spi'', ''transfer''), (''i2c'', ''read''), (''i2c'', ''write_read''),
      (''pwm'', ''set_duty''), (''pwm'', ''set_freq''), (''pwm'', ''enable''), (''pwm'', ''disable''),
      (''adc'', ''read''), (''usb'', ''read''), (''config'', ''get''), (''system'', ''get_version''),
      (''batch'', ''run'')]"

definition plain_answers :: "heapless \<Rightarrow> command \<Rightarrow> device_state \<Rightarrow> response list" where
  "plain_answers hl cmd st =
     (let not_configured = response_error (c_id cmd) ERROR_NOT_CONFIGURED
      in [not_configured, not_configured, gpio_handle_set_mode cmd, not_configured, not_configured,
          not_configured, not_configured, handle_set_duty cmd, handle_set_freq cmd,
          handle_enable cmd, handle_disable cmd,
          (case c_adc_channel cmd of
             None \<Rightarrow> response_error (c_id cmd) ERROR_MISSING_FIELD | Some _ \<Rightarrow> not_configured),
          not_configured,
          response_ok (c_id cmd)
            (Some (Config (ds_config_ssid st) (ds_config_ip st) (ds_config_connected st)
                          (ds_config_mqtt st))),
          response_ok (c_id cmd) (Some (Version (fst (hl_write_str hl 16 [] CARGO_PKG_VERSION)))),
          response_error (c_id cmd) ERROR_UNKNOWN_INTERFACE])"

lemma dispatch_plain:
  "map (\<lambda>route. dispatch hl cmd route st) plain_routes =
   map (\<lambda>r. Ret (r, st)) (plain_answers hl cmd st)"
  unfolding plain_routes_def plain_answers_def Let_def list.map list.inject
  by (intro conjI) (simp_all add: dispatch_def validate_read_def split: option.split)

definition session_routes :: "(str \<times> str) list" where
  "session_routes =
     [(''gpio'', ''subscribe''), (''gpio'', ''unsubscribe''), (''adc'', ''subscribe''),
      (''adc'', ''unsubscribe''), (''uart'', ''configure''), (''spi'', ''configure''),
      (''i2c'', ''configure''), (''uart'', ''write''), (''spi'', ''write''), (''i2c'', ''write''),
      (''usb'', ''write''), (''system'', ''reboot_to_bootloader'')]"

lemma routes_split:
  "list_all (\<lambda>r. List.member plain_routes r \<or> List.member session_routes r) valid_routes"
  by code_simp

lemma valid_route_cases:
  "route \<in> set valid_routes \<Longrightarrow> route \<in> set plain_routes \<or> route \<in> set session_routes"
  using routes_split by (auto simp: list_all_iff)

lemmas pwm_defs = handle_set_duty_def handle_set_freq_def handle_enable_def handle_disable_def

lemma gpio_set_mode_wf: "wf_response (c_id cmd) (gpio_handle_set_mode cmd)"
  by (simp add: gpio_handle_set_mode_def validate_pin_def split: option.split)

lemma pwm_wf:
  "wf_response (c_id cmd) (handle_set_duty cmd)" "wf_response (c_id cmd) (handle_set_freq cmd)"
  "wf_response (c_id cmd) (handle_enable cmd)" "wf_response (c_id cmd) (handle_disable cmd)"
  by (simp_all add: pwm_defs validate_channel_def validate_index_def split: option.split)

lemma plain_answers_wf: "r \<in> set (plain_answers hl cmd st) \<Longrightarrow> wf_response (c_id cmd) r"
proof -
  have "list_all (wf_response (c_id cmd)) (plain_answers hl cmd st)"
    by (simp add: plain_answers_def Let_def gpio_set_mode_wf pwm_wf split: option.split)
  then show "r \<in> set (plain_answers hl cmd st) \<Longrightarrow> wf_response (c_id cmd) r"
    by (simp add: list_all_iff)
qed

lemma dispatch_plain_route:
  assumes "route \<in> set plain_routes"
  shows "\<exists>r. dispatch hl cmd route st = Ret (r, st) \<and> wf_response (c_id cmd) r"
proof -
  have "dispatch hl cmd route st \<in> set (map (\<lambda>route. dispatch hl cmd route st) plain_routes)"
    using assms by simp
  then show ?thesis
    unfolding dispatch_plain using plain_answers_wf by auto
qed

section \<open>The invariant of the session state\<close>

definition watched :: "device_state \<Rightarrow> watched list" where
  "watched st = map (\<lambda>s. watched_of (s_target s)) (ds_subscriptions st)"

definition state_ok :: "device_state \<Rightarrow> bool" where
  "state_ok st \<longleftrightarrow>
     length (ds_uart st) = 2 \<and> list_all uart_valid (ds_uart st) \<and>
     length (ds_spi st) = 2 \<and> list_all spi_valid (ds_spi st) \<and>
     length (ds_i2c st) = 2 \<and> list_all i2c_valid (ds_i2c st) \<and>
     length (ds_subscriptions st) \<le> MAX_SUBSCRIPTIONS \<and> distinct (watched st) \<and>
     list_all (\<lambda>s. length (s_id s) \<le> 32) (ds_subscriptions st)"

lemma state_ok_default: "state_ok (device_state_default mqtt)"
  by (simp add: state_ok_def device_state_default_def watched_def uart_valid_def spi_valid_def
      i2c_valid_def uart_config_default_def spi_config_default_def i2c_config_default_def)

context write_handler
begin

lemma write_step:
  assumes "length arr = 2" "payload_fits (c_bytes cmd)"
  shows "\<exists>r. peripheral_write validate configured arr handler cmd = Ret r"
  using assms index_range [of cmd] safe [of cmd]
  by (cases "validate cmd") (auto simp: peripheral_write_def get_at_Ret not_Panic_iff)

lemma write_answer:
  "peripheral_write validate configured arr handler cmd = Ret r \<Longrightarrow>
   wf_response (c_id cmd) r \<and> r_data r = None"
  using answer index_error [of cmd]
  by (auto simp: peripheral_write_def bind_exec_eq_Ret wf_response_def split: result.splits)

lemma write_unconfigured:
  "validate cmd = Ok i \<Longrightarrow> length arr = 2 \<Longrightarrow> \<not> configured (arr ! unat i) \<Longrightarrow>
   peripheral_write validate configured arr handler cmd =
     Ret (response_error (c_id cmd) ERROR_NOT_CONFIGURED)"
  using index_range unconfigured by (simp add: peripheral_write_def get_at_Ret)

end

context configure_handler
begin

lemma configure_step:
  assumes "length arr = 2"
  shows "\<exists>r arr'. configure_macro configure (field cmd) arr cmd = Ret (r, arr') \<and>
     wf_response (c_id cmd) r \<and> r_data r = None \<and> length arr' = 2 \<and>
     (if r_ok r
      then \<exists>i cfg. field cmd = Some i \<and> unat i < 2 \<and> configure cmd = Ok cfg \<and> good cfg \<and>
             arr' = arr[unat i := cfg]
      else arr' = arr)"
proof (cases "configure cmd")
  case (Ok cfg)
  then obtain i where i: "good cfg" "field cmd = Some i" "unat i < 2"
    using accepted by blast
  show ?thesis
    by (intro exI [of _ "response_ok (c_id cmd) None"] exI [of _ "arr[unat i := cfg]"])
      (simp add: Ok i assms configure_macro_def put_at_Ret)
next
  case (Err r)
  then show ?thesis
    using refused [OF Err] assms by (auto simp: configure_macro_def wf_response_def)
qed

lemma configure_keeps:
  assumes "configure_macro configure (field cmd) arr cmd = Ret (r, arr')" "length arr = 2"
    and "list_all P arr" "\<And>c. good c \<Longrightarrow> P c"
  shows "length arr' = 2 \<and> list_all P arr'"
  using configure_step [OF assms(2), of cmd] assms
  by (auto simp: list_all_iff dest: set_update_subset_insert [THEN subsetD] split: if_splits)

end

section \<open>Subscriptions keep the invariant\<close>

lemma list_ex_same_target:
  "list_ex (\<lambda>s. same_target s t) (ds_subscriptions st) \<longleftrightarrow> watched_of t \<in> set (watched st)"
  by (force simp: list_ex_iff same_target_iff watched_def)

lemma watched_disjoint:
  "set (watched st) \<inter> W = {} \<longleftrightarrow> (\<forall>s \<in> set (ds_subscriptions st). watched_of (s_target s) \<notin> W)"
  by (auto simp: watched_def)

lemma handle_subscribe_eq:
  assumes "heapless_ok hl"
  shows "handle_subscribe hl i t st =
    (if watched_of t \<in> set (watched st) then (response_error i ERROR_ALREADY_SUBSCRIBED, st)
     else if MAX_SUBSCRIPTIONS \<le> length (ds_subscriptions st) then
       (response_error i ERROR_SUBSCRIPTION_LIMIT, st)
     else (response_ok i None,
           st\<lparr>ds_subscriptions := ds_subscriptions st @
                [\<lparr>s_id = (if length i \<le> 32 then i else []), s_target = t\<rparr>]\<rparr>))"
proof -
  have "fst (hl_push_str hl 32 [] i) = (if length i \<le> 32 then i else [])"
    using appends_fits [OF heapless_okD(1) [OF assms], of "[]" i 32]
      appends_full [OF heapless_okD(1) [OF assms], of 32 "[]" i] by auto
  moreover have "hl_push_subscription hl MAX_SUBSCRIPTIONS (ds_subscriptions st) s =
      (ds_subscriptions st @ [s], Ok ())" if "length (ds_subscriptions st) < MAX_SUBSCRIPTIONS" for s
    using that appends_fits [OF heapless_okD(3) [OF assms]] by simp
  ultimately show ?thesis
    by (auto simp: handle_subscribe_def list_ex_same_target case_prod_beta Let_def)
qed

definition gpio_watches :: "u8 \<Rightarrow> watched set" where
  "gpio_watches p = {WatchLevel p, WatchEdge p}"

text \<open>Removing the subscriptions that watch something of a set.\<close>

definition drop_watches :: "watched set \<Rightarrow> device_state \<Rightarrow> device_state" where
  "drop_watches W st =
     st\<lparr>ds_subscriptions := filter (\<lambda>s. watched_of (s_target s) \<notin> W) (ds_subscriptions st)\<rparr>"

definition unsubscribe :: "watched set \<Rightarrow> str \<Rightarrow> device_state \<Rightarrow> response \<times> device_state" where
  "unsubscribe W i st =
     (if set (watched st) \<inter> W = {} then response_error i ERROR_NOT_SUBSCRIBED else response_ok i None,
      drop_watches W st)"

lemma watched_member: "w \<in> set (watched st) \<longleftrightarrow> (\<exists>s \<in> set (ds_subscriptions st). watched_of (s_target s) = w)"
  by (auto simp: watched_def)

lemma length_filter_eq: "length (filter P xs) = length xs \<longleftrightarrow> (\<forall>x \<in> set xs. P x)"
  by (metis length_filter_less filter_True less_irrefl)

lemma handle_unsubscribe_adc_eq:
  assumes "heapless_ok hl"
  shows "handle_unsubscribe_adc hl i ch st = unsubscribe {WatchAdc ch} i st"
proof -
  have "(case s_target s of Adc c _ \<Rightarrow> c \<noteq> ch | _ \<Rightarrow> True) \<longleftrightarrow> watched_of (s_target s) \<notin> {WatchAdc ch}"
    for s :: subscription
    by (cases "s_target s") auto
  then show ?thesis
    by (simp add: handle_unsubscribe_adc_def unsubscribe_def drop_watches_def watched_disjoint
        watched_member heapless_okD(5) [OF assms] length_filter_eq Let_def)
qed

lemma handle_unsubscribe_gpio_eq:
  assumes "heapless_ok hl"
  shows "handle_unsubscribe_gpio hl i p st = unsubscribe (gpio_watches p) i st"
proof -
  have "(case s_target s of GpioLevel q _ \<Rightarrow> q \<noteq> p | GpioEdge q _ \<Rightarrow> q \<noteq> p | Adc _ _ \<Rightarrow> True)
      \<longleftrightarrow> watched_of (s_target s) \<notin> gpio_watches p" for s :: subscription
    by (cases "s_target s") (auto simp: gpio_watches_def)
  then show ?thesis
    by (simp add: handle_unsubscribe_gpio_def unsubscribe_def drop_watches_def watched_disjoint
        watched_member heapless_okD(5) [OF assms] length_filter_eq Let_def)
qed

text \<open>The outcome every branch of \<open>dispatch\<close> has: an answer to the command and a valid state.\<close>

definition answers :: "command \<Rightarrow> (response \<times> device_state) exec \<Rightarrow> bool" where
  "answers cmd m \<longleftrightarrow> (\<exists>r st. m = Ret (r, st) \<and> wf_response (c_id cmd) r \<and> state_ok st)"

lemma answers_Ret [simp]: "answers cmd (Ret (r, st)) \<longleftrightarrow> wf_response (c_id cmd) r \<and> state_ok st"
  by (simp add: answers_def)

lemma handle_subscribe_answers:
  assumes "heapless_ok hl" "state_ok st"
  shows "answers cmd (Ret (handle_subscribe hl (c_id cmd) t st))"
  using assms by (auto simp: handle_subscribe_eq state_ok_def watched_def)

lemma state_ok_drop: "state_ok st \<Longrightarrow> state_ok (drop_watches W st)"
  by (auto simp: state_ok_def drop_watches_def watched_def list_all_iff distinct_map_filter
      intro: order_trans [OF length_filter_le])

lemma unsubscribe_answers: "state_ok st \<Longrightarrow> answers cmd (Ret (unsubscribe W (c_id cmd) st))"
  by (simp add: unsubscribe_def state_ok_drop)

lemma keep_Ret: "keep st m = Ret (r, st') \<longleftrightarrow> st' = st \<and> m = Ret r"
  by (auto simp: keep_def bind_exec_eq_Ret)

lemma keep_answers:
  assumes "state_ok st" "m = Ret r" "wf_response (c_id cmd) r"
  shows "answers cmd (keep st m)"
  using assms by (simp add: keep_def)

lemma usb_write_answers:
  assumes "state_ok st" "payload_fits (c_bytes cmd)"
  shows "answers cmd (keep st (usb_handle_write hl cmd b))"
proof -
  have "usb_handle_write hl cmd b \<noteq> Panic"
    using assms(2) by (simp add: usb_handle_write_def try_r_Panic try_exec_Panic decode_bytes_total)
  then obtain r where r: "usb_handle_write hl cmd b = Ret r"
    by (auto simp: not_Panic_iff)
  moreover have "wf_response (c_id cmd) r"
    using r by (auto simp: usb_handle_write_def try_r_eq_Ret try_exec_eq_Ret outcome dest!: decode_bytes_Err)
  ultimately show ?thesis
    using assms(1) by (simp add: keep_def)
qed

lemma state_ok_uart: "state_ok st \<Longrightarrow> length arr = 2 \<and> list_all uart_valid arr \<Longrightarrow> state_ok (st\<lparr>ds_uart := arr\<rparr>)"
  by (simp add: state_ok_def watched_def)

lemma state_ok_spi: "state_ok st \<Longrightarrow> length arr = 2 \<and> list_all spi_valid arr \<Longrightarrow> state_ok (st\<lparr>ds_spi := arr\<rparr>)"
  by (simp add: state_ok_def watched_def)

lemma state_ok_i2c: "state_ok st \<Longrightarrow> length arr = 2 \<and> list_all i2c_valid arr \<Longrightarrow> state_ok (st\<lparr>ds_i2c := arr\<rparr>)"
  by (simp add: state_ok_def watched_def)

lemma configure_answers:
  assumes "state_ok st"
  shows "answers cmd (dispatch hl cmd (''uart'', ''configure'') st)"
    and "answers cmd (dispatch hl cmd (''spi'', ''configure'') st)"
    and "answers cmd (dispatch hl cmd (''i2c'', ''configure'') st)"
proof -
  have l: "length (ds_uart st) = 2" "list_all uart_valid (ds_uart st)"
    "length (ds_spi st) = 2" "list_all spi_valid (ds_spi st)"
    "length (ds_i2c st) = 2" "list_all i2c_valid (ds_i2c st)"
    using assms by (auto simp: state_ok_def)
  obtain r arr where "configure_macro uart_handle_configure (c_uart cmd) (ds_uart st) cmd = Ret (r, arr)"
    "wf_response (c_id cmd) r"
    using uart_conf.configure_step [OF l(1)] by blast
  then show "answers cmd (dispatch hl cmd (''uart'', ''configure'') st)"
    using uart_conf.configure_keeps [OF _ l(1) l(2)] state_ok_uart [OF assms]
    by (simp add: dispatch_configure)
  obtain r arr where "configure_macro spi_handle_configure (c_spi cmd) (ds_spi st) cmd = Ret (r, arr)"
    "wf_response (c_id cmd) r"
    using spi_conf.configure_step [OF l(3)] by blast
  then show "answers cmd (dispatch hl cmd (''spi'', ''configure'') st)"
    using spi_conf.configure_keeps [OF _ l(3) l(4)] state_ok_spi [OF assms]
    by (simp add: dispatch_configure)
  obtain r arr where "configure_macro i2c_handle_configure (c_i2c cmd) (ds_i2c st) cmd = Ret (r, arr)"
    "wf_response (c_id cmd) r"
    using i2c_conf.configure_step [OF l(5)] by blast
  then show "answers cmd (dispatch hl cmd (''i2c'', ''configure'') st)"
    using i2c_conf.configure_keeps [OF _ l(5) l(6)] state_ok_i2c [OF assms]
    by (simp add: dispatch_configure)
qed

lemma write_answers:
  assumes "state_ok st" "payload_fits (c_bytes cmd)"
  shows "answers cmd (dispatch hl cmd (''uart'', ''write'') st)"
    and "answers cmd (dispatch hl cmd (''spi'', ''write'') st)"
    and "answers cmd (dispatch hl cmd (''i2c'', ''write'') st)"
    and "answers cmd (dispatch hl cmd (''usb'', ''write'') st)"
proof -
  have l: "length (ds_uart st) = 2" "length (ds_spi st) = 2" "length (ds_i2c st) = 2"
    using assms(1) by (auto simp: state_ok_def)
  show "answers cmd (dispatch hl cmd (''uart'', ''write'') st)"
    using uart_write.write_step [OF l(1) assms(2)] uart_write.write_answer keep_answers [OF assms(1)]
    unfolding dispatch_write by blast
  show "answers cmd (dispatch hl cmd (''spi'', ''write'') st)"
    using spi_write.write_step [OF l(2) assms(2)] spi_write.write_answer keep_answers [OF assms(1)]
    unfolding dispatch_write by blast
  show "answers cmd (dispatch hl cmd (''i2c'', ''write'') st)"
    using i2c_write.write_step [OF l(3) assms(2)] i2c_write.write_answer keep_answers [OF assms(1)]
    unfolding dispatch_write by blast
  show "answers cmd (dispatch hl cmd (''usb'', ''write'') st)"
    unfolding dispatch_write by (rule usb_write_answers [OF assms])
qed

lemma subscribe_answers:
  assumes "heapless_ok hl" "state_ok st"
  shows "answers cmd (dispatch hl cmd (''gpio'', ''subscribe'') st)"
    and "answers cmd (dispatch hl cmd (''gpio'', ''unsubscribe'') st)"
    and "answers cmd (dispatch hl cmd (''adc'', ''subscribe'') st)"
    and "answers cmd (dispatch hl cmd (''adc'', ''unsubscribe'') st)"
  using handle_subscribe_answers [OF assms, of cmd] unsubscribe_answers [OF assms(2), of cmd] assms(2)
  by (simp_all add: dispatch_subscribe handle_unsubscribe_adc_eq [OF assms(1)]
      handle_unsubscribe_gpio_eq [OF assms(1)] split: option.split)

definition write_routes :: "(str \<times> str) list" where
  "write_routes = [(''uart'', ''write''), (''spi'', ''write''), (''i2c'', ''write''), (''usb'', ''write'')]"

text \<open>Only the write actions decode a payload, so only they need it to fit.\<close>

lemma dispatch_answers:
  assumes "heapless_ok hl" "state_ok st" "route \<in> set valid_routes"
    and "route \<in> set write_routes \<Longrightarrow> payload_fits (c_bytes cmd)"
  shows "answers cmd (dispatch hl cmd route st)"
proof (cases "route \<in> set plain_routes")
  case True
  then show ?thesis
    using dispatch_plain_route [OF True, of hl cmd st] assms(2) by (auto simp: answers_def)
next
  case False
  then have "route \<in> set session_routes"
    using valid_route_cases [OF assms(3)] by blast
  then consider "route = (''gpio'', ''subscribe'')" | "route = (''gpio'', ''unsubscribe'')"
    | "route = (''adc'', ''subscribe'')" | "route = (''adc'', ''unsubscribe'')"
    | "route = (''uart'', ''configure'')" | "route = (''spi'', ''configure'')"
    | "route = (''i2c'', ''configure'')" | "route = (''uart'', ''write'')"
    | "route = (''spi'', ''write'')" | "route = (''i2c'', ''write'')" | "route = (''usb'', ''write'')"
    | "route = (''system'', ''reboot_to_bootloader'')"
    unfolding session_routes_def list.set insert_iff empty_iff by satx
  then show ?thesis
  proof cases
    case 12
    then show ?thesis
      using assms(2) by (simp add: dispatch_reboot state_ok_def watched_def)
  qed (simp_all only: subscribe_answers [OF assms(1,2)] configure_answers [OF assms(2)]
         write_answers [OF assms(2,4)] write_routes_def list.set insert_iff simp_thms)
qed

text \<open>A write that returns leaves the state alone.\<close>

lemma dispatch_write_keeps:
  assumes "route \<in> set write_routes" "dispatch hl cmd route st = Ret (r, st')"
  shows "st' = st \<and> wf_response (c_id cmd) r \<and> r_data r = None"
proof -
  have usb: "wf_response (c_id cmd) r \<and> r_data r = None" if "usb_handle_write hl cmd b = Ret r" for b
    using that by (auto simp: usb_handle_write_def try_r_eq_Ret try_exec_eq_Ret outcome dest!: decode_bytes_Err)
  consider "route = (''uart'', ''write'')" | "route = (''spi'', ''write'')" | "route = (''i2c'', ''write'')"
    | "route = (''usb'', ''write'')"
    using assms(1) unfolding write_routes_def list.set insert_iff empty_iff by satx
  then show ?thesis
    using assms(2)
    by cases (auto simp: dispatch_write keep_Ret dest: uart_write.write_answer
        spi_write.write_answer i2c_write.write_answer usb)
qed

text \<open>Every result of \<open>dispatch\<close> is an answer and a valid state, whatever the payload.\<close>

lemma dispatch_result:
  assumes "heapless_ok hl" "state_ok st" "route \<in> set valid_routes"
    and "dispatch hl cmd route st = Ret (r, st')"
  shows "wf_response (c_id cmd) r \<and> state_ok st'"
proof (cases "route \<in> set write_routes")
  case True
  then show ?thesis
    using dispatch_write_keeps [OF True assms(4)] assms(2) by simp
next
  case False
  then show ?thesis
    using dispatch_answers [OF assms(1-3), of cmd] assms(4) by simp
qed

lemma dispatch_Panic:
  assumes "heapless_ok hl" "state_ok st" "route \<in> set valid_routes" "dispatch hl cmd route st = Panic"
  shows "route \<in> set write_routes \<and> \<not> payload_fits (c_bytes cmd)"
  using dispatch_answers [OF assms(1-3), of cmd] assms(4) by (auto simp: answers_def)

end
