(* ===== verification/Session.thy ===== *)
theory Session
  imports Router
begin

text \<open>
  What a session with the router promises: an abstract session (which units are configured, what
  is watched, whether a reboot was asked for) that \<open>dispatch\<close> refines, the states a client can
  reach with any sequence of commands, and batches as sequences of single commands.
\<close>

section \<open>One command\<close>

text \<open>
  What a transport does with a command (\<open>handle_client\<close> and \<open>dispatch_batch\<close>): the answer of
  \<open>validate_route\<close> if it refuses, the one of \<open>dispatch\<close> otherwise.
\<close>

definition run_command :: "heapless \<Rightarrow> command \<Rightarrow> device_state \<Rightarrow> (response \<times> device_state) exec" where
  "run_command hl cmd st =
     (case validate_route cmd of Err r \<Rightarrow> Ret (r, st) | Ok route \<Rightarrow> dispatch hl cmd route st)"

lemma run_command_answers:
  assumes "heapless_ok hl" "state_ok st" "payload_fits (c_bytes cmd)"
  shows "answers cmd (run_command hl cmd st)"
  using dispatch_answers [OF assms(1,2)] assms(2,3)
  by (auto simp: run_command_def validate_route_Ok dest: validate_route_Err split: result.split)

lemma run_command_result:
  assumes "heapless_ok hl" "state_ok st" "run_command hl cmd st = Ret (r, st')"
  shows "wf_response (c_id cmd) r \<and> state_ok st'"
  using dispatch_result [OF assms(1,2)] assms(2,3)
  by (auto simp: run_command_def validate_route_Ok dest: validate_route_Err split: result.splits)

section \<open>The abstract session\<close>

datatype bus = UartBus | SpiBus | I2cBus

record session =
  a_configured :: "(bus \<times> nat) set"
  a_watched :: "watched set"
  a_reboot :: bool

definition units :: "('c \<Rightarrow> bool) \<Rightarrow> 'c list \<Rightarrow> nat set" where
  "units configured arr = {i. i < length arr \<and> configured (arr ! i)}"

definition session_of :: "device_state \<Rightarrow> session" where
  "session_of st =
     \<lparr>a_configured = Pair UartBus ` units uc_configured (ds_uart st) \<union>
        Pair SpiBus ` units sc_configured (ds_spi st) \<union>
        Pair I2cBus ` units ic_configured (ds_i2c st),
      a_watched = set (watched st),
      a_reboot = ds_pending_reboot st\<rparr>"

text \<open>What a command asks of the session; \<open>Inert\<close> asks nothing.\<close>

datatype request =
    Configure bus nat
  | WriteTo bus nat
  | Watch watched
  | Unwatch "watched set"
  | Reboot
  | Inert

definition payload_valid :: "str option \<Rightarrow> bool" where
  "payload_valid field =
     (case field of
        None \<Rightarrow> False
      | Some s \<Rightarrow> s \<noteq> [] \<and> b64_bytes (strip_padding (as_bytes s)) \<noteq> None)"

definition write_request :: "bus \<Rightarrow> bool \<Rightarrow> (u8, response) result \<Rightarrow> command \<Rightarrow> request" where
  "write_request b addressed idx cmd =
     (case idx of
        Ok i \<Rightarrow> if addressed \<and> payload_valid (c_bytes cmd) then WriteTo b (unat i) else Inert
      | Err _ \<Rightarrow> Inert)"

definition configure_request :: "bus \<Rightarrow> u8 option \<Rightarrow> ('c, response) result \<Rightarrow> request" where
  "configure_request b field res =
     (case (res, field) of (Ok _, Some i) \<Rightarrow> Configure b (unat i) | _ \<Rightarrow> Inert)"

definition request_of :: "command \<Rightarrow> str \<times> str \<Rightarrow> request" where
  "request_of cmd route =
     (if route = (''gpio'', ''subscribe'') then
        (case c_pin cmd of
           None \<Rightarrow> Inert
         | Some p \<Rightarrow>
             (case c_trigger cmd of
                None \<Rightarrow> Watch (WatchLevel p)
              | Some s \<Rightarrow> if edge_trigger_parse s = None then Inert else Watch (WatchEdge p)))
      else if route = (''gpio'', ''unsubscribe'') then
        (case c_pin cmd of None \<Rightarrow> Inert | Some p \<Rightarrow> Unwatch {WatchLevel p, WatchEdge p})
      else if route = (''adc'', ''subscribe'') then
        (case c_adc_channel cmd of None \<Rightarrow> Inert | Some ch \<Rightarrow> Watch (WatchAdc ch))
      else if route = (''adc'', ''unsubscribe'') then
        (case c_adc_channel cmd of None \<Rightarrow> Inert | Some ch \<Rightarrow> Unwatch {WatchAdc ch})
      else if route = (''uart'', ''configure'') then
        configure_request UartBus (c_uart cmd) (uart_handle_configure cmd)
      else if route = (''spi'', ''configure'') then
        configure_request SpiBus (c_spi cmd) (spi_handle_configure cmd)
      else if route = (''i2c'', ''configure'') then
        configure_request I2cBus (c_i2c cmd) (i2c_handle_configure cmd)
      else if route = (''uart'', ''write'') then
        write_request UartBus True (validate_uart cmd) cmd
      else if route = (''spi'', ''write'') then
        write_request SpiBus True (validate_spi cmd) cmd
      else if route = (''i2c'', ''write'') then
        write_request I2cBus (c_addr cmd \<noteq> None) (validate_i2c cmd) cmd
      else if route = (''system'', ''reboot_to_bootloader'') then Reboot
      else Inert)"

text \<open>The promise: the error of the answer (none on success) and the session afterwards.\<close>

fun session_step :: "request \<Rightarrow> session \<Rightarrow> str option \<times> session" where
  "session_step (Configure b i) s = (None, s\<lparr>a_configured := insert (b, i) (a_configured s)\<rparr>)"
| "session_step (WriteTo b i) s =
     (if (b, i) \<in> a_configured s then None else Some ERROR_NOT_CONFIGURED, s)"
| "session_step (Watch w) s =
     (if w \<in> a_watched s then (Some ERROR_ALREADY_SUBSCRIBED, s)
      else if card (a_watched s) < 8 then (None, s\<lparr>a_watched := insert w (a_watched s)\<rparr>)
      else (Some ERROR_SUBSCRIPTION_LIMIT, s))"
| "session_step (Unwatch W) s =
     (if a_watched s \<inter> W = {} then Some ERROR_NOT_SUBSCRIBED else None,
      s\<lparr>a_watched := a_watched s - W\<rparr>)"
| "session_step Reboot s = (None, s\<lparr>a_reboot := True\<rparr>)"
| "session_step Inert s = (None, s)"

text \<open>An outcome that refines a request made in a session.\<close>

definition refines :: "request \<Rightarrow> session \<Rightarrow> (response \<times> device_state) exec \<Rightarrow> bool" where
  "refines q s m \<longleftrightarrow>
     (\<exists>r st. m = Ret (r, st) \<and> session_of st = snd (session_step q s) \<and>
        (q \<noteq> Inert \<longrightarrow> r_error r = fst (session_step q s)))"

lemma refines_Ret [simp]:
  "refines q s (Ret (r, st)) \<longleftrightarrow>
     session_of st = snd (session_step q s) \<and> (q \<noteq> Inert \<longrightarrow> r_error r = fst (session_step q s))"
  by (simp add: refines_def)

lemma refines_watch:
  assumes "heapless_ok hl" "state_ok st"
  shows "refines (Watch (watched_of t)) (session_of st) (Ret (handle_subscribe hl i t st))"
proof -
  have "card (set (watched st)) = length (ds_subscriptions st)"
    using assms(2) by (simp add: state_ok_def distinct_card) (simp add: watched_def)
  then show ?thesis
    by (auto simp: handle_subscribe_eq [OF assms(1)] session_of_def watched_def limit_defs)
qed

lemma refines_unwatch: "refines (Unwatch W) (session_of st) (Ret (unsubscribe W i st))"
  by (auto simp: unsubscribe_def drop_watches_def session_of_def watched_def)

lemma units_update: "i < length arr \<Longrightarrow> configured c \<Longrightarrow> units configured (arr[i := c]) = insert i (units configured arr)"
  by (auto simp: units_def nth_list_update)

lemma configure_refines:
  assumes "configure_macro handler field arr cmd = Ret (r, arr')" "r_data r = None"
    and "if r_ok r then \<exists>i cfg. field = Some i \<and> unat i < 2 \<and> handler cmd = Ok cfg \<and> configured cfg \<and>
           arr' = arr[unat i := cfg] else arr' = arr"
    and "length arr = 2" "wf_response (c_id cmd) r"
  shows "(case configure_request b field (handler cmd) of
            Configure b' i \<Rightarrow> b' = b \<and> r_error r = None \<and> units configured arr' = insert i (units configured arr)
          | Inert \<Rightarrow> units configured arr' = units configured arr
          | _ \<Rightarrow> False)"
  using assms
  by (auto simp: configure_request_def configure_macro_def wf_response_def units_update bind_exec_eq_Ret
      split: result.splits option.splits if_splits)

lemma decode_bytes_valid:
  assumes "heapless_ok hl" "payload_fits f" "payload_valid f"
  shows "\<exists>bs. decode_bytes hl cmd f = Ret (Ok bs)"
  using assms decode_bytes_eq [OF assms(1)] by (cases f) (auto simp: payload_valid_def)

lemma write_accepts:
  assumes "heapless_ok hl" "payload_fits (c_bytes cmd)" "payload_valid (c_bytes cmd)"
  shows "uart_handle_write hl cmd True = Ret (response_ok (c_id cmd) None)"
    and "spi_handle_write hl cmd True = Ret (response_ok (c_id cmd) None)"
    and "c_addr cmd \<noteq> None \<Longrightarrow> i2c_handle_write hl cmd True = Ret (response_ok (c_id cmd) None)"
  using decode_bytes_valid [OF assms, of cmd]
  by (auto simp: write_defs validate_addr_def)

context write_handler
begin

lemma write_refines:
  assumes "length arr = 2" "payload_fits (c_bytes cmd)"
    and accepts: "payload_valid (c_bytes cmd) \<Longrightarrow> addressed \<Longrightarrow>
           handler cmd True = Ret (response_ok (c_id cmd) None)"
  shows "\<exists>r. peripheral_write validate configured arr handler cmd = Ret r \<and>
     (write_request b addressed (validate cmd) cmd = Inert \<or>
      (\<exists>i. write_request b addressed (validate cmd) cmd = WriteTo b i \<and>
         r_error r = (if i \<in> units configured arr then None else Some ERROR_NOT_CONFIGURED)))"
proof (cases "validate cmd")
  case (Ok i)
  then show ?thesis
    using assms index_range [OF Ok] unconfigured [of cmd] write_step [OF assms(1,2), of configured]
    by (cases "configured (arr ! unat i)")
      (auto simp: write_request_def units_def peripheral_write_def get_at_Ret)
next
  case (Err r)
  then show ?thesis
    by (simp add: write_request_def peripheral_write_def)
qed

end

lemma session_of_simps:
  "a_watched (session_of st) = set (watched st)"
  "a_reboot (session_of st) = ds_pending_reboot st"
  "(UartBus, i) \<in> a_configured (session_of st) \<longleftrightarrow> i \<in> units uc_configured (ds_uart st)"
  "(SpiBus, i) \<in> a_configured (session_of st) \<longleftrightarrow> i \<in> units sc_configured (ds_spi st)"
  "(I2cBus, i) \<in> a_configured (session_of st) \<longleftrightarrow> i \<in> units ic_configured (ds_i2c st)"
  by (auto simp: session_of_def)

lemma session_of_uart:
  "units uc_configured arr = insert i (units uc_configured (ds_uart st)) \<Longrightarrow>
     session_of (st\<lparr>ds_uart := arr\<rparr>) = snd (session_step (Configure UartBus i) (session_of st))"
  "units uc_configured arr = units uc_configured (ds_uart st) \<Longrightarrow>
     session_of (st\<lparr>ds_uart := arr\<rparr>) = session_of st"
  by (auto simp: session_of_def watched_def)

lemma session_of_spi:
  "units sc_configured arr = insert i (units sc_configured (ds_spi st)) \<Longrightarrow>
     session_of (st\<lparr>ds_spi := arr\<rparr>) = snd (session_step (Configure SpiBus i) (session_of st))"
  "units sc_configured arr = units sc_configured (ds_spi st) \<Longrightarrow>
     session_of (st\<lparr>ds_spi := arr\<rparr>) = session_of st"
  by (auto simp: session_of_def watched_def)

lemma session_of_i2c:
  "units ic_configured arr = insert i (units ic_configured (ds_i2c st)) \<Longrightarrow>
     session_of (st\<lparr>ds_i2c := arr\<rparr>) = snd (session_step (Configure I2cBus i) (session_of st))"
  "units ic_configured arr = units ic_configured (ds_i2c st) \<Longrightarrow>
     session_of (st\<lparr>ds_i2c := arr\<rparr>) = session_of st"
  by (auto simp: session_of_def watched_def)

lemma configure_dispatch_refines:
  assumes "state_ok st"
  shows "refines (request_of cmd (''uart'', ''configure'')) (session_of st)
           (dispatch hl cmd (''uart'', ''configure'') st)"
    and "refines (request_of cmd (''spi'', ''configure'')) (session_of st)
           (dispatch hl cmd (''spi'', ''configure'') st)"
    and "refines (request_of cmd (''i2c'', ''configure'')) (session_of st)
           (dispatch hl cmd (''i2c'', ''configure'') st)"
proof -
  have l: "length (ds_uart st) = 2" "length (ds_spi st) = 2" "length (ds_i2c st) = 2"
    using assms by (auto simp: state_ok_def)
  obtain r arr where c: "configure_macro uart_handle_configure (c_uart cmd) (ds_uart st) cmd = Ret (r, arr)"
    and s: "wf_response (c_id cmd) r" "r_data r = None"
      "if r_ok r then \<exists>i cfg. c_uart cmd = Some i \<and> unat i < 2 \<and> uart_handle_configure cmd = Ok cfg \<and>
         uc_configured cfg \<and> arr = (ds_uart st)[unat i := cfg] else arr = ds_uart st"
    using uart_conf.configure_step [OF l(1), of cmd] by (auto split: if_splits)
  show "refines (request_of cmd (''uart'', ''configure'')) (session_of st)
          (dispatch hl cmd (''uart'', ''configure'') st)"
    using configure_refines [OF c s(2,3) l(1) s(1), of UartBus]
    by (auto simp: request_of_def dispatch_configure c session_of_uart split: request.splits)
  obtain r arr where c: "configure_macro spi_handle_configure (c_spi cmd) (ds_spi st) cmd = Ret (r, arr)"
    and s: "wf_response (c_id cmd) r" "r_data r = None"
      "if r_ok r then \<exists>i cfg. c_spi cmd = Some i \<and> unat i < 2 \<and> spi_handle_configure cmd = Ok cfg \<and>
         sc_configured cfg \<and> arr = (ds_spi st)[unat i := cfg] else arr = ds_spi st"
    using spi_conf.configure_step [OF l(2), of cmd] by (auto split: if_splits)
  show "refines (request_of cmd (''spi'', ''configure'')) (session_of st)
          (dispatch hl cmd (''spi'', ''configure'') st)"
    using configure_refines [OF c s(2,3) l(2) s(1), of SpiBus]
    by (auto simp: request_of_def dispatch_configure c session_of_spi split: request.splits)
  obtain r arr where c: "configure_macro i2c_handle_configure (c_i2c cmd) (ds_i2c st) cmd = Ret (r, arr)"
    and s: "wf_response (c_id cmd) r" "r_data r = None"
      "if r_ok r then \<exists>i cfg. c_i2c cmd = Some i \<and> unat i < 2 \<and> i2c_handle_configure cmd = Ok cfg \<and>
         ic_configured cfg \<and> arr = (ds_i2c st)[unat i := cfg] else arr = ds_i2c st"
    using i2c_conf.configure_step [OF l(3), of cmd] by (auto split: if_splits)
  show "refines (request_of cmd (''i2c'', ''configure'')) (session_of st)
          (dispatch hl cmd (''i2c'', ''configure'') st)"
    using configure_refines [OF c s(2,3) l(3) s(1), of I2cBus]
    by (auto simp: request_of_def dispatch_configure c session_of_i2c split: request.splits)
qed

lemma write_dispatch_refines:
  assumes "heapless_ok hl" "state_ok st" "payload_fits (c_bytes cmd)"
  shows "refines (request_of cmd (''uart'', ''write'')) (session_of st) (dispatch hl cmd (''uart'', ''write'') st)"
    and "refines (request_of cmd (''spi'', ''write'')) (session_of st) (dispatch hl cmd (''spi'', ''write'') st)"
    and "refines (request_of cmd (''i2c'', ''write'')) (session_of st) (dispatch hl cmd (''i2c'', ''write'') st)"
    and "refines (request_of cmd (''usb'', ''write'')) (session_of st) (dispatch hl cmd (''usb'', ''write'') st)"
proof -
  have l: "length (ds_uart st) = 2" "length (ds_spi st) = 2" "length (ds_i2c st) = 2"
    using assms(2) by (auto simp: state_ok_def)
  note acc = write_accepts [OF assms(1,3)]
  show "refines (request_of cmd (''uart'', ''write'')) (session_of st) (dispatch hl cmd (''uart'', ''write'') st)"
    using uart_write.write_refines [OF l(1) assms(3), of True hl uc_configured UartBus] acc(1)
    by (auto simp: request_of_def dispatch_write keep_def session_of_simps)
  show "refines (request_of cmd (''spi'', ''write'')) (session_of st) (dispatch hl cmd (''spi'', ''write'') st)"
    using spi_write.write_refines [OF l(2) assms(3), of True hl sc_configured SpiBus] acc(2)
    by (auto simp: request_of_def dispatch_write keep_def session_of_simps)
  show "refines (request_of cmd (''i2c'', ''write'')) (session_of st) (dispatch hl cmd (''i2c'', ''write'') st)"
    using i2c_write.write_refines [OF l(3) assms(3), of "c_addr cmd \<noteq> None" hl ic_configured I2cBus] acc(3)
    by (auto simp: request_of_def dispatch_write keep_def session_of_simps)
  show "refines (request_of cmd (''usb'', ''write'')) (session_of st) (dispatch hl cmd (''usb'', ''write'') st)"
    using write_answers(4) [OF assms(2,3), of hl]
    by (auto simp: request_of_def answers_def refines_def dispatch_write keep_Ret)
qed

lemma subscription_dispatch_refines:
  assumes "heapless_ok hl" "state_ok st"
  shows "refines (request_of cmd (''gpio'', ''subscribe'')) (session_of st) (dispatch hl cmd (''gpio'', ''subscribe'') st)"
    and "refines (request_of cmd (''gpio'', ''unsubscribe'')) (session_of st) (dispatch hl cmd (''gpio'', ''unsubscribe'') st)"
    and "refines (request_of cmd (''adc'', ''subscribe'')) (session_of st) (dispatch hl cmd (''adc'', ''subscribe'') st)"
    and "refines (request_of cmd (''adc'', ''unsubscribe'')) (session_of st) (dispatch hl cmd (''adc'', ''unsubscribe'') st)"
  using refines_watch [OF assms, of "GpioLevel _ _"] refines_watch [OF assms, of "GpioEdge _ _"]
    refines_watch [OF assms, of "Adc _ _"] refines_unwatch
  by (auto simp: request_of_def dispatch_subscribe handle_unsubscribe_adc_eq [OF assms(1)]
      handle_unsubscribe_gpio_eq [OF assms(1)] gpio_watches_def simp del: session_step.simps(1-5) split: option.split)

lemma request_of_other: "route \<notin> set session_routes \<Longrightarrow> request_of cmd route = Inert"
  by (simp add: request_of_def session_routes_def)

lemma plain_not_session: "list_all (\<lambda>r. \<not> List.member session_routes r) plain_routes"
  by code_simp

lemma dispatch_refines:
  assumes "heapless_ok hl" "state_ok st" "route \<in> set valid_routes" "payload_fits (c_bytes cmd)"
  shows "refines (request_of cmd route) (session_of st) (dispatch hl cmd route st)"
proof (cases "route \<in> set session_routes")
  case False
  then have "route \<in> set plain_routes"
    using valid_route_cases [OF assms(3)] by blast
  then obtain r where "dispatch hl cmd route st = Ret (r, st)"
    using dispatch_plain_route by blast
  then show ?thesis
    using False by (simp add: request_of_other)
next
  case True
  then consider "route = (''gpio'', ''subscribe'')" | "route = (''gpio'', ''unsubscribe'')"
    | "route = (''adc'', ''subscribe'')" | "route = (''adc'', ''unsubscribe'')"
    | "route = (''uart'', ''configure'')" | "route = (''spi'', ''configure'')"
    | "route = (''i2c'', ''configure'')" | "route = (''uart'', ''write'')"
    | "route = (''spi'', ''write'')" | "route = (''i2c'', ''write'')" | "route = (''usb'', ''write'')"
    | "route = (''system'', ''reboot_to_bootloader'')"
    unfolding session_routes_def list.set insert_iff empty_iff by satx
  then show ?thesis
  proof cases
    case 12
    then show ?thesis
      by (simp add: request_of_def dispatch_reboot session_of_def watched_def)
  qed (simp_all only: subscription_dispatch_refines [OF assms(1,2)]
         configure_dispatch_refines [OF assms(2)] write_dispatch_refines [OF assms(1,2,4)])
qed

section \<open>The states of a session\<close>

text \<open>
  A session starts in the default state with what the firmware knows of its network, and goes on
  with any command and the answer to it. A panic ends the firmware, so it is no step.
\<close>

inductive session_state :: "heapless \<Rightarrow> bool \<Rightarrow> str \<times> str \<times> bool \<Rightarrow> device_state \<Rightarrow> bool"
  for hl mqtt net where
  start: "net = (ssid, ip, conn) \<Longrightarrow>
     session_state hl mqtt net
       ((device_state_default mqtt)\<lparr>ds_config_ssid := ssid, ds_config_ip := ip,
                                   ds_config_connected := conn\<rparr>)"
| command: "session_state hl mqtt net st \<Longrightarrow> run_command hl cmd st = Ret (r, st') \<Longrightarrow>
     session_state hl mqtt net st'"

text \<open>What no command changes, and the one flag that only goes up.\<close>

definition fixed_part :: "device_state \<Rightarrow> bool \<times> (str \<times> str \<times> bool) \<times> (str \<times> u16) option" where
  "fixed_part st =
     (ds_usb_configured st, (ds_config_ssid st, ds_config_ip st, ds_config_connected st), ds_config_mqtt st)"

definition monotone_step :: "device_state \<Rightarrow> device_state \<Rightarrow> bool" where
  "monotone_step st st' \<longleftrightarrow>
     fixed_part st' = fixed_part st \<and> (ds_pending_reboot st \<longrightarrow> ds_pending_reboot st')"

lemma monotone_step_refl [simp]: "monotone_step st st"
  by (simp add: monotone_step_def)

lemma monotone_updates [simp]:
  "monotone_step st (st\<lparr>ds_subscriptions := subs\<rparr>)"
  "monotone_step st (st\<lparr>ds_uart := u\<rparr>)"
  "monotone_step st (st\<lparr>ds_spi := s\<rparr>)"
  "monotone_step st (st\<lparr>ds_i2c := i\<rparr>)"
  "monotone_step st (st\<lparr>ds_pending_reboot := True\<rparr>)"
  by (simp_all add: monotone_step_def fixed_part_def)

lemma subscription_monotone:
  "handle_subscribe hl i t st = (r, st') \<Longrightarrow> monotone_step st st'"
  "handle_unsubscribe_adc hl i ch st = (r, st') \<Longrightarrow> monotone_step st st'"
  "handle_unsubscribe_gpio hl i p st = (r, st') \<Longrightarrow> monotone_step st st'"
  by (auto simp: handle_subscribe_def handle_unsubscribe_adc_def handle_unsubscribe_gpio_def
      case_prod_beta Let_def split: if_splits)

lemma dispatch_monotone:
  assumes "route \<in> set valid_routes" "dispatch hl cmd route st = Ret (r, st')"
  shows "monotone_step st st'"
proof (cases "route \<in> set session_routes")
  case False
  then have "route \<in> set plain_routes"
    using valid_route_cases [OF assms(1)] by blast
  then show ?thesis
    using dispatch_plain_route [of route hl cmd st] assms(2) by auto
next
  case True
  from True consider "route \<in> set write_routes" | "route = (''gpio'', ''subscribe'')"
    | "route = (''gpio'', ''unsubscribe'')" | "route = (''adc'', ''subscribe'')"
    | "route = (''adc'', ''unsubscribe'')" | "route = (''uart'', ''configure'')"
    | "route = (''spi'', ''configure'')" | "route = (''i2c'', ''configure'')"
    | "route = (''system'', ''reboot_to_bootloader'')"
    unfolding session_routes_def write_routes_def list.set insert_iff empty_iff by satx
  then show ?thesis
    using assms(2)
  proof cases
    case 1
    then show ?thesis
      using dispatch_write_keeps [OF 1 assms(2)] by simp
  qed (auto simp: dispatch_subscribe dispatch_configure dispatch_reboot bind_exec_eq_Ret
        intro: subscription_monotone split: option.splits)
qed

lemma run_command_monotone: "run_command hl cmd st = Ret (r, st') \<Longrightarrow> monotone_step st st'"
  by (auto simp: run_command_def validate_route_Ok dest: dispatch_monotone split: result.splits)

lemma session_state_invariant:
  assumes "heapless_ok hl" "session_state hl mqtt net st"
  shows "state_ok st \<and> fixed_part st = (False, net, if mqtt then Some ([], 1883) else None)"
  using assms(2)
proof induction
  case (start ssid ip conn)
  have "state_ok ((device_state_default mqtt)\<lparr>ds_config_ssid := ssid, ds_config_ip := ip,
      ds_config_connected := conn\<rparr>)"
    using state_ok_default [of mqtt] by (simp add: state_ok_def watched_def)
  then show ?case
    using start by (simp add: fixed_part_def device_state_default_def)
next
  case (command st cmd r st')
  then show ?case
    using run_command_result [OF assms(1) _ command.hyps(2)] run_command_monotone [OF command.hyps(2)]
    by (simp add: monotone_step_def)
qed

section \<open>Batches as sequences of commands\<close>

fun run_each :: "heapless \<Rightarrow> command_inner list \<Rightarrow> device_state \<Rightarrow> (response list \<times> device_state) exec" where
  "run_each hl [] st = Ret ([], st)"
| "run_each hl (c # cs) st =
     bind_exec (run_command hl (to_command c) st) (\<lambda>(r, st').
     bind_exec (run_each hl cs st') (\<lambda>(rs, st''). Ret (r # rs, st'')))"

lemma dispatch_inner_eq:
  assumes "heapless_ok hl" "length responses + length cs \<le> MAX_BATCH_SIZE"
  shows "dispatch_inner hl cs responses st =
     bind_exec (run_each hl cs st) (\<lambda>(rs, st'). Ret (responses @ rs, st'))"
  using assms(2)
proof (induction cs arbitrary: responses st)
  case (Cons c cs)
  have push: "hl_push_response hl MAX_BATCH_SIZE responses r = (responses @ [r], Ok ())" for r
    using appends_fits [OF heapless_okD(4) [OF assms(1)], of responses r] Cons.prems by simp
  show ?case
    using Cons.prems
    by (simp add: run_command_def [symmetric] push Cons.IH bind_exec_assoc case_prod_beta' Let_def)
qed simp

lemma run_each_answers:
  assumes "heapless_ok hl" "state_ok st" "list_all (\<lambda>c. payload_fits (c_bytes c)) cs"
  shows "\<exists>rs st'. run_each hl cs st = Ret (rs, st') \<and> state_ok st' \<and>
     list_all2 (\<lambda>c r. wf_response (c_id c) r) cs rs"
  using assms(2,3)
proof (induction cs arbitrary: st)
  case (Cons c cs)
  obtain r st' where r: "run_command hl (to_command c) st = Ret (r, st')" "wf_response (c_id c) r" "state_ok st'"
    using run_command_answers [OF assms(1) Cons.prems(1), of "to_command c"] Cons.prems(2)
    by (auto simp: answers_def)
  obtain rs st'' where "run_each hl cs st' = Ret (rs, st'')" "state_ok st''"
      "list_all2 (\<lambda>c r. wf_response (c_id c) r) cs rs"
    using Cons.IH [OF r(3)] Cons.prems(2) by auto
  then show ?case
    using r by auto
qed simp

section \<open>Properties\<close>


definition sample_subscribe :: command where
  "sample_subscribe =
     blank_command ''s1''\<lparr>c_interface := Some ''adc'', c_action := Some ''subscribe'',
       c_adc_channel := Some Ch1\<rparr>"

lemma sample_subscribe_facts:
  "validate_route sample_subscribe = Ok (''adc'', ''subscribe'')"
  "payload_fits (c_bytes sample_subscribe)"
  by (simp_all add: validate_route_def sample_subscribe_def blank_command_def to_command_def
      VALID_ROUTES_def payload_fits_def)


text \<open>C8: A command that passed \<open>validate_route\<close> never reaches \<open>unreachable!()\<close> and never
  indexes out of range: \<open>dispatch\<close> answers with the command's identifier, an error exactly when
  it fails and no data then, and leaves a valid state. It can panic for one reason only, a write
  whose payload text decodes to more than 512 bytes.\<close>

theorem dispatch_safe:
  assumes "heapless_ok hl" "state_ok st" "validate_route cmd = Ok route"
  shows "case dispatch hl cmd route st of
       Ret (r, st') \<Rightarrow> wf_response (c_id cmd) r \<and> state_ok st'
     | Panic \<Rightarrow> route \<in> set write_routes \<and> \<not> payload_fits (c_bytes cmd)"
  using dispatch_result [OF assms(1,2), of route cmd] dispatch_Panic [OF assms(1,2), of route cmd] assms(3)
  by (auto simp: validate_route_Ok split: exec.split)

theorem dispatch_safe_witness:
  "case dispatch heapless_lists sample_subscribe (''adc'', ''subscribe'') (device_state_default True) of
       Ret (r, st') \<Rightarrow> wf_response (c_id sample_subscribe) r \<and> state_ok st'
     | Panic \<Rightarrow> (''adc'', ''subscribe'') \<in> set write_routes \<and> \<not> payload_fits (c_bytes sample_subscribe)"
  by (rule dispatch_safe [OF heapless_lists_ok state_ok_default sample_subscribe_facts(1)])

text \<open>C36: The panic is real and a client can cause it: once a UART is configured, a write of a
  payload of 513 bytes, whose base64 text of 684 characters leaves room in a frame of 1024,
  makes \<open>dispatch\<close> panic.\<close>

theorem oversized_write_panics:
  assumes "length bs = 513" "c_bytes cmd = Some (of_bytes (b64_text bs))"
    and "c_uart cmd = Some i" "i \<le> 1" "unat i \<in> units uc_configured (ds_uart st)"
  shows "length (of_bytes (b64_text bs)) = 684 \<and> dispatch hl cmd (''uart'', ''write'') st = Panic"
proof -
  have "decode_bytes hl cmd (c_bytes cmd) = Panic"
    unfolding assms(2)
    by (rule decode_bytes_overrun [where bs = bs]) (simp_all add: b64_bytes_text assms(1) limit_defs)
  then show ?thesis
    using assms by (simp add: dispatch_write peripheral_write_def validate_defs validate_index_def
        units_def get_at_Ret uart_handle_write_def keep_def length_b64_text)
qed

definition sample_write :: command where
  "sample_write =
     blank_command ''w1''\<lparr>c_uart := Some 1, c_bytes := Some (of_bytes (b64_text (replicate 513 7)))\<rparr>"

theorem oversized_write_panics_witness:
  "length (of_bytes (b64_text (replicate 513 7))) = 684 \<and>
   dispatch heapless_lists sample_write (''uart'', ''write'')
     (device_state_default False\<lparr>ds_uart := [uart_config_default, uart_config_default\<lparr>uc_configured := True\<rparr>]\<rparr>)
     = Panic"
  by (rule oversized_write_panics [where i = 1])
    (simp_all add: sample_write_def blank_command_def to_command_def units_def uart_config_default_def)

text \<open>C12: Whatever commands a client sends, in every state of the session the two configurations of
  each bus are valid, there are at most eight subscriptions, all to different things, and what the
  firmware knows of its network is unchanged; the USB flag is never set, so every USB write is
  refused.\<close>

theorem session_invariant:
  assumes "heapless_ok hl" "session_state hl mqtt net st"
  shows "state_ok st \<and>
     (ds_config_ssid st, ds_config_ip st, ds_config_connected st) = net \<and>
     dispatch hl cmd (''usb'', ''write'') st = Ret (response_error (c_id cmd) ERROR_NOT_CONFIGURED, st)"
  using session_state_invariant [OF assms]
  by (simp add: fixed_part_def dispatch_write usb_handle_write_def keep_def)

theorem session_invariant_witness:
  "\<exists>st. ds_subscriptions st \<noteq> [] \<and> state_ok st \<and>
     dispatch heapless_lists sample_write (''usb'', ''write'') st =
       Ret (response_error ''w1'' ERROR_NOT_CONFIGURED, st)"
proof -
  let ?net = "(''home'', ''10.0.0.7'', True)"
  let ?st = "(device_state_default False)\<lparr>ds_config_ssid := ''home'', ds_config_ip := ''10.0.0.7'',
     ds_config_connected := True\<rparr>"
  let ?st' = "snd (handle_subscribe heapless_lists ''s1'' (Adc Ch1 100) ?st)"
  have "run_command heapless_lists sample_subscribe ?st =
      Ret (handle_subscribe heapless_lists ''s1'' (Adc Ch1 100) ?st)"
    using sample_subscribe_facts(1)
    by (simp add: run_command_def dispatch_subscribe)
      (simp add: sample_subscribe_def blank_command_def to_command_def)
  then have "run_command heapless_lists sample_subscribe ?st =
      Ret (fst (handle_subscribe heapless_lists ''s1'' (Adc Ch1 100) ?st), ?st')"
    by (simp only: prod.collapse)
  then have "session_state heapless_lists False ?net ?st'"
    by (rule session_state.command [OF session_state.start [OF refl]])
  from session_invariant [OF heapless_lists_ok this, of sample_write]
  have "state_ok ?st' \<and> dispatch heapless_lists sample_write (''usb'', ''write'') ?st' =
      Ret (response_error ''w1'' ERROR_NOT_CONFIGURED, ?st')"
    by (simp add: sample_write_def blank_command_def to_command_def)
  moreover have "ds_subscriptions ?st' \<noteq> []"
    by (simp add: handle_subscribe_eq [OF heapless_lists_ok] watched_def device_state_default_def limit_defs)
  ultimately show ?thesis by blast
qed

text \<open>C33: A batch is refused as a whole when it is absent, empty or longer than 16, without an
  effect; otherwise its answer is the one of its commands run one after the other in the same
  session, whatever each of them answers.\<close>

theorem dispatch_batch_sequential:
  assumes "heapless_ok hl"
  shows "dispatch_batch hl cmd st =
     (case c_commands cmd of
        None \<Rightarrow> Ret (batch_refusal cmd ERROR_BATCH_EMPTY, st)
      | Some cs \<Rightarrow>
          if cs = [] then Ret (batch_refusal cmd ERROR_BATCH_EMPTY, st)
          else if 16 < length cs then Ret (batch_refusal cmd ERROR_BATCH_TOO_LARGE, st)
          else bind_exec (run_each hl cs st) (\<lambda>(rs, st').
                 Ret (\<lparr>b_id = c_id cmd, b_ok = True, b_responses = rs, b_error = None\<rparr>, st')))"
  using dispatch_inner_eq [OF assms, of "[]"]
  by (simp add: dispatch_batch_def bind_exec_assoc case_prod_beta' limit_defs split: option.split)

definition sample_batch :: command where
  "sample_batch =
     blank_command ''b''\<lparr>c_commands := Some [command_inner.truncate sample_subscribe, command_inner.truncate sample_subscribe]\<rparr>"

theorem dispatch_batch_sequential_witness:
  "dispatch_batch heapless_lists sample_batch (device_state_default True) =
     bind_exec (run_each heapless_lists
         [command_inner.truncate sample_subscribe, command_inner.truncate sample_subscribe]
         (device_state_default True))
       (\<lambda>(rs, st'). Ret (\<lparr>b_id = ''b'', b_ok = True, b_responses = rs, b_error = None\<rparr>, st'))"
  using dispatch_batch_sequential [OF heapless_lists_ok, of sample_batch "device_state_default True"]
  by (simp add: sample_batch_def blank_command_def to_command_def del: run_each.simps)

text \<open>When every payload of a batch of 1 to 16 commands fits, the batch returns one answer for
  each command, in order and with its identifier, a nested batch included, and a valid state.\<close>

theorem dispatch_batch_answers:
  assumes "heapless_ok hl" "state_ok st" "c_commands cmd = Some cs" "cs \<noteq> []" "length cs \<le> MAX_BATCH_SIZE"
    and "list_all (\<lambda>c. payload_fits (c_bytes c)) cs"
  shows "\<exists>rs st'. dispatch_batch hl cmd st =
       Ret (\<lparr>b_id = c_id cmd, b_ok = True, b_responses = rs, b_error = None\<rparr>, st') \<and>
     list_all2 (\<lambda>c r. wf_response (c_id c) r) cs rs \<and> state_ok st'"
  using run_each_answers [OF assms(1,2,6)] dispatch_inner_eq [OF assms(1), of "[]" cs st] assms(3-5)
  by (auto simp: dispatch_batch_def)

theorem dispatch_batch_answers_witness:
  "\<exists>rs st'. dispatch_batch heapless_lists sample_batch (device_state_default True) =
       Ret (\<lparr>b_id = ''b'', b_ok = True, b_responses = rs, b_error = None\<rparr>, st') \<and>
     map r_id rs = [''s1'', ''s1''] \<and> state_ok st'"
proof -
  let ?c = "command_inner.truncate sample_subscribe"
  have "c_commands sample_batch = Some [?c, ?c]" "c_id sample_batch = ''b''"
    "c_id ?c = ''s1''" "payload_fits (c_bytes ?c)"
    by (simp_all add: sample_batch_def sample_subscribe_def blank_command_def to_command_def
        command_inner.truncate_def payload_fits_def)
  then show ?thesis
    using dispatch_batch_answers [OF heapless_lists_ok state_ok_default, of sample_batch "[?c, ?c]" True]
    by (auto simp: list_all2_Cons1 wf_response_def limit_defs)
qed


text \<open>Subscribing and then unsubscribing gives the session back as it was, when nothing of the
  same channel was watched before.\<close>

theorem subscribe_unsubscribe:
  assumes "heapless_ok hl" "WatchAdc ch \<notin> set (watched st)"
    and "length (ds_subscriptions st) < MAX_SUBSCRIPTIONS"
  shows "case handle_subscribe hl i (Adc ch ms) st of
     (r, st') \<Rightarrow> r = response_ok i None \<and> handle_unsubscribe_adc hl j ch st' = (response_ok j None, st)"
proof -
  have "filter (\<lambda>s. watched_of (s_target s) \<noteq> WatchAdc ch) (ds_subscriptions st) = ds_subscriptions st"
    using assms(2) by (auto simp: watched_member filter_id_conv)
  then show ?thesis
    using assms by (simp add: handle_subscribe_eq handle_unsubscribe_adc_eq unsubscribe_def
        drop_watches_def watched_def)
qed

theorem subscribe_unsubscribe_witness:
  "case handle_subscribe heapless_lists ''s1'' (Adc Temp 50) (device_state_default False) of
     (r, st') \<Rightarrow> r = response_ok ''s1'' None \<and>
       handle_unsubscribe_adc heapless_lists ''u1'' Temp st' =
         (response_ok ''u1'' None, device_state_default False)"
  by (rule subscribe_unsubscribe [OF heapless_lists_ok])
    (simp_all add: watched_def device_state_default_def limit_defs)

end
