(* ===== verification/Codec.thy ===== *)
theory Codec
  imports F32 Interfaces
begin

text \<open>
  \<open>src/codec.rs\<close>: the trait \<open>Codec\<close> as a locale, the JSON codec and the postcard codec as its
  interpretations, and \<open>BinaryResponse\<close>, the flat form of a response the postcard codec sends. The
  crates \<open>serde_json_core\<close> and \<open>postcard\<close> are arguments.
\<close>

section \<open>The interface\<close>

text \<open>What a transport relies on: a response that fits its types is serialised without a panic, the
  buffer keeps its size, and the length of the text lies within it.\<close>

locale codec =
  fixes parse :: "u8 list \<Rightarrow> (command, str) result"
    and serialise :: "response \<Rightarrow> u8 list \<Rightarrow> ((nat, str) result \<times> u8 list) exec"
  assumes serialise_total: "response_fits r \<Longrightarrow>
      \<exists>res buf'. serialise r buf = Ret (res, buf') \<and> length buf' = length buf \<and>
        (\<forall>n. res = Ok n \<longrightarrow> n \<le> length buf) \<and> (\<forall>e. res = Err e \<longrightarrow> e = ERROR_MSG_TOO_LARGE)"
begin

text \<open>So the slice a transport writes is there.\<close>

lemma serialised_slice:
  assumes "response_fits r" "serialise r buf = Ret (Ok n, buf')"
  shows "slice buf' 0 n = Ret (take n buf')"
  using serialise_total [OF assms(1), of buf] assms(2) by (auto simp: slice_def)

end

section \<open>JSON\<close>

definition json_parse_command :: "from_slice \<Rightarrow> u8 list \<Rightarrow> (command, str) result" where
  "json_parse_command from_slice bytes = parse_command from_slice bytes"

definition json_serialize_response ::
  "to_slice \<Rightarrow> response \<Rightarrow> u8 list \<Rightarrow> ((nat, str) result \<times> u8 list) exec" where
  "json_serialize_response to_slice resp buf = serialize_response to_slice resp buf"

section \<open>Bits of a float\<close>

text \<open>
  \<open>f32::to_bits\<close> and \<open>f32::from_bits\<close> on the finite floats that are zero or normal: the sign, the
  exponent plus 127, and the 23 bits after the leading one.
\<close>

definition f32_to_bits :: "f32 \<Rightarrow> u32" where
  "f32_to_bits x =
     (if x = 0 then 0
      else let e = f32_exponent x; m = nat \<lfloor>\<bar>x\<bar> * 2 powi (23 - e)\<rfloor>
           in of_nat ((if x < 0 then 2 ^ 31 else 0) + nat (e + 127) * 2 ^ 23 + (m - 2 ^ 23)))"

definition f32_from_bits :: "u32 \<Rightarrow> f32" where
  "f32_from_bits w =
     (let n = unat w; e = int (n div 2 ^ 23 mod 2 ^ 8) - 127; m = n mod 2 ^ 23
      in if n mod 2 ^ 31 = 0 then 0
         else (if n < 2 ^ 31 then 1 else - 1) * of_nat (2 ^ 23 + m) * 2 powi (e - 23))"

text \<open>The zero and the normal floats.\<close>

definition f32_normal :: "f32 \<Rightarrow> bool" where
  "f32_normal x \<longleftrightarrow>
     x = 0 \<or> (\<exists>m e s. 2 ^ 23 \<le> (m :: nat) \<and> m < 2 ^ 24 \<and> -126 \<le> e \<and> e \<le> 127 \<and>
        (s = 1 \<or> s = -1) \<and> x = s * of_nat m * 2 powi (e - 23))"

lemma powi_mult: "(2 :: rat) powi a * 2 powi b = 2 powi (a + b)"
  by (simp add: power_int_add)

lemma exponent_unique:
  assumes "x \<noteq> 0" "(2 :: rat) powi e \<le> \<bar>x\<bar>" "\<bar>x\<bar> < 2 powi (e + 1)"
  shows "f32_exponent x = e"
proof -
  note b = f32_exponent_bounds [OF assms(1)]
  have "(2 :: rat) powi f32_exponent x < 2 powi (e + 1)" "(2 :: rat) powi e < 2 powi (f32_exponent x + 1)"
    using b assms(2,3) by linarith+
  then have "\<not> e + 1 \<le> f32_exponent x" "\<not> f32_exponent x + 1 \<le> e"
    using power_int_increasing [of "e + 1" "f32_exponent x" "2 :: rat"]
      power_int_increasing [of "f32_exponent x + 1" e "2 :: rat"] by linarith+
  then show ?thesis by linarith
qed

lemma f32_bits_roundtrip:
  assumes "f32_normal x"
  shows "f32_from_bits (f32_to_bits x) = x"
proof (cases "x = 0")
  case True
  then show ?thesis
    by (simp add: f32_to_bits_def f32_from_bits_def)
next
  case False
  then obtain m e s where m: "2 ^ 23 \<le> (m :: nat)" "m < 2 ^ 24" "-126 \<le> e" "e \<le> 127"
    and s: "s = 1 \<or> s = -1" and x: "x = s * of_nat m * 2 powi (e - 23)"
    using assms by (auto simp: f32_normal_def)
  have ax: "\<bar>x\<bar> = of_nat m * 2 powi (e - 23)"
    using s by (auto simp: x abs_mult)
  have "(2 ^ 23 :: rat) \<le> of_nat m" "of_nat m < (2 ^ 24 :: rat)"
    using m(1,2) by (metis of_nat_le_iff of_nat_numeral of_nat_power, metis of_nat_less_iff of_nat_numeral of_nat_power)
  then have "(2 :: rat) ^ 23 * 2 powi (e - 23) \<le> \<bar>x\<bar>" "\<bar>x\<bar> < 2 ^ 24 * 2 powi (e - 23)"
    unfolding ax by (simp_all add: mult_right_mono mult_strict_right_mono)
  moreover have "(2 :: rat) ^ 23 * 2 powi (e - 23) = 2 powi e" "(2 :: rat) ^ 24 * 2 powi (e - 23) = 2 powi (e + 1)"
  proof -
    have "(2 :: rat) ^ 23 = 2 powi 23" "(2 :: rat) ^ 24 = 2 powi 24"
      by simp_all
    then show "(2 :: rat) ^ 23 * 2 powi (e - 23) = 2 powi e" "(2 :: rat) ^ 24 * 2 powi (e - 23) = 2 powi (e + 1)"
      by (simp_all only: powi_mult) (simp_all add: add.commute)
  qed
  ultimately have e: "f32_exponent x = e"
    using exponent_unique [OF False] by simp
  have "\<bar>x\<bar> * 2 powi (23 - e) = of_nat m"
    using powi_mult [of "e - 23" "23 - e"] by (simp add: ax mult.assoc)
  then have mant: "nat \<lfloor>\<bar>x\<bar> * 2 powi (23 - f32_exponent x)\<rfloor> = m"
    by (simp add: e)
  define k where "k = nat (e + 127)"
  have k: "1 \<le> k" "k \<le> 254" "e = int k - 127"
    using m(3,4) by (simp_all add: k_def)
  define b where "b = (if x < 0 then 1 else 0 :: nat)"
  define f where "f = m - 2 ^ 23"
  have f: "f < 2 ^ 23" "m = 2 ^ 23 + f"
    using m(1,2) by (simp_all add: f_def)
  let ?n = "b * 2 ^ 31 + k * 2 ^ 23 + f"
  have bits: "f32_to_bits x = of_nat ?n"
    unfolding f32_to_bits_def Let_def mant unfolding e using False by (simp add: k_def b_def f_def)
  have "?n < 2 ^ 32"
    using f(1) k(2) by (simp add: b_def)
  then have n: "unat (f32_to_bits x) = ?n"
    unfolding bits by (simp only: unat_of_nat) simp
  have "k * 2 ^ 23 + f < 2 ^ 31"
    using f(1) k(2) by simp
  then have "(b * 2 ^ 31 + (k * 2 ^ 23 + f)) mod 2 ^ 31 = k * 2 ^ 23 + f"
    by (simp only: mod_mult_self3 mod_less)
  moreover have "((b * 2 ^ 8 + k) * 2 ^ 23 + f) mod 2 ^ 23 = f"
    using f(1) by (simp only: mod_mult_self3 mod_less)
  ultimately have "?n div 2 ^ 23 = b * 2 ^ 8 + k" "?n mod 2 ^ 23 = f" "?n mod 2 ^ 31 = k * 2 ^ 23 + f"
    "?n < 2 ^ 31 \<longleftrightarrow> \<not> x < 0"
    using f(1) k(2) by (simp_all add: b_def algebra_simps)
  moreover have "\<not> (2 :: rat) powi i < 0" for i
    by (simp add: not_less)
  ultimately show ?thesis
    using k f(2) s m(1) unfolding f32_from_bits_def n Let_def
    by (auto simp: x b_def zero_less_mult_iff mult_less_0_iff)
qed

section \<open>Postcard\<close>

datatype binary_data =
    BGpioRead u8
  | BAdcRead u16 u32
  | BAdcTemp u32
  | BBytes "u8 list"
  | BVersion str
  | BConfig

record binary_response =
  br_id :: str
  br_ok :: bool
  br_error :: "str option"
  br_data :: "binary_data option"

fun binary_data_of :: "response_data \<Rightarrow> binary_data" where
  "binary_data_of (GpioRead v) = BGpioRead v"
| "binary_data_of (AdcRead raw voltage) = BAdcRead raw (f32_to_bits voltage)"
| "binary_data_of (AdcTemp celsius) = BAdcTemp (f32_to_bits celsius)"
| "binary_data_of (Bytes bs) = BBytes bs"
| "binary_data_of (Version v) = BVersion v"
| "binary_data_of (Config ssid ip conn mqtt) = BConfig"

definition from_response :: "response \<Rightarrow> binary_response" where
  "from_response resp =
     \<lparr>br_id = r_id resp, br_ok = r_ok resp, br_error = r_error resp,
      br_data = map_option binary_data_of (r_data resp)\<rparr>"

text \<open>The crate's two functions: a command from bytes, and the bytes of a value put into a buffer,
  none when they do not fit.\<close>

record postcard =
  pc_from_bytes :: "u8 list \<Rightarrow> command option"
  pc_response :: "binary_response \<Rightarrow> u8 list \<Rightarrow> nat option \<times> u8 list"
  pc_command :: "command \<Rightarrow> u8 list \<Rightarrow> nat option \<times> u8 list"

definition postcard_parse_command :: "postcard \<Rightarrow> u8 list \<Rightarrow> (command, str) result" where
  "postcard_parse_command pc bytes = ok_or ERROR_MALFORMED_JSON (pc_from_bytes pc bytes)"

definition postcard_result :: "nat option \<times> u8 list \<Rightarrow> (nat, str) result \<times> u8 list" where
  "postcard_result r =
     (case r of (None, buf) \<Rightarrow> (Err ERROR_MSG_TOO_LARGE, buf) | (Some n, buf) \<Rightarrow> (Ok n, buf))"

definition postcard_serialize_response ::
  "postcard \<Rightarrow> response \<Rightarrow> u8 list \<Rightarrow> ((nat, str) result \<times> u8 list) exec" where
  "postcard_serialize_response pc resp buf = Ret (postcard_result (pc_response pc (from_response resp) buf))"

definition encode_command_postcard ::
  "postcard \<Rightarrow> command \<Rightarrow> u8 list \<Rightarrow> (nat, str) result \<times> u8 list" where
  "encode_command_postcard pc cmd buf = postcard_result (pc_command pc cmd buf)"

text \<open>A crate whose serialiser keeps the buffer and stays in it.\<close>

definition postcard_ok :: "postcard \<Rightarrow> bool" where
  "postcard_ok pc \<longleftrightarrow>
     (\<forall>v buf. length (snd (pc_response pc v buf)) = length buf) \<and>
     (\<forall>v buf n. fst (pc_response pc v buf) = Some n \<longrightarrow> n \<le> length buf)"

section \<open>Both are codecs\<close>

lemma json_serialise_total:
  assumes "to_slice_ok json to_slice" "response_fits r"
  shows "\<exists>res buf'. serialize_response to_slice r buf = Ret (res, buf') \<and> length buf' = length buf \<and>
     (\<forall>n. res = Ok n \<longrightarrow> n \<le> length buf) \<and> (\<forall>e. res = Err e \<longrightarrow> e = ERROR_MSG_TOO_LARGE)"
proof -
  obtain v where "response_ser r = Ret v"
    using response_ser_total [OF assms(2)] by blast
  then show ?thesis
    using finish_line_fits [OF assms(1), of v buf] finish_line_overflow [OF assms(1), of buf v]
    by (cases "length (json v) < length buf") (auto simp: serialize_response_def)
qed

lemma postcard_serialise_total:
  assumes "postcard_ok pc"
  shows "\<exists>res buf'. postcard_serialize_response pc r buf = Ret (res, buf') \<and> length buf' = length buf \<and>
     (\<forall>n. res = Ok n \<longrightarrow> n \<le> length buf) \<and> (\<forall>e. res = Err e \<longrightarrow> e = ERROR_MSG_TOO_LARGE)"
proof -
  obtain o' buf' where r: "pc_response pc (from_response r) buf = (o', buf')"
    by fastforce
  have "length buf' = length buf" "\<And>n. o' = Some n \<Longrightarrow> n \<le> length buf"
    using assms r unfolding postcard_ok_def by (metis snd_conv, metis fst_conv)
  then show ?thesis
    by (cases o') (auto simp: postcard_serialize_response_def postcard_result_def r)
qed

text \<open>The two codecs of the code; the arguments behave as documented, or stand for ones that do.\<close>

interpretation json_codec: codec "json_parse_command from_slice"
  "json_serialize_response (if to_slice_ok json to_slice then to_slice else sample_to_slice)"
  for from_slice json to_slice
  using json_serialise_total [of json to_slice] json_serialise_total [OF sample_to_slice_ok]
  by unfold_locales (auto simp: json_serialize_response_def)

interpretation postcard_codec: codec "postcard_parse_command pc"
  "if postcard_ok pc then postcard_serialize_response pc else (\<lambda>r buf. Ret (Err ERROR_MSG_TOO_LARGE, buf))"
  for pc
  using postcard_serialise_total [of pc] by unfold_locales auto

section \<open>Properties\<close>

text \<open>What a binary client makes of the bytes.\<close>

fun data_of_binary :: "binary_data \<Rightarrow> response_data option" where
  "data_of_binary (BGpioRead v) = Some (GpioRead v)"
| "data_of_binary (BAdcRead raw w) = Some (AdcRead raw (f32_from_bits w))"
| "data_of_binary (BAdcTemp w) = Some (AdcTemp (f32_from_bits w))"
| "data_of_binary (BBytes bs) = Some (Bytes bs)"
| "data_of_binary (BVersion v) = Some (Version v)"
| "data_of_binary BConfig = None"

definition response_of_binary :: "binary_response \<Rightarrow> response" where
  "response_of_binary b =
     \<lparr>r_id = br_id b, r_ok = br_ok b,
      r_data = Option.bind (br_data b) data_of_binary, r_error = br_error b\<rparr>"

fun floats_normal :: "response_data option \<Rightarrow> bool" where
  "floats_normal (Some (AdcRead raw v)) = f32_normal v"
| "floats_normal (Some (AdcTemp c)) = f32_normal c"
| "floats_normal _ = True"

definition is_config :: "response_data option \<Rightarrow> bool" where
  "is_config d = (case d of Some (Config a b c m) \<Rightarrow> True | _ \<Rightarrow> False)"

text \<open>C39: The flat form of a response loses nothing but the network report: a client that turns the bits
  back into floats reads the response that was sent, and a network report without its contents.\<close>

theorem binary_response_roundtrip:
  assumes "floats_normal (r_data resp)"
  shows "response_of_binary (from_response resp) =
     (if is_config (r_data resp) then resp\<lparr>r_data := None\<rparr> else resp)"
proof (cases "r_data resp")
  case (Some d)
  then show ?thesis
    using assms f32_bits_roundtrip
    by (cases d) (auto simp: response_of_binary_def from_response_def is_config_def)
qed (simp add: response_of_binary_def from_response_def is_config_def)

theorem binary_response_roundtrip_witness:
  "response_of_binary (from_response (response_ok ''7'' (Some (AdcRead 2048 (3 / 2))))) =
     response_ok ''7'' (Some (AdcRead 2048 (3 / 2)))"
proof -
  have "f32_normal (3 / 2)"
    unfolding f32_normal_def
    by (rule disjI2) (rule exI [of _ "3 * 2 ^ 22"], rule exI [of _ 0], rule exI [of _ 1], simp)
  then show ?thesis
    using binary_response_roundtrip [of "response_ok ''7'' (Some (AdcRead 2048 (3 / 2)))"]
    by (simp add: response_ok_def is_config_def)
qed



end
