(* ===== verification/Dhcp.thy ===== *)
theory Dhcp
  imports Prelude
begin

text \<open>
  The DHCP server of the access point (\<open>dhcp_server\<close>, \<open>dhcp_option_u8\<close> and \<open>build_dhcp_reply\<close>
  of \<open>src/net.rs\<close>), which hands the one client its address. \<open>find_option\<close> is the reference
  reading of a list of options.
\<close>

section \<open>Requests\<close>

definition AP_IP :: "u8 list" where "AP_IP = [192, 168, 4, 1]"
definition DHCP_CLIENT_IP :: "u8 list" where "DHCP_CLIENT_IP = [192, 168, 4, 2]"
definition SUBNET_MASK :: "u8 list" where "SUBNET_MASK = [255, 255, 255, 0]"

text \<open>The loop over the options, with its position.\<close>

function option_loop :: "u8 list \<Rightarrow> u8 \<Rightarrow> nat \<Rightarrow> u8 option exec" where
  "option_loop pkt opt_code i =
     (if i < length pkt then
        bind_exec (get_at pkt i) (\<lambda>opt.
          if opt = 255 then Ret None
          else if opt = 0 then option_loop pkt opt_code (i + 1)
          else if i + 1 \<ge> length pkt then Ret None
          else bind_exec (get_at pkt (i + 1)) (\<lambda>l.
            let len = unat l in
            if opt = opt_code \<and> len \<ge> 1 \<and> i + 2 < length pkt
            then bind_exec (get_at pkt (i + 2)) (\<lambda>v. Ret (Some v))
            else option_loop pkt opt_code (i + (2 + len))))
      else Ret None)"
  by pat_completeness auto
termination
  by (relation "measure (\<lambda>(pkt, opt_code, i). length pkt - i)") auto

declare option_loop.simps [simp del]

definition dhcp_option_u8 :: "u8 list \<Rightarrow> u8 \<Rightarrow> u8 option exec" where
  "dhcp_option_u8 pkt opt_code =
     (if length pkt < 240 then Ret None else option_loop pkt opt_code 240)"

section \<open>Replies\<close>

text \<open>The stores of \<open>build_dhcp_reply\<close> in their order; consecutive single stores are one entry.\<close>

definition reply_stores :: "u8 list \<Rightarrow> u8 list \<Rightarrow> u8 \<Rightarrow> (nat \<times> u8 list) list" where
  "reply_stores xid chaddr msg_type =
     [(0, [2, 1, 6]), (4, xid), (16, DHCP_CLIENT_IP), (20, AP_IP), (28, chaddr),
      (236, [99, 130, 83, 99]),
      (240, [53, 1, if msg_type = 1 then 2 else 5]),
      (243, [54, 4]), (245, AP_IP),
      (249, [51, 4, 0, 0, 0x0E, 0x10]),
      (255, [1, 4]), (257, SUBNET_MASK),
      (261, [3, 4]), (263, AP_IP),
      (267, [255])]"

definition build_dhcp_reply :: "u8 list \<Rightarrow> u8 \<Rightarrow> u8 list exec" where
  "build_dhcp_reply req msg_type =
     bind_exec (slice req 4 8) (\<lambda>xid.
     bind_exec (get_at req 2) (\<lambda>l.
     let chaddr_len = unat l in
     bind_exec
       (if chaddr_len \<le> 16 \<and> 28 + chaddr_len \<le> length req
        then slice req 28 (28 + chaddr_len) else Ret [])
       (\<lambda>chaddr. store_all (replicate 300 0) (reply_stores xid chaddr msg_type))))"

text \<open>
  One round of \<open>dhcp_server\<close>: the buffer, the number of bytes received into it, and the reply
  sent, if any.
\<close>

definition dhcp_server_round :: "u8 list \<Rightarrow> nat \<Rightarrow> u8 list option exec" where
  "dhcp_server_round pkt n =
     (if n < 236 then Ret None
      else bind_exec (get_at pkt 0) (\<lambda>op.
        if op \<noteq> 1 then Ret None
        else bind_exec (slice pkt 0 n) (\<lambda>req.
          bind_exec (dhcp_option_u8 req 53) (\<lambda>t.
            let msg_type = unwrap_or 0 t in
            if msg_type \<noteq> 1 \<and> msg_type \<noteq> 3 then Ret None
            else bind_exec (build_dhcp_reply req msg_type) (\<lambda>reply. Ret (Some reply))))))"

section \<open>The reference reading of the options\<close>

function find_option :: "u8 \<Rightarrow> u8 list \<Rightarrow> u8 option" where
  "find_option code [] = None"
| "find_option code (b # bs) =
     (if b = 255 then None
      else if b = 0 then find_option code bs
      else case bs of
             [] \<Rightarrow> None
           | l # r \<Rightarrow>
               (if b = code \<and> l \<noteq> 0 \<and> r \<noteq> [] then Some (hd r)
                else find_option code (drop (unat l) r)))"
  by pat_completeness auto
termination
  by (relation "measure (\<lambda>(code, bs). length bs)") auto

lemma option_loop_eq: "option_loop pkt code i = Ret (find_option code (drop i pkt))"
proof (induction "length pkt - i" arbitrary: i rule: less_induct)
  case less
  show ?case
  proof (cases "i < length pkt")
    case False
    then show ?thesis
      by (subst option_loop.simps) simp
  next
    case True
    then have d: "drop i pkt = pkt ! i # drop (Suc i) pkt"
      by (simp add: Cons_nth_drop_Suc)
    show ?thesis
    proof (cases "pkt ! i = 255 \<or> pkt ! i = 0 \<or> length pkt \<le> Suc i")
      case short: True
      then show ?thesis
        using True less [of "Suc i"]
        by (subst option_loop.simps) (auto simp: d get_at_def)
    next
      case False
      then have d2: "drop (Suc i) pkt = pkt ! Suc i # drop (Suc (Suc i)) pkt"
        by (simp add: Cons_nth_drop_Suc)
      have ne: "(1 \<le> unat (pkt ! Suc i)) = (pkt ! Suc i \<noteq> 0)"
        by (simp add: Suc_le_eq unat_gt_0)
      have IH: "option_loop pkt code (i + (2 + unat (pkt ! Suc i))) =
          Ret (find_option code (drop (unat (pkt ! Suc i)) (drop (Suc (Suc i)) pkt)))"
        using less [of "i + (2 + unat (pkt ! Suc i))"] True by (simp add: add.commute)
      show ?thesis
        using True False IH ne
        by (subst option_loop.simps)
          (auto simp: d d2 get_at_def Let_def hd_drop_conv_nth drop_eq_Nil)
    qed
  qed
qed

section \<open>The reply\<close>

text \<open>The client's hardware address as the reply repeats it.\<close>

definition client_hw :: "u8 list \<Rightarrow> u8 list" where
  "client_hw req =
     (let l = unat (req ! 2)
      in if l \<le> 16 \<and> 28 + l \<le> length req then take l (drop 28 req) else [])"

lemma length_client_hw: "length (client_hw req) \<le> 16"
  by (auto simp: client_hw_def Let_def)

lemma store_all_reply:
  assumes "length xid = 4" "length chaddr \<le> 16"
  shows "store_all (replicate 300 0) (reply_stores xid chaddr t) =
    Ret (layout 0 300 0 (reply_stores xid chaddr t))"
proof -
  have "ascending 300 0 (reply_stores xid chaddr t)"
    using assms
    by (simp add: reply_stores_def DHCP_CLIENT_IP_def AP_IP_def SUBNET_MASK_def)
  from store_all_ascending [OF _ this, of "[]" 0] show ?thesis by simp
qed

lemma build_dhcp_reply_eq:
  assumes "8 \<le> length req"
  shows "build_dhcp_reply req t =
    Ret (layout 0 300 0 (reply_stores (take 4 (drop 4 req)) (client_hw req) t))"
proof -
  have xid: "slice req 4 8 = Ret (take 4 (drop 4 req))" "length (take 4 (drop 4 req)) = 4"
    using assms by (simp_all add: slice_def)
  have hw: "(if unat (req ! 2) \<le> 16 \<and> 28 + unat (req ! 2) \<le> length req
      then slice req 28 (28 + unat (req ! 2)) else Ret []) = Ret (client_hw req)"
    by (simp add: client_hw_def slice_def Let_def)
  have "get_at req 2 = Ret (req ! 2)"
    using assms by (simp add: get_at_def)
  then show ?thesis
    using store_all_reply [OF xid(2) length_client_hw] hw
    by (simp add: build_dhcp_reply_def xid(1) Let_def)
qed

text \<open>The parts of the reply: the fixed header, and what a client reads from its options.\<close>

lemma reply_parts:
  fixes t :: u8
  assumes "length xid = 4" "length chaddr \<le> 16"
  defines "r \<equiv> layout 0 300 0 (reply_stores xid chaddr t)"
  shows "length r = 300" "r ! 0 = 2" "take 4 (drop 4 r) = xid"
    "take 4 (drop 16 r) = DHCP_CLIENT_IP" "take (length chaddr) (drop 28 r) = chaddr"
    "drop 240 r =
       [53, 1, if t = 1 then 2 else 5] @ [54, 4] @ AP_IP @ [51, 4, 0, 0, 0x0E, 0x10] @
       [1, 4] @ SUBNET_MASK @ [3, 4] @ AP_IP @ [255] @ replicate 32 0"
  using assms(1,2)
  by (simp_all add: r_def reply_stores_def DHCP_CLIENT_IP_def AP_IP_def SUBNET_MASK_def)

lemma reply_options:
  fixes t :: u8
  assumes "length xid = 4" "length chaddr \<le> 16"
  defines "r \<equiv> layout 0 300 0 (reply_stores xid chaddr t)"
  shows "dhcp_option_u8 r 53 = Ret (Some (if t = 1 then 2 else 5))"
    "dhcp_option_u8 r 54 = Ret (Some 192)" "dhcp_option_u8 r 1 = Ret (Some 255)"
  using reply_parts(1,6) [OF assms(1,2), of t, folded r_def]
  by (simp_all add: dhcp_option_u8_def option_loop_eq AP_IP_def SUBNET_MASK_def)

text \<open>A received packet the server answers.\<close>

definition dhcp_request :: "u8 list \<Rightarrow> nat \<Rightarrow> bool" where
  "dhcp_request pkt n \<longleftrightarrow>
     240 \<le> n \<and> pkt ! 0 = 1 \<and>
     find_option 53 (drop 240 (take n pkt)) \<in> {Some 1, Some 3}"

lemma dhcp_server_round_eq:
  assumes "n \<le> length pkt"
  shows "dhcp_server_round pkt n =
    Ret (if dhcp_request pkt n
         then Some (layout 0 300 0
                (reply_stores (take 4 (drop 4 (take n pkt))) (client_hw (take n pkt))
                   (if find_option 53 (drop 240 (take n pkt)) = Some 1 then 1 else 3)))
         else None)"
proof (cases "n < 236 \<or> pkt ! 0 \<noteq> 1")
  case True
  then show ?thesis
    using assms by (auto simp: dhcp_server_round_def dhcp_request_def get_at_def)
next
  case False
  have opt: "dhcp_option_u8 (take n pkt) 53 =
      Ret (if n < 240 then None else find_option 53 (drop 240 (take n pkt)))"
    using assms by (simp add: dhcp_option_u8_def option_loop_eq)
  have build: "build_dhcp_reply (take n pkt) t = Ret (layout 0 300 0
      (reply_stores (take 4 (drop 4 (take n pkt))) (client_hw (take n pkt)) t))" for t
    using assms False by (intro build_dhcp_reply_eq) simp
  show ?thesis
    using assms False
    by (cases "find_option 53 (drop 240 (take n pkt))")
      (auto simp: dhcp_server_round_def dhcp_request_def get_at_def slice_def opt build Let_def)
qed


definition sample_discover :: "u8 list" where
  "sample_discover =
     [1, 1, 6, 0, 0xDE, 0xAD, 0xBE, 0xEF] @ replicate 20 0 @ [2, 4, 6, 8, 10, 12] @
     replicate 202 0 @ [99, 130, 83, 99] @ [53, 1, 1, 255]"


end
