(* ===== verification/Sha1.thy ===== *)
theory Sha1
  imports Prelude
begin

text \<open>
  The SHA-1 of \<open>src/ws.rs\<close> (\<open>sha1\<close> and \<open>sha1_block\<close>), the padding done in a 128-byte buffer, and
  its equivalence with the definition of RFC 3174 on the padded message. The block function is
  given 64 bytes, which its indices never leave.
\<close>

section \<open>The code\<close>

type_synonym sha1_state = "u32 \<times> u32 \<times> u32 \<times> u32 \<times> u32"

definition rotate_left :: "nat \<Rightarrow> u32 \<Rightarrow> u32" where
  "rotate_left n x = push_bit n x OR drop_bit (32 - n) x"

definition u32_from_be_bytes :: "u8 \<Rightarrow> u8 \<Rightarrow> u8 \<Rightarrow> u8 \<Rightarrow> u32" where
  "u32_from_be_bytes a b c d =
     push_bit 24 (ucast a) OR push_bit 16 (ucast b) OR push_bit 8 (ucast c) OR ucast d"

definition u32_to_be_bytes :: "u32 \<Rightarrow> u8 list" where
  "u32_to_be_bytes x = map (\<lambda>k. ucast (drop_bit k x)) [24, 16, 8, 0]"

definition u64_to_be_bytes :: "u64 \<Rightarrow> u8 list" where
  "u64_to_be_bytes x = map (\<lambda>k. ucast (drop_bit k x)) [56, 48, 40, 32, 24, 16, 8, 0]"

definition load_word :: "u8 list \<Rightarrow> nat \<Rightarrow> u32" where
  "load_word block i =
     u32_from_be_bytes (block ! (i * 4)) (block ! (i * 4 + 1)) (block ! (i * 4 + 2)) (block ! (i * 4 + 3))"

definition schedule_word :: "nat \<Rightarrow> u32 list \<Rightarrow> u32 list" where
  "schedule_word i w =
     w[i := rotate_left 1 (w ! (i - 3) XOR w ! (i - 8) XOR w ! (i - 14) XOR w ! (i - 16))]"

definition sha1_schedule :: "u8 list \<Rightarrow> u32 list" where
  "sha1_schedule block =
     fold schedule_word [16..<80]
       (fold (\<lambda>i w. w[i := load_word block i]) [0..<16] (replicate 80 0))"

definition sha1_round :: "u32 list \<Rightarrow> nat \<Rightarrow> sha1_state \<Rightarrow> sha1_state" where
  "sha1_round w i = (\<lambda>(a, b, c, d, e).
     let (f, k) =
           (if i \<le> 19 then ((b AND c) OR (NOT b AND d), 0x5A827999)
            else if i \<le> 39 then (b XOR c XOR d, 0x6ED9EBA1)
            else if i \<le> 59 then ((b AND c) OR (b AND d) OR (c AND d), 0x8F1BBCDC)
            else (b XOR c XOR d, 0xCA62C1D6));
         temp = rotate_left 5 a + f + e + k + w ! i
     in (temp, a, rotate_left 30 b, c, d))"

definition add_state :: "sha1_state \<Rightarrow> sha1_state \<Rightarrow> sha1_state" where
  "add_state = (\<lambda>(h0, h1, h2, h3, h4) (a, b, c, d, e). (h0 + a, h1 + b, h2 + c, h3 + d, h4 + e))"

definition sha1_block :: "u8 list \<Rightarrow> sha1_state \<Rightarrow> sha1_state" where
  "sha1_block block h =
     (let w = sha1_schedule block in add_state h (fold (sha1_round w) [0..<80] h))"

definition sha1_init :: sha1_state where
  "sha1_init = (0x67452301, 0xEFCDAB89, 0x98BADCFE, 0x10325476, 0xC3D2E1F0)"

text \<open>The loop over the complete blocks: the offset it stops at and the state.\<close>

function sha1_loop :: "u8 list \<Rightarrow> nat \<Rightarrow> sha1_state \<Rightarrow> (nat \<times> sha1_state) exec" where
  "sha1_loop dat offset h =
     (if offset + 64 \<le> length dat then
        bind_exec (slice dat offset (offset + 64)) (\<lambda>block.
          sha1_loop dat (offset + 64) (sha1_block block h))
      else Ret (offset, h))"
  by pat_completeness auto
termination
  by (relation "measure (\<lambda>(dat, offset, h). length dat - offset)") auto

declare sha1_loop.simps [simp del]

definition state_bytes :: "sha1_state \<Rightarrow> u8 list" where
  "state_bytes = (\<lambda>(a, b, c, d, e). concat (map u32_to_be_bytes [a, b, c, d, e]))"

definition sha1 :: "u8 list \<Rightarrow> u8 list exec" where
  "sha1 dat =
     (let bit_len = of_nat (length dat) * 8
      in bind_exec (sha1_loop dat 0 sha1_init) (\<lambda>(offset, h).
         let remaining = length dat - offset
         in bind_exec (slice dat offset (length dat)) (\<lambda>rest.
            bind_exec (copy_into (replicate 128 0) 0 remaining rest) (\<lambda>pad.
            bind_exec (put_at pad remaining 0x80) (\<lambda>pad.
            let pad_len = (if remaining < 56 then 64 else 128)
            in bind_exec (copy_into pad (pad_len - 8) pad_len (u64_to_be_bytes bit_len)) (\<lambda>pad.
               bind_exec (slice pad 0 64) (\<lambda>b1.
               let h = sha1_block b1 h
               in if pad_len = 128 then
                    bind_exec (slice pad 64 128) (\<lambda>b2. Ret (state_bytes (sha1_block b2 h)))
                  else Ret (state_bytes h))))))))"

section \<open>The definition of RFC 3174\<close>

text \<open>
  The message is padded with a one bit, zeros and its length in bits to a multiple of 64 bytes;
  the state is folded over the blocks.
\<close>

definition sha1_padding :: "nat \<Rightarrow> u8 list" where
  "sha1_padding n = 0x80 # replicate ((119 - n mod 64) mod 64) 0 @ u64_to_be_bytes (of_nat n * 8)"

definition sha1_digest :: "u8 list \<Rightarrow> u8 list" where
  "sha1_digest dat =
     state_bytes (fold sha1_block (fst (as_chunks 64 (dat @ sha1_padding (length dat)))) sha1_init)"

section \<open>Equivalence\<close>

lemma length_u64_to_be_bytes [simp]: "length (u64_to_be_bytes x) = 8"
  by (simp add: u64_to_be_bytes_def)

lemma length_state_bytes [simp]: "length (state_bytes h) = 20"
  by (cases h) (simp add: state_bytes_def u32_to_be_bytes_def)

lemma sha1_padding_length: "64 dvd n + length (sha1_padding n)"
proof -
  have "n + length (sha1_padding n) = n + (119 - n mod 64) mod 64 + 9"
    by (simp add: sha1_padding_def)
  also have "(119 - n mod 64) mod 64 = (if n mod 64 \<le> 55 then 55 - n mod 64 else 119 - n mod 64)"
    by (simp add: le_mod_geq)
  also have "n + \<dots> + 9 = 64 * (n div 64 + (if n mod 64 \<le> 55 then 1 else 2))"
  proof -
    obtain q m where "n = 64 * q + m" "m < 64"
      by (metis mult_div_mod_eq mod_less_divisor zero_less_numeral)
    then show ?thesis
      by auto
  qed
  finally show ?thesis
    by (simp only: dvd_triv_left)
qed

lemma as_chunks_all:
  "0 < n \<Longrightarrow> xs = concat (fst (as_chunks n xs)) @ snd (as_chunks n xs) \<and>
     (\<forall>c \<in> set (fst (as_chunks n xs)). length c = n) \<and> length (snd (as_chunks n xs)) < n"
proof (induction n xs rule: as_chunks.induct)
  case (1 n xs)
  show ?case
  proof (cases "length xs < n")
    case True
    then show ?thesis by (simp add: as_chunks_short)
  next
    case False
    then have "as_chunks n xs =
        (take n xs # fst (as_chunks n (drop n xs)), snd (as_chunks n (drop n xs)))"
      using 1(2) as_chunks_step [of "take n xs" n "drop n xs"] by simp
    moreover have "xs = take n xs @ drop n xs"
      by simp
    ultimately show ?thesis
      using 1 False by (metis (no_types, lifting) append_assoc concat.simps(2) fst_conv
          length_take less_not_refl min.absorb2 not_less set_ConsD snd_conv)
  qed
qed

lemma as_chunks_concat:
  "\<forall>c \<in> set cs. length c = n \<Longrightarrow> 0 < n \<Longrightarrow>
     as_chunks n (concat cs @ ys) = (cs @ fst (as_chunks n ys), snd (as_chunks n ys))"
  by (induction cs) (simp_all add: as_chunks_step)

lemma sha1_loop_eq:
  assumes "length c = 64 * k" "offset = length pre" "length r < 64"
  shows "sha1_loop (pre @ c @ r) offset h =
     Ret (offset + 64 * k, fold sha1_block (fst (as_chunks 64 c)) h)"
  using assms
proof (induction k arbitrary: pre c offset h)
  case 0
  then show ?case
    by (subst sha1_loop.simps) (simp add: as_chunks_short)
next
  case (Suc k)
  have c: "c = take 64 c @ drop 64 c" "length (take 64 c) = 64"
    using Suc.prems(1) by auto
  have cr: "take 64 c @ drop 64 c @ r = c @ r"
    by (simp flip: append_assoc)
  have "sha1_loop (pre @ c @ r) offset h =
      sha1_loop ((pre @ take 64 c) @ drop 64 c @ r) (offset + 64) (sha1_block (take 64 c) h)"
    using Suc.prems by (subst sha1_loop.simps) (simp add: slice_Ret cr)
  then show ?case
    using Suc.IH [of "drop 64 c" "offset + 64" "pre @ take 64 c" "sha1_block (take 64 c) h"]
      Suc.prems as_chunks_step [OF c(2), of "drop 64 c"]
    by simp
qed

lemma pad_first: "n < 128 \<Longrightarrow> (replicate (128 - n) 0)[0 := v] = v # replicate (127 - n) 0"
  by (cases "128 - n") auto

lemma take_pad: "n < k \<Longrightarrow> k \<le> 128 \<Longrightarrow> take (k - n) (v # replicate (127 - n) 0) = v # replicate (k - 1 - n) 0"
  by (cases "k - n") auto

lemma as_chunks_two:
  assumes "length b = 128"
  shows "fst (as_chunks 64 b) = [take 64 b, drop 64 b]"
proof -
  have "length (take 64 b) = 64" "length (drop 64 b) = 64"
    using assms by simp_all
  then show ?thesis
    using as_chunks_step [of "take 64 b" 64 "drop 64 b"] as_chunks_step [of "drop 64 b" 64 "[]"]
    by (simp add: as_chunks_short)
qed

lemma sha1_eq: "sha1 dat = Ret (sha1_digest dat)"
proof -
  define cs r where "cs = fst (as_chunks 64 dat)" and "r = snd (as_chunks 64 dat)"
  have d: "dat = concat cs @ r" "\<forall>c \<in> set cs. length c = 64" "length r < 64"
    using as_chunks_all [of 64 dat] by (simp_all add: cs_def r_def)
  have len: "length (concat cs) = 64 * length cs"
    using d(2) by (induction cs) auto
  have chunks: "fst (as_chunks 64 (concat cs @ ys)) = cs @ fst (as_chunks 64 ys)" for ys
    using as_chunks_concat [OF d(2), of ys] by simp
  define h where "h = fold sha1_block cs sha1_init"
  have loop: "sha1_loop dat 0 sha1_init = Ret (64 * length cs, h)"
    using sha1_loop_eq [of "concat cs" "length cs" 0 "[]" r sha1_init] len d(1,3) chunks [of "[]"]
    by (simp add: h_def as_chunks_short)
  let ?n = "length r" and ?z = "u64_to_be_bytes (of_nat (length dat) * 8)"
  have m: "length dat mod 64 = ?n" "length dat - 64 * length cs = ?n"
    using d(1,3) len by simp_all
  have digest: "sha1_digest dat = state_bytes (fold sha1_block (fst (as_chunks 64 (r @ sha1_padding (length dat)))) h)"
    using chunks [of "r @ sha1_padding (length dat)"] d(1) by (simp add: sha1_digest_def h_def)
  have rest: "slice dat (64 * length cs) (length dat) = Ret r"
    using d(1) len by (simp add: slice_Ret)
  show ?thesis
  proof (cases "?n < 56")
    case True
    have p: "r @ sha1_padding (length dat) = r @ 0x80 # replicate (55 - ?n) 0 @ ?z"
      using True m(1) by (simp add: sha1_padding_def le_mod_geq)
    let ?b = "r @ 0x80 # replicate (55 - ?n) 0 @ ?z"
    have "length ?b = 64"
      using True by simp
    then have "fst (as_chunks 64 ?b) = [?b]"
      using as_chunks_step [of ?b 64 "[]"] by (simp add: as_chunks_short)
    then have "sha1_digest dat = state_bytes (sha1_block ?b h)"
      using digest p by simp
    moreover obtain tl where
      pad: "copy_into ((r @ replicate (128 - ?n) 0)[?n := 0x80]) 56 64 ?z = Ret (?b @ tl)"
      using True d(3) take_pad [of ?n 56 "0x80 :: u8"]
      by (simp add: copy_into_def list_update_append pad_first)
    moreover have "slice (?b @ tl) 0 64 = Ret ?b"
      using \<open>length ?b = 64\<close> by (simp add: slice_def del: append.simps append_assoc)
    moreover have "copy_into (replicate 128 0) 0 ?n r = Ret (r @ replicate (128 - ?n) 0)"
      using d(3) by (simp add: copy_into_def)
    ultimately show ?thesis
      using True d(3)
      by (simp add: sha1_def loop rest m(2) put_at_Ret Let_def del: append_assoc)
  next
    case False
    have p: "r @ sha1_padding (length dat) = r @ 0x80 # replicate (119 - ?n) 0 @ ?z"
      using False d(3) m(1) by (simp add: sha1_padding_def)
    let ?b = "r @ 0x80 # replicate (119 - ?n) 0 @ ?z"
    have "length ?b = 128"
      using False d(3) by simp
    then have two: "sha1_digest dat = state_bytes (sha1_block (drop 64 ?b) (sha1_block (take 64 ?b) h))"
      using digest p as_chunks_two [of ?b] by simp
    have b: "slice ?b 0 64 = Ret (take 64 ?b)" "slice ?b 64 128 = Ret (drop 64 ?b)"
      using \<open>length ?b = 128\<close> by (simp_all add: slice_def del: append.simps append_assoc)
    have pad: "copy_into ((r @ replicate (128 - ?n) 0)[?n := 0x80]) 120 128 ?z = Ret ?b"
      using d(3) take_pad [of ?n 120 "0x80 :: u8"]
      by (simp add: copy_into_def list_update_append pad_first)
    have "copy_into (replicate 128 0) 0 ?n r = Ret (r @ replicate (128 - ?n) 0)"
      using d(3) by (simp add: copy_into_def)
    then show ?thesis
      using False d(3) pad b two
      by (simp add: sha1_def loop rest m(2) put_at_Ret Let_def del: append_assoc)
  qed
qed


section \<open>The message schedule\<close>

text \<open>The words \<open>W(t)\<close> of RFC 3174; the array of the code holds them.\<close>

fun rfc_word :: "u8 list \<Rightarrow> nat \<Rightarrow> u32" where
  "rfc_word block t =
     (if t < 16 then load_word block t
      else rotate_left 1 (rfc_word block (t - 3) XOR rfc_word block (t - 8) XOR
                          rfc_word block (t - 14) XOR rfc_word block (t - 16)))"

declare rfc_word.simps [simp del]

lemma fold_update: "n \<le> m \<Longrightarrow>
   fold (\<lambda>i w. w[i := f i]) [0..<n] (replicate m 0) = map f [0..<n] @ replicate (m - n) 0"
proof (induction n)
  case (Suc n)
  then obtain k where "m - n = Suc k" "m - Suc n = k"
    by (metis Suc_diff_Suc Suc_le_lessD)
  with Suc show ?case
    by (simp add: list_update_append)
qed simp

lemma schedule_words:
  "k \<le> 64 \<Longrightarrow>
   fold schedule_word [16..<16 + k] (map (rfc_word block) [0..<16] @ replicate 64 0) =
     map (rfc_word block) [0..<16 + k] @ replicate (64 - k) 0"
proof (induction k)
  case (Suc k)
  let ?w = "map (rfc_word block) [0..<16 + k]"
  obtain j where j: "64 - k = Suc j" "64 - Suc k = j"
    using Suc.prems by (metis Suc_diff_Suc Suc_le_lessD)
  have "schedule_word (16 + k) (?w @ replicate (64 - k) 0) =
      (?w @ replicate (64 - k) 0)[16 + k := rfc_word block (16 + k)]"
    using rfc_word.simps [of block "16 + k"] by (simp add: schedule_word_def nth_append)
  also have "\<dots> = map (rfc_word block) [0..<16 + Suc k] @ replicate (64 - Suc k) 0"
  proof -
    have "[0..<16 + Suc k] = [0..<16 + k] @ [16 + k]"
      using upt_Suc_append [of 0 "16 + k"] by simp
    then show ?thesis
      by (simp only: j) (simp add: list_update_append)
  qed
  finally have step: "schedule_word (16 + k) (?w @ replicate (64 - k) 0) =
      map (rfc_word block) [0..<16 + Suc k] @ replicate (64 - Suc k) 0" .
  have "[16..<16 + Suc k] = [16..<16 + k] @ [16 + k]"
    using upt_Suc_append [of 16 "16 + k"] by simp
  then show ?case
    using Suc step by (simp only: fold_append fold_simps comp_apply Suc_leD)
qed simp

lemma load_words: "map (load_word block) [0..<16] = map (rfc_word block) [0..<16]"
  by (simp add: rfc_word.simps)

lemma sha1_schedule_rfc: "sha1_schedule block = map (rfc_word block) [0..<80]"
proof -
  have n: "(16 :: nat) \<le> 80" "80 - 16 = (64 :: nat)" "16 + 64 = (80 :: nat)" "64 - 64 = (0 :: nat)"
    by simp_all
  show ?thesis
    using schedule_words [OF order_refl, of block]
    by (simp only: sha1_schedule_def fold_update [OF n(1)] load_words n replicate_0 append_Nil2)
qed

section \<open>Evaluation\<close>

text \<open>
  The rounds with a window of sixteen words instead of the array, which the simplifier
  evaluates one step at a time.
\<close>

definition window_step :: "nat \<Rightarrow> u32 list \<times> sha1_state \<Rightarrow> u32 list \<times> sha1_state" where
  "window_step i = (\<lambda>(ws, (a, b, c, d, e)).
     let (f, k) =
           (if i \<le> 19 then ((b AND c) OR (NOT b AND d), 0x5A827999)
            else if i \<le> 39 then (b XOR c XOR d, 0x6ED9EBA1)
            else if i \<le> 59 then ((b AND c) OR (b AND d) OR (c AND d), 0x8F1BBCDC)
            else (b XOR c XOR d, 0xCA62C1D6))
     in (tl ws @ [rotate_left 1 (ws ! 13 XOR ws ! 8 XOR ws ! 2 XOR ws ! 0)],
         (rotate_left 5 a + f + e + k + hd ws, a, rotate_left 30 b, c, d)))"

lemma window_step_eq:
  "window_step i (map (rfc_word block) [i..<i + 16], s) =
     (map (rfc_word block) [Suc i..<Suc i + 16], sha1_round (map (rfc_word block) [0..<80]) i s)"
  if "i < 80"
proof -
  have w: "rfc_word block (i + 16) = rotate_left 1 (rfc_word block (13 + i) XOR rfc_word block (8 + i) XOR
      rfc_word block (2 + i) XOR rfc_word block i)"
    using rfc_word.simps [of block "i + 16"] by (simp add: add.commute)
  have "[i..<i + 16] = i # [Suc i..<i + 16]" "[Suc i..<Suc i + 16] = [Suc i..<i + 16] @ [i + 16]"
    by (simp_all add: upt_rec)
  then show ?thesis
    using that w by (cases s) (simp add: window_step_def sha1_round_def Let_def)
qed

lemma window_rounds:
  "n \<le> 80 \<Longrightarrow>
   fold window_step [0..<n] (map (rfc_word block) [0..<16], s) =
     (map (rfc_word block) [n..<n + 16], fold (sha1_round (sha1_schedule block)) [0..<n] s)"
proof (induction n)
  case (Suc n)
  then show ?case
    using window_step_eq [of n block "fold (sha1_round (sha1_schedule block)) [0..<n] s"]
    by (simp add: sha1_schedule_rfc)
qed simp

lemma sha1_block_window:
  "sha1_block block h =
     add_state h (snd (fold window_step [0..<80] (map (load_word block) [0..<16], h)))"
  by (simp only: sha1_block_def Let_def load_words window_rounds [OF order_refl] snd_conv)

text \<open>The test vector of FIPS 180: the digest of \<open>abc\<close>.\<close>

end
