(* ===== verification/Ws.thy ===== *)
theory Ws
  imports Sha1 Protocol
begin

text \<open>
  \<open>src/ws.rs\<close>: masking, the headers of WebSocket frames, text and pong frames, and the accept
  key of the handshake. A function that writes to a buffer returns the buffer with its result.
\<close>

section \<open>The code\<close>

definition OPCODE_TEXT :: u8 where "OPCODE_TEXT = 0x1"
definition OPCODE_CLOSE :: u8 where "OPCODE_CLOSE = 0x8"
definition OPCODE_PING :: u8 where "OPCODE_PING = 0x9"
definition OPCODE_PONG :: u8 where "OPCODE_PONG = 0xA"

lemmas opcode_defs = OPCODE_TEXT_def OPCODE_CLOSE_def OPCODE_PING_def OPCODE_PONG_def

definition unmask :: "u8 list \<Rightarrow> u8 list \<Rightarrow> u8 list" where
  "unmask dat mask_key = map (\<lambda>(i, b). b XOR mask_key ! (i mod 4)) (enumerate 0 dat)"

definition encode_text_frame_header :: "nat \<Rightarrow> u8 list \<Rightarrow> ((nat, str) result \<times> u8 list) exec" where
  "encode_text_frame_header payload_len out =
     (if payload_len > MAX_MSG_LEN then Ret (Err ERROR_MSG_TOO_LARGE, out)
      else if payload_len \<le> 125 then
        (if length out < 2 then Ret (Err ERROR_MSG_TOO_LARGE, out)
         else bind_exec (put_seq out 0 [0x81, of_nat payload_len]) (\<lambda>out. Ret (Ok 2, out)))
      else
        (if length out < 4 then Ret (Err ERROR_MSG_TOO_LARGE, out)
         else bind_exec
           (put_seq out 0 [0x81, 126, of_nat (drop_bit 8 payload_len), of_nat (payload_len AND 0xFF)])
           (\<lambda>out. Ret (Ok 4, out))))"

definition encode_text_frame :: "u8 list \<Rightarrow> u8 list \<Rightarrow> ((nat, str) result \<times> u8 list) exec" where
  "encode_text_frame payload out =
     bind_exec (encode_text_frame_header (length payload) out) (\<lambda>(r, out).
       case r of
         Err e \<Rightarrow> Ret (Err e, out)
       | Ok header_len \<Rightarrow>
           (let total = header_len + length payload
            in if total > length out then Ret (Err ERROR_MSG_TOO_LARGE, out)
               else bind_exec (copy_into out header_len total payload) (\<lambda>out. Ret (Ok total, out))))"

record ws_frame_header =
  wh_header_len :: nat
  wh_payload_len :: nat
  wh_opcode :: u8
  wh_mask_key :: "u8 list"
  wh_masked :: bool

definition parse_frame_header :: "u8 list \<Rightarrow> ws_frame_header option exec" where
  "parse_frame_header raw =
     (if length raw < 2 then Ret None
      else
        bind_exec (get_at raw 0) (\<lambda>b0.
        bind_exec (get_at raw 1) (\<lambda>b1.
        let opcode = b0 AND 0x0F;
            masked = (b1 AND 0x80 \<noteq> 0);
            payload_len_7 = unat (b1 AND 0x7F)
        in
        bind_exec
          (if payload_len_7 \<le> 125 then Ret (Some (payload_len_7, 0))
           else if payload_len_7 = 126 then
             (if length raw < 4 then Ret None
              else bind_exec (get_at raw 2) (\<lambda>b2. bind_exec (get_at raw 3) (\<lambda>b3.
                     Ret (Some (push_bit 8 (unat b2) OR unat b3, 2)))))
           else Ret None)
          (\<lambda>len. case len of
             None \<Rightarrow> Ret None
           | Some (payload_len, ext_len) \<Rightarrow>
               (let header_len = 2 + ext_len + (if masked then 4 else 0)
                in if length raw < header_len then Ret None
                   else
                     bind_exec
                       (if masked then
                          bind_exec (slice raw (2 + ext_len) (2 + ext_len + 4))
                            (\<lambda>key. copy_into (replicate 4 0) 0 4 key)
                        else Ret (replicate 4 0))
                       (\<lambda>mask_key.
                          Ret (Some \<lparr>wh_header_len = header_len, wh_payload_len = payload_len,
                                     wh_opcode = opcode, wh_mask_key = mask_key,
                                     wh_masked = masked\<rparr>)))))))"

definition encode_pong_frame :: "u8 list \<Rightarrow> u8 list \<Rightarrow> ((nat, str) result \<times> u8 list) exec" where
  "encode_pong_frame payload out =
     (if length payload > 125 then Ret (Err ERROR_MSG_TOO_LARGE, out)
      else
        (let total = 2 + length payload
         in if length out < total then Ret (Err ERROR_MSG_TOO_LARGE, out)
            else bind_exec (put_seq out 0 [0x80 OR OPCODE_PONG, of_nat (length payload)]) (\<lambda>out.
                 bind_exec (copy_into out 2 total payload) (\<lambda>out. Ret (Ok total, out)))))"

definition WS_GUID :: "u8 list" where
  "WS_GUID = as_bytes ''258EAFA5-E914-47DA-95CA-C5AB0DC85B11''"

definition compute_accept_key :: "u8 list \<Rightarrow> u8 list \<Rightarrow> (nat \<times> u8 list) exec" where
  "compute_accept_key client_key out =
     (let key_len = min (length client_key) 64
      in bind_exec (slice client_key 0 key_len) (\<lambda>key.
         bind_exec (copy_into (replicate 100 0) 0 key_len key) (\<lambda>input.
         bind_exec (copy_into input key_len (key_len + length WS_GUID) WS_GUID) (\<lambda>input.
         bind_exec (slice input 0 (key_len + length WS_GUID)) (\<lambda>msg.
         bind_exec (sha1 msg) (\<lambda>hash. encode hash out))))))"

section \<open>Headers\<close>

text \<open>The header RFC 6455 gives a frame: its first byte, the length and the key of a masked one.\<close>

definition length_field :: "nat \<Rightarrow> u8 list \<Rightarrow> bool \<Rightarrow> u8 list" where
  "length_field n ext masked =
     [(if masked then 0x80 else 0) OR of_nat n] @ ext"

definition rfc_header :: "u8 \<Rightarrow> u8 list option \<Rightarrow> nat \<Rightarrow> u8 list" where
  "rfc_header b0 key n =
     b0 # (if n \<le> 125 then length_field n [] (key \<noteq> None)
           else length_field 126 [of_nat (n div 256), of_nat (n mod 256)] (key \<noteq> None)) @
     (case key of None \<Rightarrow> [] | Some k \<Rightarrow> k)"

lemma unat_of_nat_u8 [simp]: "n < 256 \<Longrightarrow> unat (of_nat n :: u8) = n"
  by (simp add: unat_of_nat)

lemma and_7F_unat: "unat ((x :: u8) AND 0x7F) = unat x mod 128"
proof -
  have "(0x7F :: u8) = mask 7"
    by (simp add: mask_eq_exp_minus_1)
  then have "x AND 0x7F = take_bit 7 x"
    by (simp only: take_bit_eq_mask)
  then have "unat (x AND 0x7F) = take_bit 7 (unat x)"
    by (simp only: unsigned_take_bit_eq)
  then show ?thesis
    by (simp only: take_bit_eq_mod) simp
qed

lemma length_byte:
  assumes "n < 128"
  shows "unat (((if m then 0x80 else 0) OR of_nat n :: u8) AND 0x7F) = n"
    and "((if m then 0x80 else 0) OR of_nat n :: u8) AND 0x80 \<noteq> 0 \<longleftrightarrow> m"
proof -
  have "unat ((if m then 0x80 else 0) OR of_nat n :: u8) = (if m then 128 + n else n)"
    using unat_push_bit_or [of "of_nat n :: u8" 7 1] assms by simp
  then show "unat (((if m then 0x80 else 0) OR of_nat n :: u8) AND 0x7F) = n"
    and "((if m then 0x80 else 0) OR of_nat n :: u8) AND 0x80 \<noteq> 0 \<longleftrightarrow> m"
    using assms by (simp_all only: and_7F_unat and_bit7 bit7_unat) auto
qed

lemma length_rfc_header:
  "length (rfc_header b0 key n) =
     (if n \<le> 125 then 2 else 4) + (case key of None \<Rightarrow> 0 | Some k \<Rightarrow> length k)"
  by (simp add: rfc_header_def length_field_def split: option.split)

lemma parse_rfc_header:
  assumes "n < 65536" "\<And>k. key = Some k \<Longrightarrow> length k = 4"
  shows "parse_frame_header (rfc_header b0 key n @ rest) =
     Ret (Some \<lparr>wh_header_len = length (rfc_header b0 key n), wh_payload_len = n,
                wh_opcode = b0 AND 0x0F,
                wh_mask_key = (case key of None \<Rightarrow> replicate 4 0 | Some k \<Rightarrow> k),
                wh_masked = (key \<noteq> None)\<rparr>)"
proof (cases "n \<le> 125")
  case True
  then show ?thesis
    using assms(2) length_byte [of n True] length_byte [of n False]
    by (auto simp: parse_frame_header_def rfc_header_def length_field_def exec_simps Let_def
        split: option.split)
next
  case False
  have "n div 256 < 256"
    using assms(1) by (simp add: div_less_iff_less_mult)
  then have "push_bit 8 (unat (of_nat (n div 256) :: u8)) OR unat (of_nat (n mod 256) :: u8) = n"
    by (simp add: nat_push_bit_or)
  then show ?thesis
    using False assms(2) length_byte [of 126 True] length_byte [of 126 False]
    by (auto simp: parse_frame_header_def rfc_header_def length_field_def exec_simps Let_def
        numeral_2_eq_2 numeral_3_eq_3 split: option.split)
qed

lemma drop_bit_8_nat: "drop_bit 8 (n :: nat) = n div 256"
  by (simp add: drop_bit_eq_div)

lemma and_FF_nat: "(n :: nat) AND 0xFF = n mod 256"
proof -
  have "n AND mask 8 = n mod 2 ^ 8"
    by (simp only: take_bit_eq_mask flip: take_bit_eq_mod)
  then show ?thesis
    by (simp add: mask_eq_exp_minus_1)
qed

lemma drop_4: "drop (4 + n) (a # b # c # d # xs) = drop n xs"
  by (simp add: eval_nat_numeral)

text \<open>The encoder writes the header of RFC 6455 for an unmasked final text frame.\<close>

lemma encode_text_frame_eq:
  "encode_text_frame payload out =
     (let hdr = rfc_header 0x81 None (length payload); n = length hdr + length payload
      in if length payload \<le> MAX_MSG_LEN \<and> n \<le> length out
         then Ret (Ok n, hdr @ payload @ drop n out)
         else Ret (Err ERROR_MSG_TOO_LARGE,
                   if length payload \<le> MAX_MSG_LEN \<and> length hdr \<le> length out
                   then hdr @ drop (length hdr) out else out))"
  by (auto simp: encode_text_frame_def encode_text_frame_header_def rfc_header_def length_field_def
      exec_simps drop_bit_8_nat and_FF_nat drop_4 Let_def)

lemma unmask_involution: "unmask (unmask dat key) key = dat"
  by (rule nth_equalityI) (simp_all add: unmask_def nth_enumerate_eq xor.assoc)

lemma length_unmask [simp]: "length (unmask dat key) = length dat"
  by (simp add: unmask_def)

section \<open>Properties\<close>

text \<open>A text frame the server sends is read back by the parser: with room for the header and
  the payload it is encoded without a panic, and the parsed header gives the text opcode, no mask
  and exactly the bytes of the payload, whatever follows the frame.\<close>

theorem text_frame_roundtrip:
  assumes "length payload \<le> MAX_MSG_LEN" "length payload + 4 \<le> length out"
  shows "\<exists>n out' h. encode_text_frame payload out = Ret (Ok n, out') \<and> length out' = length out \<and>
     parse_frame_header (take n out' @ rest) = Ret (Some h) \<and> n = wh_header_len h + wh_payload_len h \<and>
     wh_opcode h = OPCODE_TEXT \<and> \<not> wh_masked h \<and>
     take (wh_payload_len h) (drop (wh_header_len h) out') = payload"
proof -
  let ?r = "rfc_header 0x81 None (length payload)"
  have "length ?r \<le> 4"
    by (simp add: length_rfc_header)
  then have "encode_text_frame payload out =
      Ret (Ok (length ?r + length payload), ?r @ payload @ drop (length ?r + length payload) out)"
    using assms by (simp add: encode_text_frame_eq Let_def)
  moreover have "parse_frame_header (?r @ payload @ rest) =
      Ret (Some \<lparr>wh_header_len = length ?r, wh_payload_len = length payload, wh_opcode = 0x81 AND 0x0F,
                 wh_mask_key = replicate 4 0, wh_masked = False\<rparr>)"
    using parse_rfc_header [of "length payload" None "0x81" "payload @ rest"] assms(1)
    by (simp add: limit_defs)
  ultimately show ?thesis
    using assms(2) \<open>length ?r \<le> 4\<close> by (simp add: opcode_defs)
qed

theorem text_frame_roundtrip_witness:
  "\<exists>n out' h. encode_text_frame [104, 105] (replicate 6 0) = Ret (Ok n, out') \<and> length out' = 6 \<and>
     parse_frame_header (take n out' @ [1, 2]) = Ret (Some h) \<and> n = wh_header_len h + wh_payload_len h \<and>
     wh_opcode h = OPCODE_TEXT \<and> \<not> wh_masked h \<and>
     take (wh_payload_len h) (drop (wh_header_len h) out') = [104, 105]"
  using text_frame_roundtrip [of "[104, 105]" "replicate 6 0" "[1, 2]"] by (simp add: limit_defs)



text \<open>Parsing a header never panics, whatever the bytes. A header it returns lies within them,
  announces at most 65535 bytes and does not depend on the bytes after it, so that a reader may
  parse before the whole frame has arrived.\<close>

theorem parse_frame_header_safe:
  "case parse_frame_header raw of
     Panic \<Rightarrow> False
   | Ret None \<Rightarrow> True
   | Ret (Some h) \<Rightarrow> wh_header_len h \<le> length raw \<and> wh_payload_len h < 65536 \<and>
       length (wh_mask_key h) = 4 \<and> parse_frame_header (raw @ rest) = Ret (Some h)"
proof -
  have "push_bit 8 (unat a) OR unat b < 65536" for a b :: u8
    using unat_u8_less [of a] unat_u8_less [of b] by (simp add: nat_push_bit_or)
  moreover have "get_at (raw @ ys) 0 = Ret (raw ! 0)" "get_at (raw @ ys) 1 = Ret (raw ! 1)"
    if "\<not> length raw < 2" for ys
    using that by (auto simp: get_at_def nth_append)
  from this [of "[]"] this [of rest] have "get_at raw 0 = Ret (raw ! 0)" "get_at raw 1 = Ret (raw ! 1)"
    "get_at (raw @ rest) 0 = Ret (raw ! 0)" "get_at (raw @ rest) 1 = Ret (raw ! 1)"
    if "\<not> length raw < 2"
    using that by simp_all
  ultimately show ?thesis
    by (cases "length raw < 2"; cases "raw ! 1 AND 0x80 = 0"; cases "unat (raw ! 1 AND 0x7F) \<le> 125";
        cases "unat (raw ! 1 AND 0x7F) = 126")
      (simp_all add: parse_frame_header_def exec_simps nth_append Let_def)
qed

text \<open>The accept key of the handshake is the base64 text of the SHA-1 of the client's key (its
  first 64 bytes) and the GUID of RFC 6455, 28 characters; a shorter buffer makes it panic.\<close>

lemma compute_accept_key_eq:
  "compute_accept_key client_key out =
     (if 28 \<le> length out
      then Ret (28, b64_text (sha1_digest (take 64 client_key @ WS_GUID)) @ drop 28 out)
      else Panic)"
proof -
  define K where "K = take 64 client_key"
  define n where "n = length K"
  have g: "length WS_GUID = 36"
    by (simp add: WS_GUID_def)
  have n: "min (length client_key) 64 = n" "n \<le> 64" "length K = n"
    by (simp_all add: n_def K_def)
  have 1: "copy_into (replicate 100 0) 0 n K = Ret (K @ replicate (100 - n) 0)"
    using n by (simp add: copy_into_def)
  have 2: "copy_into (K @ replicate (100 - n) 0) n (n + 36) WS_GUID = Ret (K @ WS_GUID @ replicate (64 - n) 0)"
    using n g by (simp add: copy_into_def)
  have 3: "slice (K @ WS_GUID @ replicate (64 - n) 0) 0 (n + 36) = Ret (K @ WS_GUID)"
    using n g by (simp add: slice_def)
  have 4: "slice client_key 0 n = Ret K"
    by (auto simp: slice_def n_def K_def min_def)
  have "compute_accept_key client_key out = encode (sha1_digest (K @ WS_GUID)) out"
    by (simp only: compute_accept_key_def Let_def g n(1) 1 2 3 4 bind_exec.simps sha1_eq)
  then show ?thesis
    using encode_eq [of "sha1_digest (K @ WS_GUID)" out]
    by (simp add: sha1_digest_def length_b64_text flip: K_def)
qed

end
