(* ===== verification/Transport.thy ===== *)
theory Transport
  imports Ws
begin

text \<open>
  \<open>src/transport.rs\<close> and the two transports of \<open>src/net.rs\<close>, \<open>TcpTransport\<close> and
  \<open>WsTransport\<close>. The TCP socket belongs to the crate \<open>embassy_net\<close>: its operations are an
  argument. A loop that waits for the socket may not end, so it is a partial function into
  \<open>option\<close>: \<open>None\<close> is a loop that goes on for ever. \<open>socket_safe\<close> and \<open>stream_socket\<close> state
  what is documented of the socket, for any peer and for one that sends some bytes and closes.
\<close>

section \<open>Computations that may panic or not end\<close>

definition bind_io :: "'a exec option \<Rightarrow> ('a \<Rightarrow> 'b exec option) \<Rightarrow> 'b exec option" where
  "bind_io m f = Option.bind m (\<lambda>x. case x of Panic \<Rightarrow> Some Panic | Ret y \<Rightarrow> f y)"

lemma bind_io_simps [simp]:
  "bind_io None f = None"
  "bind_io (Some Panic) f = Some Panic"
  "bind_io (Some (Ret y)) f = f y"
  by (simp_all add: bind_io_def)

lemma bind_io_mono [partial_function_mono]:
  assumes "mono_option B" and "\<And>y. mono_option (\<lambda>f. C y f)"
  shows "mono_option (\<lambda>f. bind_io (B f) (\<lambda>y. C y f))"
  unfolding bind_io_def
proof (rule bind_mono [OF assms(1)])
  show "mono_option (\<lambda>f. case x of Panic \<Rightarrow> Some Panic | Ret y \<Rightarrow> C y f)" for x
    by (cases x) (simp_all add: assms(2) option.const_mono)
qed

lemma bind_io_cases:
  assumes "bind_io m f = Some r"
  obtains "m = Some Panic" "r = Panic" | y where "m = Some (Ret y)" "f y = Some r"
proof (cases m)
  case (Some x)
  with assms that show ?thesis by (cases x) simp_all
qed (use assms in simp)

section \<open>The interface (transport.rs)\<close>

datatype transport_error = Disconnected | ProtocolError str | Timeout

text \<open>A transport whose state has type \<open>'t\<close>: \<open>read_frame\<close> is given a buffer and returns the frame
  and the buffer it lies in.\<close>

record 't transport =
  tr_read_frame ::
    "u8 list \<Rightarrow> 't \<Rightarrow> ((u8 list, transport_error) result \<times> u8 list \<times> 't) exec option"
  tr_write_frame :: "u8 list \<Rightarrow> 't \<Rightarrow> ((unit, transport_error) result \<times> 't) exec"

section \<open>The socket\<close>

text \<open>\<open>so_read n\<close> is a read into a buffer of \<open>n\<close> bytes: the bytes it put at the start of the
  buffer, none when the peer has closed. \<open>so_accept\<close> waits for a peer on a port.\<close>

datatype read_result = ReadTimeout | ReadError | ReadBytes "u8 list"

record 's socket =
  so_read :: "nat \<Rightarrow> 's \<Rightarrow> read_result \<times> 's"
  so_write_all :: "u8 list \<Rightarrow> 's \<Rightarrow> (unit, unit) result \<times> 's"
  so_abort :: "'s \<Rightarrow> 's"
  so_flush :: "'s \<Rightarrow> 's"
  so_accept :: "nat \<Rightarrow> 's \<Rightarrow> (unit, unit) result \<times> 's"

definition socket_safe :: "'s socket \<Rightarrow> bool" where
  "socket_safe so \<longleftrightarrow> (\<forall>n s bs s'. so_read so n s = (ReadBytes bs, s') \<longrightarrow> length bs \<le> n)"

text \<open>
  A peer that sends \<open>input s\<close> and closes, and takes what is written: a read returns some of the
  bytes that are left, as many as it likes; \<open>output s\<close> is what was written so far.
\<close>

definition stream_socket :: "'s socket \<Rightarrow> ('s \<Rightarrow> u8 list) \<Rightarrow> ('s \<Rightarrow> u8 list) \<Rightarrow> bool" where
  "stream_socket so input output \<longleftrightarrow>
     (\<forall>n s. 0 < n \<longrightarrow>
        (\<exists>c s'. so_read so n s = (ReadBytes c, s') \<and> length c \<le> n \<and>
           (c = [] \<longleftrightarrow> input s = []) \<and> input s = c @ input s' \<and> output s' = output s)) \<and>
     (\<forall>bs s. \<exists>s'. so_write_all so bs s = (Ok (), s') \<and> input s' = input s \<and>
        output s' = output s @ bs) \<and>
     (\<forall>s. output (so_abort so s) = output s) \<and>
     (\<forall>s. input (so_flush so s) = input s \<and> output (so_flush so s) = output s)"

lemma stream_socketD:
  assumes "stream_socket so input output"
  shows "0 < n \<Longrightarrow> \<exists>c s'. so_read so n s = (ReadBytes c, s') \<and> length c \<le> n \<and>
           (c = [] \<longleftrightarrow> input s = []) \<and> input s = c @ input s' \<and> output s' = output s"
    and "\<exists>s'. so_write_all so bs s = (Ok (), s') \<and> input s' = input s \<and> output s' = output s @ bs"
    and "output (so_abort so s) = output s"
    and "input (so_flush so s) = input s \<and> output (so_flush so s) = output s"
  using assms unfolding stream_socket_def by blast+

section \<open>TCP: newline-delimited frames\<close>

record 's tcp_state =
  tt_socket :: 's
  tt_reader :: frame_reader

definition tcp_transport_new :: "'s \<Rightarrow> 's tcp_state" where
  "tcp_transport_new s = \<lparr>tt_socket = s, tt_reader = frame_reader_new\<rparr>"

partial_function (option) tcp_read_frame ::
  "'s socket \<Rightarrow> u8 list \<Rightarrow> 's tcp_state \<Rightarrow>
   ((u8 list, transport_error) result \<times> u8 list \<times> 's tcp_state) exec option" where
  "tcp_read_frame so buf t =
     (case so_read so 1 (tt_socket t) of
        (ReadTimeout, s) \<Rightarrow> Some (Ret (Err Timeout, buf, t\<lparr>tt_socket := so_abort so s\<rparr>))
      | (ReadError, s) \<Rightarrow> Some (Ret (Err Disconnected, buf, t\<lparr>tt_socket := so_abort so s\<rparr>))
      | (ReadBytes bs, s) \<Rightarrow>
          (case bs of
             [] \<Rightarrow> Some (Ret (Err Disconnected, buf, t\<lparr>tt_socket := so_abort so s\<rparr>))
           | b # _ \<Rightarrow>
               bind_io (Some (frame_reader_push (tt_reader t) b)) (\<lambda>(pushed, r).
                 case pushed of
                   Err err_code \<Rightarrow>
                     Some (Ret (Err (ProtocolError err_code), buf,
                       \<lparr>tt_socket = s, tt_reader = frame_reader_reset r\<rparr>))
                 | Ok None \<Rightarrow> tcp_read_frame so buf \<lparr>tt_socket = s, tt_reader = r\<rparr>
                 | Ok (Some frame) \<Rightarrow>
                     bind_io (Some (copy_into buf 0 (length frame) frame)) (\<lambda>buf'.
                     bind_io (Some (slice buf' 0 (length frame))) (\<lambda>f.
                       Some (Ret (Ok f, buf', \<lparr>tt_socket = s, tt_reader = r\<rparr>)))))))"

definition tcp_write_frame ::
  "'s socket \<Rightarrow> u8 list \<Rightarrow> 's tcp_state \<Rightarrow> ((unit, transport_error) result \<times> 's tcp_state) exec" where
  "tcp_write_frame so dat t =
     (case so_write_all so dat (tt_socket t) of
        (Err _, s) \<Rightarrow> Ret (Err Disconnected, t\<lparr>tt_socket := so_abort so s\<rparr>)
      | (Ok _, s) \<Rightarrow> Ret (Ok (), t\<lparr>tt_socket := s\<rparr>))"

definition tcp_transport :: "'s socket \<Rightarrow> 's tcp_state transport" where
  "tcp_transport so =
     \<lparr>tr_read_frame = tcp_read_frame so, tr_write_frame = tcp_write_frame so\<rparr>"

section \<open>WebSocket: RFC 6455 frames\<close>

text \<open>The state of \<open>WsTransport\<close> is its socket.\<close>

partial_function (option) ws_read_exact ::
  "'s socket \<Rightarrow> u8 list \<Rightarrow> nat \<Rightarrow> 's \<Rightarrow> ((unit, transport_error) result \<times> u8 list \<times> 's) exec option" where
  "ws_read_exact so buf offset s =
     (if offset < length buf then
        (case so_read so (length buf - offset) s of
           (ReadTimeout, s') \<Rightarrow> Some (Ret (Err Timeout, buf, s'))
         | (ReadError, s') \<Rightarrow> Some (Ret (Err Disconnected, buf, s'))
         | (ReadBytes bs, s') \<Rightarrow>
             (if bs = [] then Some (Ret (Err Disconnected, buf, s'))
              else bind_io (Some (copy_into buf offset (offset + length bs) bs)) (\<lambda>buf'.
                     ws_read_exact so buf' (offset + length bs) s')))
      else Some (Ret (Ok (), buf, s)))"

text \<open>The rest of a read once \<open>read_exact\<close> has filled a fresh buffer of \<open>n\<close> bytes; an error aborts
  the socket and is the result.\<close>

definition read_or_abort ::
  "'s socket \<Rightarrow> nat \<Rightarrow> 's \<Rightarrow> ((u8 list, transport_error) result \<times> 's) exec option" where
  "read_or_abort so n s =
     bind_io (ws_read_exact so (replicate n 0) 0 s) (\<lambda>(r, buf, s').
       case r of
         Err e \<Rightarrow> Some (Ret (Err e, so_abort so s'))
       | Ok _ \<Rightarrow> Some (Ret (Ok buf, s')))"

definition too_large :: "'s socket \<Rightarrow> 's \<Rightarrow> ('a, transport_error) result \<times> 's" where
  "too_large so s = (Err (ProtocolError ERROR_MSG_TOO_LARGE), so_abort so s)"

text \<open>The payload length: seven bits, or two more bytes.\<close>

definition read_payload_len ::
  "'s socket \<Rightarrow> nat \<Rightarrow> 's \<Rightarrow> ((nat, transport_error) result \<times> 's) exec option" where
  "read_payload_len so len7 s =
     (if len7 \<le> 125 then Some (Ret (Ok len7, s))
      else if len7 = 126 then
        bind_io (read_or_abort so 2 s) (\<lambda>(r, s').
          case r of
            Err e \<Rightarrow> Some (Ret (Err e, s'))
          | Ok ext \<Rightarrow> Some (Ret (Ok (push_bit 8 (unat (ext ! 0)) OR unat (ext ! 1)), s')))
      else Some (Ret (too_large so s)))"

text \<open>The payload, read into the start of the buffer and unmasked there.\<close>

definition read_payload ::
  "'s socket \<Rightarrow> u8 list \<Rightarrow> nat \<Rightarrow> u8 list option \<Rightarrow> 's \<Rightarrow>
   ((unit, transport_error) result \<times> u8 list \<times> 's) exec option" where
  "read_payload so buf payload_len mask_key s =
     (if payload_len > 0 then
        bind_io (Some (slice buf 0 payload_len)) (\<lambda>window.
        bind_io (ws_read_exact so window 0 s) (\<lambda>(r, got, s').
          case r of
            Err e \<Rightarrow> Some (Ret (Err e, got @ drop payload_len buf, so_abort so s'))
          | Ok _ \<Rightarrow>
              Some (Ret (Ok (),
                (case mask_key of Some key \<Rightarrow> unmask got key | None \<Rightarrow> got) @ drop payload_len buf,
                s'))))
      else Some (Ret (Ok (), buf, s)))"

text \<open>What the code does with a complete frame: return it, or answer it and go on.\<close>

datatype frame_outcome = FrameDone "(u8 list, transport_error) result" | FrameSkipped

definition handle_frame ::
  "'s socket \<Rightarrow> u8 \<Rightarrow> u8 list \<Rightarrow> 's \<Rightarrow> (frame_outcome \<times> 's) exec" where
  "handle_frame so opcode payload s =
     (if opcode = OPCODE_TEXT then Ret (FrameDone (Ok payload), s)
      else if opcode = OPCODE_CLOSE then
        Ret (FrameDone (Err Disconnected), so_abort so (snd (so_write_all so [0x88, 0x00] s)))
      else if opcode = OPCODE_PING then
        bind_exec (encode_pong_frame payload (replicate 127 0)) (\<lambda>(r, pong_buf).
          case r of
            Err _ \<Rightarrow> Ret (FrameSkipped, s)
          | Ok n \<Rightarrow>
              bind_exec (slice pong_buf 0 n) (\<lambda>pong.
                Ret (FrameSkipped, snd (so_write_all so pong s))))
      else Ret (FrameSkipped, s))"

text \<open>One round of the loop of \<open>read_frame\<close>: the last two steps, then the whole.\<close>

definition ws_read_payload ::
  "'s socket \<Rightarrow> u8 list \<Rightarrow> u8 \<Rightarrow> nat \<Rightarrow> u8 list option \<Rightarrow> 's \<Rightarrow> (frame_outcome \<times> u8 list \<times> 's) exec option"
where
  "ws_read_payload so buf opcode payload_len mask_key s =
     bind_io (read_payload so buf payload_len mask_key s) (\<lambda>(r, buf', s').
       case r of
         Err e \<Rightarrow> Some (Ret (FrameDone (Err e), buf', s'))
       | Ok _ \<Rightarrow>
           bind_io (Some (slice buf' 0 payload_len)) (\<lambda>payload.
           bind_io (Some (handle_frame so opcode payload s')) (\<lambda>(out, s'').
             Some (Ret (out, buf', s'')))))"

definition ws_read_body ::
  "'s socket \<Rightarrow> u8 list \<Rightarrow> u8 \<Rightarrow> bool \<Rightarrow> nat \<Rightarrow> 's \<Rightarrow> (frame_outcome \<times> u8 list \<times> 's) exec option" where
  "ws_read_body so buf opcode masked payload_len s =
     (if payload_len > MAX_MSG_LEN then
        (case too_large so s of (e, s') \<Rightarrow> Some (Ret (FrameDone e, buf, s')))
      else
        bind_io (if masked then read_or_abort so 4 s else Some (Ret (Ok (replicate 4 0), s)))
          (\<lambda>(r, s').
             case r of
               Err e \<Rightarrow> Some (Ret (FrameDone (Err e), buf, s'))
             | Ok mask_key \<Rightarrow>
                 ws_read_payload so buf opcode payload_len (if masked then Some mask_key else None) s'))"

definition ws_read_once ::
  "'s socket \<Rightarrow> u8 list \<Rightarrow> 's \<Rightarrow> (frame_outcome \<times> u8 list \<times> 's) exec option" where
  "ws_read_once so buf s =
     bind_io (read_or_abort so 2 s) (\<lambda>(r, s').
       case r of
         Err e \<Rightarrow> Some (Ret (FrameDone (Err e), buf, s'))
       | Ok hdr \<Rightarrow>
           (let opcode = hdr ! 0 AND 0x0F;
                masked = (hdr ! 1 AND 0x80 \<noteq> 0);
                len7 = unat (hdr ! 1 AND 0x7F)
            in
            bind_io (read_payload_len so len7 s') (\<lambda>(r, s'').
              case r of
                Err e \<Rightarrow> Some (Ret (FrameDone (Err e), buf, s''))
              | Ok payload_len \<Rightarrow> ws_read_body so buf opcode masked payload_len s'')))"

partial_function (option) ws_read_frame ::
  "'s socket \<Rightarrow> u8 list \<Rightarrow> 's \<Rightarrow> ((u8 list, transport_error) result \<times> u8 list \<times> 's) exec option" where
  "ws_read_frame so buf s =
     bind_io (ws_read_once so buf s) (\<lambda>(out, buf', s').
       case out of
         FrameDone r \<Rightarrow> Some (Ret (r, buf', s'))
       | FrameSkipped \<Rightarrow> ws_read_frame so buf' s')"

definition ws_write_frame ::
  "'s socket \<Rightarrow> u8 list \<Rightarrow> 's \<Rightarrow> ((unit, transport_error) result \<times> 's) exec" where
  "ws_write_frame so dat s =
     bind_exec (encode_text_frame_header (length dat) (replicate 4 0)) (\<lambda>(r, hdr).
       case r of
         Err e \<Rightarrow> Ret (Err (ProtocolError e), s)
       | Ok hdr_len \<Rightarrow>
           bind_exec (slice hdr 0 hdr_len) (\<lambda>h.
             case so_write_all so h s of
               (Err _, s') \<Rightarrow> Ret (Err Disconnected, so_abort so s')
             | (Ok _, s') \<Rightarrow>
                 (case so_write_all so dat s' of
                    (Err _, s'') \<Rightarrow> Ret (Err Disconnected, so_abort so s'')
                  | (Ok _, s'') \<Rightarrow> Ret (Ok (), s''))))"

definition ws_transport :: "'s socket \<Rightarrow> 's transport" where
  "ws_transport so =
     \<lparr>tr_read_frame = ws_read_frame so, tr_write_frame = ws_write_frame so\<rparr>"

section \<open>TCP frames on a byte stream\<close>

lemma split_at_newline:
  fixes xs :: "u8 list"
  assumes "10 \<in> set xs"
  obtains l rest where "xs = l @ 10 # rest" "10 \<notin> set l"
  using split_list_first [OF assms] by blast

lemma tcp_read_frame_line:
  assumes "stream_socket so input output" "fr_holds (tt_reader t) l"
    and "input (tt_socket t) = m @ 10 # rest" "10 \<notin> set m" "length buf = MAX_MSG_LEN"
  shows "\<exists>buf' t'. tcp_read_frame so buf t =
       Some (Ret (case line_result (l @ m) of Ok f \<Rightarrow> Ok f | Err e \<Rightarrow> Err (ProtocolError e), buf', t')) \<and>
     length buf' = MAX_MSG_LEN \<and> fr_holds (tt_reader t') [] \<and>
     input (tt_socket t') = rest \<and> output (tt_socket t') = output (tt_socket t)"
  using assms(2-4)
proof (induction m arbitrary: t l)
  case Nil
  obtain s where s: "so_read so 1 (tt_socket t) = (ReadBytes [10], s)" "input s = rest"
    "output s = output (tt_socket t)"
    using stream_socketD(1) [OF assms(1), of 1 "tt_socket t"] Nil.prems(2)
    by (auto simp: le_Suc_eq length_Suc_conv)
  obtain r where r: "frame_reader_push (tt_reader t) 10 =
      Ret (case line_result l of Ok f \<Rightarrow> Ok (Some f) | Err e \<Rightarrow> Err e, r)" "fr_holds r []"
    using frame_reader_push_newline [OF Nil.prems(1)] by blast
  have reset: "fr_holds (frame_reader_reset r) []"
    using r(2) by (simp add: fr_holds_def frame_reader_reset_def limit_defs)
  show ?case
  proof (cases "line_result l")
    case (Ok f)
    then have "length f \<le> MAX_MSG_LEN"
      by (auto simp: line_result_def split: if_splits)
    then show ?thesis
      using s r Ok assms(5)
      by (subst tcp_read_frame.simps) (simp add: copy_into_def slice_def)
  next
    case (Err e)
    then show ?thesis
      using s r reset assms(5) by (subst tcp_read_frame.simps) simp
  qed
next
  case (Cons b m)
  have ne: "b \<noteq> 10" and m: "10 \<notin> set m"
    using Cons.prems by auto
  obtain s where s: "so_read so 1 (tt_socket t) = (ReadBytes [b], s)" "input s = m @ 10 # rest"
    "output s = output (tt_socket t)"
    using stream_socketD(1) [OF assms(1), of 1 "tt_socket t"] Cons.prems(2)
    by (auto simp: le_Suc_eq length_Suc_conv)
  obtain r where r: "frame_reader_push (tt_reader t) b = Ret (Ok None, r)" "fr_holds r (l @ [b])"
    using frame_reader_push_data [OF Cons.prems(1) ne] by blast
  have "tcp_read_frame so buf t = tcp_read_frame so buf \<lparr>tt_socket = s, tt_reader = r\<rparr>"
    using s r by (subst tcp_read_frame.simps) simp
  then show ?case
    using Cons.IH [of "\<lparr>tt_socket = s, tt_reader = r\<rparr>" "l @ [b]"] s r m by simp
qed

lemma tcp_read_frame_end:
  assumes "stream_socket so input output" "fr_holds (tt_reader t) l"
    and "10 \<notin> set (input (tt_socket t))"
  shows "\<exists>t'. tcp_read_frame so buf t = Some (Ret (Err Disconnected, buf, t')) \<and>
     output (tt_socket t') = output (tt_socket t)"
  using assms(2,3)
proof (induction "input (tt_socket t)" arbitrary: t l)
  case Nil
  then obtain s where "so_read so 1 (tt_socket t) = (ReadBytes [], s)" "output s = output (tt_socket t)"
    using stream_socketD(1) [OF assms(1), of 1 "tt_socket t"] by auto
  then show ?case
    using stream_socketD(3) [OF assms(1)] by (subst tcp_read_frame.simps) simp
next
  case (Cons b bs)
  have ne: "b \<noteq> 10" and bs: "10 \<notin> set bs"
    using Cons.prems(2) Cons.hyps(2) by (metis list.set_intros(1), metis list.set_intros(2))
  obtain s where s: "so_read so 1 (tt_socket t) = (ReadBytes [b], s)" "input s = bs"
    "output s = output (tt_socket t)"
    using stream_socketD(1) [OF assms(1), of 1 "tt_socket t"] Cons.hyps(2)
    by (auto simp: le_Suc_eq length_Suc_conv)
  obtain r where r: "frame_reader_push (tt_reader t) b = Ret (Ok None, r)" "fr_holds r (l @ [b])"
    using frame_reader_push_data [OF Cons.prems(1) ne] by blast
  have "tcp_read_frame so buf t = tcp_read_frame so buf \<lparr>tt_socket = s, tt_reader = r\<rparr>"
    using s r by (subst tcp_read_frame.simps) simp
  then show ?case
    using Cons.hyps(1) [of "\<lparr>tt_socket = s, tt_reader = r\<rparr>" "l @ [b]"] s r bs by simp
qed

section \<open>WebSocket frames on a byte stream\<close>

lemma ws_read_exact_stream:
  assumes "stream_socket so input output" "offset \<le> length buf"
    and "length buf - offset \<le> length (input s)"
  shows "\<exists>s'. ws_read_exact so buf offset s =
       Some (Ret (Ok (), take offset buf @ take (length buf - offset) (input s), s')) \<and>
     input s' = drop (length buf - offset) (input s) \<and> output s' = output s"
  using assms(2,3)
proof (induction "length buf - offset" arbitrary: buf offset s rule: less_induct)
  case less
  show ?case
  proof (cases "offset < length buf")
    case False
    then show ?thesis
      using less.prems by (subst ws_read_exact.simps) simp
  next
    case True
    obtain c s1 where c: "so_read so (length buf - offset) s = (ReadBytes c, s1)"
      "length c \<le> length buf - offset" "c = [] \<longleftrightarrow> input s = []" "input s = c @ input s1"
      "output s1 = output s"
      using stream_socketD(1) [OF assms(1), of "length buf - offset" s] True by auto
    have ne: "c \<noteq> []" "0 < length c"
      using c(3) less.prems True by auto
    let ?buf = "take offset buf @ c @ drop (offset + length c) buf"
    have len: "length ?buf = length buf" "offset + length c \<le> length buf"
      using c(2) True by simp_all
    have copy: "copy_into buf offset (offset + length c) c = Ret ?buf"
      using len(2) by (simp add: copy_into_def)
    have "length ?buf - (offset + length c) < length buf - offset"
      unfolding len(1) using ne(2) True len(2) by arith
    moreover have "offset + length c \<le> length ?buf"
      "length ?buf - (offset + length c) \<le> length (input s1)"
      using len less.prems(2) c(4) by auto
    ultimately obtain s' where s':
      "ws_read_exact so ?buf (offset + length c) s1 =
         Some (Ret (Ok (), take (offset + length c) ?buf @
           take (length ?buf - (offset + length c)) (input s1), s'))"
      "input s' = drop (length ?buf - (offset + length c)) (input s1)" "output s' = output s1"
      using less.hyps [of ?buf "offset + length c" s1] by blast
    have "ws_read_exact so buf offset s = ws_read_exact so ?buf (offset + length c) s1"
      using True ne by (subst ws_read_exact.simps) (simp add: c(1) copy)
    moreover have "take (offset + length c) ?buf = take offset buf @ c"
      using True by simp
    ultimately show ?thesis
      using s' c(4,5) len by simp
  qed
qed

lemma read_or_abort_stream:
  assumes "stream_socket so input output" "input s = xs @ rest" "length xs = n"
  shows "\<exists>s'. read_or_abort so n s = Some (Ret (Ok xs, s')) \<and> input s' = rest \<and> output s' = output s"
  using ws_read_exact_stream [OF assms(1), of 0 "replicate n 0" s] assms(2,3)
  by (auto simp: read_or_abort_def)

text \<open>A frame as a client sends it, and the answer a ping gets.\<close>

definition client_frame :: "u8 \<Rightarrow> u8 list \<Rightarrow> u8 list \<Rightarrow> u8 list" where
  "client_frame b0 key payload = rfc_header b0 (Some key) (length payload) @ unmask payload key"

definition pong_of :: "u8 \<Rightarrow> u8 list \<Rightarrow> u8 list" where
  "pong_of b0 payload =
     (if b0 AND 0x0F = OPCODE_PING \<and> length payload \<le> 125
      then [0x8A, of_nat (length payload)] @ payload else [])"

lemma opcodes_differ:
  "OPCODE_PING \<noteq> OPCODE_TEXT" "OPCODE_PING \<noteq> OPCODE_CLOSE" "OPCODE_CLOSE \<noteq> OPCODE_TEXT"
  by (simp_all add: opcode_defs)

lemma encode_pong_frame_eq:
  "length payload \<le> 125 \<Longrightarrow> encode_pong_frame payload (replicate 127 0) =
     Ret (Ok (2 + length payload),
       [0x8A, of_nat (length payload)] @ payload @ replicate (125 - length payload) 0)"
proof -
  assume l: "length payload \<le> 125"
  have "(0x80 OR OPCODE_PONG :: u8) = 0x8A"
    by (simp add: opcode_defs)
  moreover have "put_seq (replicate 127 (0 :: u8)) 0 [x, y] = Ret ([x, y] @ replicate 125 0)" for x y
    by (simp add: put_seq_eq)
  moreover have "copy_into ([x, y] @ replicate 125 (0 :: u8)) 2 (2 + length payload) payload =
      Ret ([x, y] @ payload @ replicate (125 - length payload) 0)" for x y
    using copy_into_erased [of "[x, y]" 2 payload 125 0] l by simp
  ultimately show ?thesis
    using l by (simp add: encode_pong_frame_def)
qed

lemma handle_frame_stream:
  assumes "stream_socket so input output"
  shows "\<exists>s'. handle_frame so (b0 AND 0x0F) payload s =
       Ret (if b0 AND 0x0F = OPCODE_TEXT then FrameDone (Ok payload)
            else if b0 AND 0x0F = OPCODE_CLOSE then FrameDone (Err Disconnected)
            else FrameSkipped, s') \<and>
     (b0 AND 0x0F \<noteq> OPCODE_CLOSE \<longrightarrow> input s' = input s \<and> output s' = output s @ pong_of b0 payload) \<and>
     (b0 AND 0x0F = OPCODE_CLOSE \<longrightarrow> output s' = output s @ [0x88, 0x00])"
proof -
  obtain s1 where s1: "so_write_all so [0x88, 0x00] s = (Ok (), s1)" "output s1 = output s @ [0x88, 0x00]"
    using stream_socketD(2) [OF assms] by blast
  obtain s2 where s2: "so_write_all so ([0x8A, of_nat (length payload)] @ payload) s = (Ok (), s2)"
    "input s2 = input s" "output s2 = output s @ [0x8A, of_nat (length payload)] @ payload"
    using stream_socketD(2) [OF assms] by blast
  have long: "125 < length payload \<Longrightarrow> encode_pong_frame payload (replicate 127 0) =
      Ret (Err ERROR_MSG_TOO_LARGE, replicate 127 0)"
    by (simp add: encode_pong_frame_def)
  show ?thesis
    using s1 s2 stream_socketD(3) [OF assms] opcodes_differ long
    by (cases "length payload \<le> 125")
      (auto simp: handle_frame_def pong_of_def encode_pong_frame_eq slice_def)
qed

lemma read_payload_stream:
  assumes "stream_socket so input output" "input s = dat @ rest" "length dat \<le> length buf"
  shows "\<exists>s'. read_payload so buf (length dat) (Some key) s =
       Some (Ret (Ok (), unmask dat key @ drop (length dat) buf, s')) \<and>
     input s' = rest \<and> output s' = output s"
proof (cases "dat = []")
  case True
  then show ?thesis
    using assms(2) by (simp add: read_payload_def unmask_def)
next
  case False
  obtain s' where "ws_read_exact so (take (length dat) buf) 0 s = Some (Ret (Ok (), dat, s'))"
    "input s' = rest" "output s' = output s"
    using ws_read_exact_stream [OF assms(1), of 0 "take (length dat) buf" s] assms(2,3)
    by auto
  then show ?thesis
    using False assms(3) by (simp add: read_payload_def slice_def)
qed

lemma ws_read_once_stream:
  assumes "stream_socket so input output" "input s = client_frame b0 key payload @ rest"
    and "length key = 4" "length payload \<le> MAX_MSG_LEN" "length buf = MAX_MSG_LEN"
  shows "\<exists>s1 s'. input s1 = rest \<and> output s1 = output s \<and>
     ws_read_once so buf s =
       bind_io (Some (handle_frame so (b0 AND 0x0F) payload s1))
         (\<lambda>(out, s'). Some (Ret (out, payload @ drop (length payload) buf, s')))"
proof -
  let ?n = "length payload"
  let ?m = "if ?n \<le> 125 then ?n else 126"
  let ?b1 = "0x80 OR of_nat ?m :: u8"
  let ?ext = "if ?n \<le> 125 then [] else [of_nat (?n div 256), of_nat (?n mod 256) :: u8]"
  have n: "?n < 65536"
    using assms(4) by (simp add: limit_defs)
  have wire: "input s = [b0, ?b1] @ ?ext @ key @ unmask payload key @ rest"
    using assms(2) by (simp add: client_frame_def rfc_header_def length_field_def)
  obtain s1 where s1: "read_or_abort so 2 s = Some (Ret (Ok [b0, ?b1], s1))"
    "input s1 = ?ext @ key @ unmask payload key @ rest" "output s1 = output s"
    using read_or_abort_stream [OF assms(1) wire, of 2] by auto
  have len7: "unat (?b1 AND 0x7F) = ?m" "(?b1 AND 0x80 \<noteq> 0) = True"
    using length_byte [of ?m True] by simp_all
  have "\<exists>s2. read_payload_len so ?m s1 = Some (Ret (Ok ?n, s2)) \<and>
      input s2 = key @ unmask payload key @ rest \<and> output s2 = output s1"
  proof (cases "?n \<le> 125")
    case True
    then show ?thesis
      using s1(2) by (simp add: read_payload_len_def)
  next
    case False
    have "?n div 256 < 256"
      using n by (simp add: div_less_iff_less_mult)
    then have "push_bit 8 (unat (of_nat (?n div 256) :: u8)) OR unat (of_nat (?n mod 256) :: u8) = ?n"
      by (simp add: nat_push_bit_or)
    then show ?thesis
      using read_or_abort_stream [OF assms(1), of s1 ?ext "key @ unmask payload key @ rest" 2] s1(2) False
      by (auto simp: read_payload_len_def)
  qed
  then obtain s2 where s2: "read_payload_len so ?m s1 = Some (Ret (Ok ?n, s2))"
    "input s2 = key @ unmask payload key @ rest" "output s2 = output s1"
    by blast
  obtain s3 where s3: "read_or_abort so 4 s2 = Some (Ret (Ok key, s3))"
    "input s3 = unmask payload key @ rest" "output s3 = output s2"
    using read_or_abort_stream [OF assms(1) s2(2) assms(3)] by blast
  have fits: "length (unmask payload key) \<le> length buf"
    using assms(4,5) by simp
  obtain s4 where s4: "read_payload so buf ?n (Some key) s3 =
      Some (Ret (Ok (), payload @ drop ?n buf, s4))" "input s4 = rest" "output s4 = output s3"
    using read_payload_stream [OF assms(1) s3(2) fits, of key] by (auto simp: unmask_involution)
  have "slice (payload @ drop ?n buf) 0 ?n = Ret payload"
    by (simp add: slice_def)
  then have "ws_read_once so buf s =
      bind_io (Some (handle_frame so (b0 AND 0x0F) payload s4))
        (\<lambda>(out, s'). Some (Ret (out, payload @ drop ?n buf, s')))"
    using s1(1) s2(1) s3(1) s4(1) len7 assms(4)
    by (simp add: ws_read_once_def ws_read_body_def ws_read_payload_def Let_def)
  then show ?thesis
    using s1(3) s2(3) s3(3) s4(2,3) by auto
qed

text \<open>The frames a client may send before the next text frame: anything but text and close.\<close>

type_synonym ws_frame = "u8 \<times> u8 list \<times> u8 list"

fun frame_wire :: "ws_frame \<Rightarrow> u8 list" where
  "frame_wire (b0, key, payload) = client_frame b0 key payload"

fun frame_pong :: "ws_frame \<Rightarrow> u8 list" where
  "frame_pong (b0, key, payload) = pong_of b0 payload"

fun frame_ok :: "ws_frame \<Rightarrow> bool" where
  "frame_ok (b0, key, payload) \<longleftrightarrow> length key = 4 \<and> length payload \<le> MAX_MSG_LEN"

fun skipped_frame :: "ws_frame \<Rightarrow> bool" where
  "skipped_frame (b0, key, payload) \<longleftrightarrow>
     frame_ok (b0, key, payload) \<and> b0 AND 0x0F \<noteq> OPCODE_TEXT \<and> b0 AND 0x0F \<noteq> OPCODE_CLOSE"

lemma ws_read_frame_text:
  assumes "stream_socket so input output" "list_all skipped_frame fs"
    and "input s = concat (map frame_wire fs) @ client_frame b0 key payload @ rest"
    and "b0 AND 0x0F = OPCODE_TEXT" "frame_ok (b0, key, payload)" "length buf = MAX_MSG_LEN"
  shows "\<exists>buf' s'. ws_read_frame so buf s = Some (Ret (Ok payload, buf', s')) \<and>
     length buf' = MAX_MSG_LEN \<and> input s' = rest \<and>
     output s' = output s @ concat (map frame_pong fs)"
  using assms(2,3,6)
proof (induction fs arbitrary: s buf)
  case Nil
  obtain s1 where s1: "input s1 = rest" "output s1 = output s"
    "ws_read_once so buf s =
       bind_io (Some (handle_frame so (b0 AND 0x0F) payload s1))
         (\<lambda>(out, s'). Some (Ret (out, payload @ drop (length payload) buf, s')))"
    using ws_read_once_stream [OF assms(1), of s b0 key payload rest buf] Nil.prems assms(5) by auto
  moreover have "pong_of b0 payload = []"
    using assms(4) opcodes_differ by (simp add: pong_of_def)
  ultimately show ?case
    using handle_frame_stream [OF assms(1), of b0 payload s1] assms(4,5) Nil.prems(3) opcodes_differ
    by (subst ws_read_frame.simps) auto
next
  case (Cons f fs)
  obtain b k p where f: "f = (b, k, p)" "length k = 4" "length p \<le> MAX_MSG_LEN"
    "b AND 0x0F \<noteq> OPCODE_TEXT" "b AND 0x0F \<noteq> OPCODE_CLOSE"
    using Cons.prems(1) by (cases f) auto
  let ?rest = "concat (map frame_wire fs) @ client_frame b0 key payload @ rest"
  obtain s1 where s1: "input s1 = ?rest" "output s1 = output s"
    "ws_read_once so buf s =
       bind_io (Some (handle_frame so (b AND 0x0F) p s1))
         (\<lambda>(out, s'). Some (Ret (out, p @ drop (length p) buf, s')))"
    using ws_read_once_stream [OF assms(1), of s b k p ?rest buf] Cons.prems f by auto
  obtain s2 where s2: "handle_frame so (b AND 0x0F) p s1 = Ret (FrameSkipped, s2)"
    "input s2 = ?rest" "output s2 = output s @ pong_of b p"
    using handle_frame_stream [OF assms(1), of b p s1] f s1 by auto
  have "ws_read_frame so buf s = ws_read_frame so (p @ drop (length p) buf) s2"
    by (subst ws_read_frame.simps) (simp add: s1(3) s2(1))
  then show ?case
    using Cons.IH [of s2 "p @ drop (length p) buf"] Cons.prems(1,3) s2 f by auto
qed

section \<open>Any peer\<close>

text \<open>
  What the command loop relies on: a read that returns does so without a panic, with a frame that
  fits the buffer, and a write returns.
\<close>

locale frame_transport =
  fixes tr :: "'t transport" and inv :: "'t \<Rightarrow> bool"
  assumes read_total: "inv t \<Longrightarrow> length buf = MAX_MSG_LEN \<Longrightarrow> tr_read_frame tr buf t = Some r \<Longrightarrow>
      \<exists>res buf' t'. r = Ret (res, buf', t') \<and> length buf' = MAX_MSG_LEN \<and> inv t' \<and>
        (\<forall>f. res = Ok f \<longrightarrow> length f \<le> MAX_MSG_LEN)"
    and write_total: "inv t \<Longrightarrow> \<exists>res t'. tr_write_frame tr dat t = Ret (res, t') \<and> inv t'"

definition tcp_inv :: "'s socket \<Rightarrow> 's tcp_state \<Rightarrow> bool" where
  "tcp_inv so t \<longleftrightarrow> (\<exists>l. fr_holds (tt_reader t) l)"

lemma tcp_inv_new: "tcp_inv so (tcp_transport_new s)"
  by (auto simp: tcp_inv_def tcp_transport_new_def intro: fr_holds_new)

lemma tcp_read_frame_total:
  assumes "tcp_read_frame so buf t = Some r" "tcp_inv so t" "length buf = MAX_MSG_LEN"
  shows "\<exists>res buf' t'. r = Ret (res, buf', t') \<and> length buf' = MAX_MSG_LEN \<and> tcp_inv so t' \<and>
     (\<forall>f. res = Ok f \<longrightarrow> length f \<le> MAX_MSG_LEN)"
  using assms(2,3)
proof (induction rule: tcp_read_frame.raw_induct [OF _ assms(1), consumes 0, case_names step])
  case (step read so buf t r)
  obtain l where l: "fr_holds (tt_reader t) l"
    using step(3) by (auto simp: tcp_inv_def)
  obtain got s where s: "so_read so (Suc 0) (tt_socket t) = (got, s)"
    by (cases "so_read so (Suc 0) (tt_socket t)")
  show ?case
  proof (cases "\<exists>b bs. got = ReadBytes (b # bs)")
    case False
    then show ?thesis
      using step(2-4) l by (cases got) (auto simp: s tcp_inv_def split: list.splits)
  next
    case True
    then obtain b bs where got: "got = ReadBytes (b # bs)" by blast
    show ?thesis
    proof (cases "b = 10")
      case True
      obtain r' where r': "frame_reader_push (tt_reader t) 10 =
          Ret (case line_result l of Ok f \<Rightarrow> Ok (Some f) | Err e \<Rightarrow> Err e, r')" "fr_holds r' []"
        using frame_reader_push_newline [OF l] by blast
      have reset: "fr_holds (frame_reader_reset r') []"
        using r'(2) by (simp add: fr_holds_def frame_reader_reset_def limit_defs)
      show ?thesis
        using step(2,4) r' reset True
        by (cases "line_result l")
          (auto simp: s got tcp_inv_def copy_into_def slice_def line_result_def split: if_splits)
    next
      case False
      obtain r' where r': "frame_reader_push (tt_reader t) b = Ret (Ok None, r')" "fr_holds r' (l @ [b])"
        using frame_reader_push_data [OF l False] by blast
      then show ?thesis
        using step(1) [of so buf "\<lparr>tt_socket = s, tt_reader = r'\<rparr>" r] step(2,4)
        by (auto simp: s got tcp_inv_def)
    qed
  qed
qed

interpretation tcp: frame_transport "tcp_transport so" "tcp_inv so" for so
proof unfold_locales
  show "\<exists>res buf' t'. r = Ret (res, buf', t') \<and> length buf' = MAX_MSG_LEN \<and> tcp_inv so t' \<and>
      (\<forall>f. res = Ok f \<longrightarrow> length f \<le> MAX_MSG_LEN)"
    if "tcp_inv so t" "length buf = MAX_MSG_LEN"
      "tr_read_frame (tcp_transport so) buf t = Some r" for t buf r
    using tcp_read_frame_total [of so buf t r] that by (simp add: tcp_transport_def)
  show "\<exists>res t'. tr_write_frame (tcp_transport so) dat t = Ret (res, t') \<and> tcp_inv so t'"
    if "tcp_inv so t" for t dat
    using that
    by (auto simp: tcp_transport_def tcp_write_frame_def tcp_inv_def split: prod.split result.split)
qed

text \<open>If the computation ends, it ends without a panic and with a result in \<open>P\<close>.\<close>

definition io_ok :: "('a \<Rightarrow> bool) \<Rightarrow> 'a exec option \<Rightarrow> bool" where
  "io_ok P m \<longleftrightarrow> (\<forall>r. m = Some r \<longrightarrow> (\<exists>x. r = Ret x \<and> P x))"

lemma io_ok_Ret [simp]: "io_ok P (Some (Ret x)) = P x"
  by (simp add: io_ok_def)

lemma io_ok_bind: "io_ok P m \<Longrightarrow> (\<And>x. P x \<Longrightarrow> io_ok Q (f x)) \<Longrightarrow> io_ok Q (bind_io m f)"
  by (cases m rule: option.exhaust; cases "the m") (auto simp: io_ok_def)

lemma io_ok_weaken: "io_ok P m \<Longrightarrow> (\<And>x. P x \<Longrightarrow> Q x) \<Longrightarrow> io_ok Q m"
  by (auto simp: io_ok_def)

lemma ws_read_exact_total:
  assumes "ws_read_exact so buf offset s = Some r" "socket_safe so" "offset \<le> length buf"
  shows "\<exists>res buf' s'. r = Ret (res, buf', s') \<and> length buf' = length buf"
  using assms(2,3)
proof (induction rule: ws_read_exact.raw_induct [OF _ assms(1), consumes 0, case_names step])
  case (step read so buf offset s r)
  obtain got s1 where s: "so_read so (length buf - offset) s = (got, s1)"
    by (cases "so_read so (length buf - offset) s")
  show ?case
  proof (cases "offset < length buf \<and> (\<exists>bs. got = ReadBytes bs \<and> bs \<noteq> [])")
    case False
    then show ?thesis
      using step(2) by (cases got) (auto simp: s split: if_splits)
  next
    case True
    then obtain bs where bs: "got = ReadBytes bs" "bs \<noteq> []" by blast
    then have "length bs \<le> length buf - offset"
      using step(3) s by (auto simp: socket_safe_def)
    then have fits: "offset + length bs \<le> length buf"
      using True by linarith
    let ?buf = "take offset buf @ bs @ drop (offset + length bs) buf"
    have "copy_into buf offset (offset + length bs) bs = Ret ?buf" "length ?buf = length buf"
      using fits by (simp_all add: copy_into_def)
    then show ?thesis
      using step(1) [of so ?buf "offset + length bs" s1 r] step(2,3) True bs fits
      by (simp add: s)
  qed
qed

lemma ws_read_exact_ok:
  "socket_safe so \<Longrightarrow> offset \<le> length buf \<Longrightarrow>
     io_ok (\<lambda>(res, buf', s'). length buf' = length buf) (ws_read_exact so buf offset s)"
  using ws_read_exact_total [of so buf offset s] by (fastforce simp: io_ok_def)

lemma read_or_abort_ok:
  "socket_safe so \<Longrightarrow>
     io_ok (\<lambda>(res, s'). \<forall>bs. res = Ok bs \<longrightarrow> length bs = n) (read_or_abort so n s)"
  unfolding read_or_abort_def
  by (rule io_ok_bind [OF ws_read_exact_ok]) (auto split: result.split)

lemma read_payload_len_ok: "socket_safe so \<Longrightarrow> io_ok (\<lambda>x. True) (read_payload_len so len7 s)"
  unfolding read_payload_len_def
  by (auto intro!: io_ok_bind [OF read_or_abort_ok] split: result.split)

lemma read_payload_ok:
  assumes "socket_safe so" "n \<le> length buf"
  shows "io_ok (\<lambda>(res, buf', s'). length buf' = length buf) (read_payload so buf n key s)"
proof -
  have "io_ok (\<lambda>(res, got, s'). length got = n) (ws_read_exact so (take n buf) 0 s)"
    using ws_read_exact_ok [OF assms(1), of 0 "take n buf" s] assms(2) by simp
  then show ?thesis
    unfolding read_payload_def using assms(2)
    by (auto simp: slice_def intro!: io_ok_bind split: result.split option.split)
qed

lemma handle_frame_ok:
  "\<exists>out s'. handle_frame so opcode payload s = Ret (out, s') \<and>
     (\<forall>f. out = FrameDone (Ok f) \<longrightarrow> f = payload)"
proof (cases "length payload \<le> 125")
  case True
  then show ?thesis
    by (simp add: handle_frame_def encode_pong_frame_eq slice_def)
qed (simp add: handle_frame_def encode_pong_frame_def)

definition outcome_fits :: "frame_outcome \<times> u8 list \<times> 's \<Rightarrow> bool" where
  "outcome_fits = (\<lambda>(out, buf, s).
     length buf = MAX_MSG_LEN \<and> (\<forall>f. out = FrameDone (Ok f) \<longrightarrow> length f \<le> MAX_MSG_LEN))"

lemma outcome_fits_simps [simp]:
  "outcome_fits (FrameDone (Err e), buf, s) \<longleftrightarrow> length buf = MAX_MSG_LEN"
  "outcome_fits (FrameSkipped, buf, s) \<longleftrightarrow> length buf = MAX_MSG_LEN"
  "outcome_fits (FrameDone (Ok f), buf, s) \<longleftrightarrow> length buf = MAX_MSG_LEN \<and> length f \<le> MAX_MSG_LEN"
  by (auto simp: outcome_fits_def)

lemma ws_read_payload_ok:
  assumes "socket_safe so" "length buf = MAX_MSG_LEN" "n \<le> MAX_MSG_LEN"
  shows "io_ok outcome_fits (ws_read_payload so buf opcode n key s)"
  unfolding ws_read_payload_def
proof (rule io_ok_bind [OF read_payload_ok [OF assms(1)]])
  fix x :: "(unit, transport_error) result \<times> u8 list \<times> 'a"
  assume "case x of (res, buf', s') \<Rightarrow> length buf' = length buf"
  then obtain r buf' s' where x: "x = (r, buf', s')" "length buf' = MAX_MSG_LEN"
    using assms(2) by (cases x) auto
  obtain out s'' where hf: "handle_frame so opcode (take n buf') s' = Ret (out, s'')"
    "\<forall>f. out = FrameDone (Ok f) \<longrightarrow> f = take n buf'"
    using handle_frame_ok [of so opcode "take n buf'" s'] by (elim exE conjE)
  have "length f \<le> MAX_MSG_LEN" if "out = FrameDone (Ok f)" for f
    using hf(2) that assms(3) by simp
  then have "outcome_fits (out, buf', s'')"
    using x(2) by (simp add: outcome_fits_def)
  with hf(1) show "io_ok outcome_fits (case x of (r, buf', s') \<Rightarrow> case r of
       Err e \<Rightarrow> Some (Ret (FrameDone (Err e), buf', s'))
     | Ok _ \<Rightarrow> bind_io (Some (slice buf' 0 n)) (\<lambda>payload.
         bind_io (Some (handle_frame so opcode payload s')) (\<lambda>(out, s''). Some (Ret (out, buf', s'')))))"
    using x assms(3) by (cases r) (simp_all add: slice_def)
qed (use assms in simp)

lemma ws_read_body_ok:
  assumes "socket_safe so" "length buf = MAX_MSG_LEN"
  shows "io_ok outcome_fits (ws_read_body so buf opcode masked n s)"
proof (cases "n > MAX_MSG_LEN")
  case False
  have "io_ok (\<lambda>x. True)
      (if masked then read_or_abort so 4 s else Some (Ret (Ok (replicate 4 0), s)))"
    using read_or_abort_ok [OF assms(1), of 4 s] by (auto elim: io_ok_weaken)
  then show ?thesis
    unfolding ws_read_body_def if_not_P [OF False]
  proof (rule io_ok_bind)
    show "io_ok outcome_fits (case x of (r, s') \<Rightarrow> case r of
         Err e \<Rightarrow> Some (Ret (FrameDone (Err e), buf, s'))
       | Ok mask_key \<Rightarrow> ws_read_payload so buf opcode n (if masked then Some mask_key else None) s')" for x
      using ws_read_payload_ok [OF assms] assms(2) False by (cases x; cases "fst x") simp_all
  qed
qed (simp add: ws_read_body_def too_large_def assms(2))

lemma ws_read_once_ok:
  assumes "socket_safe so" "length buf = MAX_MSG_LEN"
  shows "io_ok outcome_fits (ws_read_once so buf s)"
  unfolding ws_read_once_def Let_def
proof (rule io_ok_bind [OF read_or_abort_ok [OF assms(1)]])
  have len: "io_ok outcome_fits (bind_io (read_payload_len so len7 s') (\<lambda>(r, s''). case r of
       Err e \<Rightarrow> Some (Ret (FrameDone (Err e), buf, s''))
     | Ok n \<Rightarrow> ws_read_body so buf opcode masked n s''))" for len7 s' opcode masked
  proof (rule io_ok_bind [OF read_payload_len_ok [OF assms(1)]])
    show "io_ok outcome_fits (case x of (r, s'') \<Rightarrow> case r of
         Err e \<Rightarrow> Some (Ret (FrameDone (Err e), buf, s''))
       | Ok n \<Rightarrow> ws_read_body so buf opcode masked n s'')" for x
      using ws_read_body_ok [OF assms] assms(2) by (cases x; cases "fst x") simp_all
  qed
  show "io_ok outcome_fits (case x of (r, s') \<Rightarrow> case r of
       Err e \<Rightarrow> Some (Ret (FrameDone (Err e), buf, s'))
     | Ok hdr \<Rightarrow> bind_io (read_payload_len so (unat (hdr ! 1 AND 0x7F)) s') (\<lambda>(r, s''). case r of
         Err e \<Rightarrow> Some (Ret (FrameDone (Err e), buf, s''))
       | Ok n \<Rightarrow> ws_read_body so buf (hdr ! 0 AND 0x0F) (hdr ! 1 AND 0x80 \<noteq> 0) n s''))" for x
    using len assms(2) by (cases x; cases "fst x") simp_all
qed

lemma ws_read_frame_total:
  assumes "ws_read_frame so buf s = Some r" "socket_safe so" "length buf = MAX_MSG_LEN"
  shows "\<exists>res buf' s'. r = Ret (res, buf', s') \<and> length buf' = MAX_MSG_LEN \<and>
     (\<forall>f. res = Ok f \<longrightarrow> length f \<le> MAX_MSG_LEN)"
  using assms(2,3)
proof (induction rule: ws_read_frame.raw_induct [OF _ assms(1), consumes 0, case_names step])
  case (step read so buf s r)
  from step(2) show ?case
  proof (cases rule: bind_io_cases)
    case 1
    then show ?thesis
      using ws_read_once_ok [OF step(3,4), of s] by (simp add: io_ok_def)
  next
    case (2 y)
    obtain out buf' s' where y: "y = (out, buf', s')"
      by (cases y)
    have ok: "length buf' = MAX_MSG_LEN" "\<forall>f. out = FrameDone (Ok f) \<longrightarrow> length f \<le> MAX_MSG_LEN"
      using ws_read_once_ok [OF step(3,4), of s] 2(1) by (simp_all add: io_ok_def outcome_fits_def y)
    show ?thesis
      using 2(2) ok step(1) [of so buf' s' r] step(3) by (cases out) (auto simp: y)
  qed
qed

lemma ws_write_frame_total: "\<exists>res s'. ws_write_frame so dat s = Ret (res, s')"
proof -
  have "\<exists>r hdr. encode_text_frame_header (length dat) (replicate 4 0) = Ret (r, hdr) \<and>
      (\<forall>n. r = Ok n \<longrightarrow> n \<le> length hdr)"
    by (cases "length dat > MAX_MSG_LEN"; cases "length dat \<le> 125")
      (simp_all add: encode_text_frame_header_def put_seq_eq)
  then obtain r hdr where "encode_text_frame_header (length dat) (replicate 4 0) = Ret (r, hdr)"
    "\<forall>n. r = Ok n \<longrightarrow> n \<le> length hdr"
    by blast
  then show ?thesis
    by (cases r) (auto simp: ws_write_frame_def slice_def split: prod.split result.split)
qed

interpretation ws: frame_transport "ws_transport so" "\<lambda>s. socket_safe so" for so
proof unfold_locales
  show "\<exists>res buf' s'. r = Ret (res, buf', s') \<and> length buf' = MAX_MSG_LEN \<and> socket_safe so \<and>
      (\<forall>f. res = Ok f \<longrightarrow> length f \<le> MAX_MSG_LEN)"
    if "socket_safe so" "length buf = MAX_MSG_LEN"
      "tr_read_frame (ws_transport so) buf s = Some r" for s buf r
    using ws_read_frame_total [of so buf s r] that by (simp add: ws_transport_def)
  show "\<exists>res s'. tr_write_frame (ws_transport so) dat s = Ret (res, s') \<and> socket_safe so"
    if "socket_safe so" for s dat
    using that ws_write_frame_total by (simp add: ws_transport_def)
qed

section \<open>A peer to evaluate instances with\<close>

text \<open>The bytes to come and the bytes written; a read returns at most \<open>k + 1\<close> bytes.\<close>

definition chunk_socket :: "nat \<Rightarrow> (u8 list \<times> u8 list) socket" where
  "chunk_socket k =
     \<lparr>so_read = (\<lambda>n (inp, out).
        (ReadBytes (take (min n (Suc k)) inp), (drop (min n (Suc k)) inp, out))),
      so_write_all = (\<lambda>bs (inp, out). (Ok (), (inp, out @ bs))),
      so_abort = (\<lambda>s. s), so_flush = (\<lambda>s. s), so_accept = (\<lambda>port s. (Ok (), s))\<rparr>"

lemma chunk_socket_stream: "stream_socket (chunk_socket k) fst snd"
  by (auto simp: stream_socket_def chunk_socket_def split_beta)

lemma chunk_socket_safe: "socket_safe (chunk_socket k)"
  by (auto simp: socket_safe_def chunk_socket_def split_beta)

text \<open>On a WebSocket stream in which the client sends any number of ping, pong and unknown
  frames and then a text frame, however the bytes are cut into reads, \<open>read_frame\<close> returns the
  unmasked payload of the text frame, leaves the bytes after it for the next call, and has answered
  each ping of at most 125 bytes with its pong and nothing else.\<close>

theorem websocket_text_delivered:
  assumes "stream_socket so input output" "list_all skipped_frame fs"
    and "input s = concat (map frame_wire fs) @ client_frame b0 key payload @ rest"
    and "b0 AND 0x0F = OPCODE_TEXT" "frame_ok (b0, key, payload)" "length buf = MAX_MSG_LEN"
  shows "\<exists>buf' s'. tr_read_frame (ws_transport so) buf s = Some (Ret (Ok payload, buf', s')) \<and>
     input s' = rest \<and> output s' = output s @ concat (map frame_pong fs)"
  using ws_read_frame_text [OF assms] by (auto simp: ws_transport_def)

theorem websocket_text_delivered_witness:
  "\<exists>buf' s'. tr_read_frame (ws_transport (chunk_socket 2)) (replicate MAX_MSG_LEN 0)
       (client_frame 0x89 [1, 2, 3, 4] [7, 8] @ client_frame 0x81 [9, 9, 9, 9] [104, 105] @ [5], []) =
       Some (Ret (Ok [104, 105], buf', s')) \<and> fst s' = [5] \<and> snd s' = [0x8A, 2, 7, 8]"
proof -
  have ops: "(0x89 AND 0x0F :: u8) = OPCODE_PING" "(0x81 AND 0x0F :: u8) = OPCODE_TEXT"
    by (simp_all add: opcode_defs)
  let ?s = "(client_frame 0x89 [1, 2, 3, 4] [7, 8] @ client_frame 0x81 [9, 9, 9, 9] [104, 105] @ [5],
    [] :: u8 list)"
  have "list_all skipped_frame [(0x89, [1, 2, 3, 4], [7, 8])]" "frame_ok (0x81, [9, 9, 9, 9], [104, 105])"
    using ops opcodes_differ by (simp_all add: limit_defs)
  moreover have "fst ?s = concat (map frame_wire [(0x89, [1, 2, 3, 4], [7, 8])]) @
      client_frame 0x81 [9, 9, 9, 9] [104, 105] @ [5]"
    by simp
  ultimately show ?thesis
    using websocket_text_delivered [of "chunk_socket 2" fst snd "[(0x89, [1, 2, 3, 4], [7, 8])]" ?s "0x81"
        "[9, 9, 9, 9]" "[104, 105]" "[5]" "replicate MAX_MSG_LEN 0"] chunk_socket_stream ops
    by (simp add: pong_of_def)
qed

end
