(* ===== verification/Peers.thy ===== *)
theory Peers
  imports Transport
begin

text \<open>
  Peers that send something and go: the interface \<open>frame_source\<close> says what a transport delivers
  to the command loop and what it puts on the wire, and both transports provide it, TCP for any
  byte stream and WebSocket for any sequence of client frames.
\<close>

section \<open>The interface\<close>

text \<open>A delivery is what the transport writes on its own before the frame, and the frame.\<close>

type_synonym delivery = "u8 list \<times> (u8 list, str) result"

definition frame_of :: "(u8 list, str) result \<Rightarrow> (u8 list, transport_error) result" where
  "frame_of r = (case r of Ok f \<Rightarrow> Ok f | Err e \<Rightarrow> Err (ProtocolError e))"

text \<open>\<open>delivers t ds fin\<close>: the reads from \<open>t\<close> give \<open>ds\<close> and then the end, where \<open>fin\<close> is written.\<close>

locale frame_source =
  fixes tr :: "'t transport"
    and delivers :: "'t \<Rightarrow> delivery list \<Rightarrow> u8 list \<Rightarrow> bool"
    and out :: "'t \<Rightarrow> u8 list"
    and wire :: "u8 list \<Rightarrow> u8 list"
  assumes read_next: "delivers t ((pre, r) # ds) fin \<Longrightarrow> length buf = MAX_MSG_LEN \<Longrightarrow>
      \<exists>buf' t'. tr_read_frame tr buf t = Some (Ret (frame_of r, buf', t')) \<and>
        length buf' = MAX_MSG_LEN \<and> delivers t' ds fin \<and> out t' = out t @ pre"
    and read_end: "delivers t [] fin \<Longrightarrow> length buf = MAX_MSG_LEN \<Longrightarrow>
      \<exists>buf' t'. tr_read_frame tr buf t = Some (Ret (Err Disconnected, buf', t')) \<and> out t' = out t @ fin"
    and write_line: "delivers t ds fin \<Longrightarrow> length dat \<le> MAX_MSG_LEN \<Longrightarrow>
      \<exists>t'. tr_write_frame tr dat t = Ret (Ok (), t') \<and> delivers t' ds fin \<and> out t' = out t @ wire dat"

section \<open>TCP\<close>

definition tcp_delivers ::
  "'s socket \<Rightarrow> ('s \<Rightarrow> u8 list) \<Rightarrow> ('s \<Rightarrow> u8 list) \<Rightarrow> 's tcp_state \<Rightarrow> delivery list \<Rightarrow> u8 list \<Rightarrow> bool" where
  "tcp_delivers so input output t ds fin \<longleftrightarrow>
     stream_socket so input output \<and> fin = [] \<and>
     (\<exists>l. fr_holds (tt_reader t) l \<and> 10 \<notin> set l \<and>
        ds = map (Pair []) (stream_frames (l @ input (tt_socket t))))"

lemma tcp_delivers_new:
  "stream_socket so input output \<Longrightarrow>
     tcp_delivers so input output (tcp_transport_new s) (map (Pair []) (stream_frames (input s))) []"
  using fr_holds_new by (force simp: tcp_delivers_def tcp_transport_new_def)

lemma stream_frames_newline:
  "10 \<notin> set l \<Longrightarrow> stream_frames (l @ 10 # bs) = line_result l # stream_frames bs"
  by (simp add: stream_frames_def split_on_append_sep)

lemma stream_frames_none: "10 \<notin> set l \<Longrightarrow> stream_frames l = []"
  by (simp add: stream_frames_def split_on_no_sep)

lemma tcp_deliver_next:
  assumes "tcp_delivers so input output t (d # ds) fin" "length buf = MAX_MSG_LEN"
  shows "\<exists>buf' t'. tcp_read_frame so buf t = Some (Ret (frame_of (snd d), buf', t')) \<and>
     length buf' = MAX_MSG_LEN \<and> tcp_delivers so input output t' ds fin \<and>
     output (tt_socket t') = output (tt_socket t) \<and> fst d = []"
proof -
  obtain l where l: "stream_socket so input output" "fin = []" "fr_holds (tt_reader t) l" "10 \<notin> set l"
    "d # ds = map (Pair []) (stream_frames (l @ input (tt_socket t)))"
    using assms(1) by (auto simp: tcp_delivers_def)
  have "stream_frames (l @ input (tt_socket t)) \<noteq> []"
    using l(5) by auto
  then have "10 \<in> set (l @ input (tt_socket t))"
    using stream_frames_none by blast
  then have "10 \<in> set (input (tt_socket t))"
    using l(4) by simp
  then obtain m rest where m: "input (tt_socket t) = m @ 10 # rest" "10 \<notin> set m"
    using split_at_newline by blast
  have d: "d = ([], line_result (l @ m))" "ds = map (Pair []) (stream_frames rest)"
    using l(4,5) m stream_frames_newline [of "l @ m" rest] by auto
  obtain buf' t' where t': "tcp_read_frame so buf t = Some (Ret (frame_of (line_result (l @ m)), buf', t'))"
    "length buf' = MAX_MSG_LEN" "fr_holds (tt_reader t') []" "input (tt_socket t') = rest"
    "output (tt_socket t') = output (tt_socket t)"
    using tcp_read_frame_line [OF l(1,3) m assms(2)] by (auto simp: frame_of_def)
  then have "tcp_delivers so input output t' ds fin"
    using l(1,2) d(2) by (auto simp: tcp_delivers_def intro: exI [of _ "[]"])
  then show ?thesis
    using t' d(1) by simp
qed

lemma tcp_deliver_end:
  assumes "tcp_delivers so input output t [] fin"
  shows "\<exists>buf' t'. tcp_read_frame so buf t = Some (Ret (Err Disconnected, buf', t')) \<and>
     output (tt_socket t') = output (tt_socket t) @ fin"
proof -
  obtain l where l: "stream_socket so input output" "fin = []" "fr_holds (tt_reader t) l" "10 \<notin> set l"
    "stream_frames (l @ input (tt_socket t)) = []"
    using assms by (auto simp: tcp_delivers_def)
  have "10 \<notin> set (input (tt_socket t))"
  proof
    assume "10 \<in> set (input (tt_socket t))"
    then obtain m rest where "input (tt_socket t) = m @ 10 # rest" "10 \<notin> set m"
      using split_at_newline by blast
    then show False
      using l(4,5) stream_frames_newline [of "l @ m" rest] by simp
  qed
  then show ?thesis
    using tcp_read_frame_end [OF l(1,3), of buf] l(2) by auto
qed

lemma tcp_deliver_write:
  assumes "tcp_delivers so input output t ds fin"
  shows "\<exists>t'. tcp_write_frame so dat t = Ret (Ok (), t') \<and> tcp_delivers so input output t' ds fin \<and>
     output (tt_socket t') = output (tt_socket t) @ dat"
proof -
  have so: "stream_socket so input output"
    using assms by (simp add: tcp_delivers_def)
  obtain s' where "so_write_all so dat (tt_socket t) = (Ok (), s')"
    "input s' = input (tt_socket t)" "output s' = output (tt_socket t) @ dat"
    using stream_socketD(2) [OF so] by blast
  then show ?thesis
    using assms by (simp add: tcp_write_frame_def tcp_delivers_def)
qed

interpretation tcp_source: frame_source "tcp_transport so" "tcp_delivers so input output"
  "\<lambda>t. output (tt_socket t)" "\<lambda>dat. dat" for so input "output"
proof unfold_locales
  show "\<exists>buf' t'. tr_read_frame (tcp_transport so) buf t = Some (Ret (frame_of r, buf', t')) \<and>
      length buf' = MAX_MSG_LEN \<and> tcp_delivers so input output t' ds fin \<and>
      output (tt_socket t') = output (tt_socket t) @ pre"
    if "tcp_delivers so input output t ((pre, r) # ds) fin" "length buf = MAX_MSG_LEN"
    for t pre r ds fin buf
    using tcp_deliver_next [OF that] by (auto simp: tcp_transport_def)
qed (use tcp_deliver_end tcp_deliver_write in \<open>simp_all add: tcp_transport_def\<close>)

section \<open>WebSocket\<close>

text \<open>What the frames of a client come to: pings are answered, anything but text and close is
  skipped, a close frame ends the connection, and so does the end of the stream.\<close>

fun ws_script :: "u8 list \<Rightarrow> ws_frame list \<Rightarrow> delivery list \<times> u8 list" where
  "ws_script pre [] = ([], pre)"
| "ws_script pre ((b0, key, payload) # fs) =
     (if b0 AND 0x0F = OPCODE_TEXT then
        (case ws_script [] fs of (ds, fin) \<Rightarrow> ((pre, Ok payload) # ds, fin))
      else if b0 AND 0x0F = OPCODE_CLOSE then ([], pre @ [0x88, 0x00])
      else ws_script (pre @ pong_of b0 payload) fs)"

definition ws_delivers ::
  "'s socket \<Rightarrow> ('s \<Rightarrow> u8 list) \<Rightarrow> ('s \<Rightarrow> u8 list) \<Rightarrow> 's \<Rightarrow> delivery list \<Rightarrow> u8 list \<Rightarrow> bool" where
  "ws_delivers so input output s ds fin \<longleftrightarrow>
     stream_socket so input output \<and>
     (\<exists>fs. input s = concat (map frame_wire fs) \<and> list_all frame_ok fs \<and> ws_script [] fs = (ds, fin))"

text \<open>One call of \<open>read_frame\<close>: the first delivery of the script, or its end.\<close>

lemma ws_read_frame_script:
  assumes "stream_socket so input output" "input s = concat (map frame_wire fs)" "list_all frame_ok fs"
    and "length buf = MAX_MSG_LEN" "output s = o0 @ pre"
  shows "\<exists>buf' s'.
     case ws_script pre fs of
       ([], fin) \<Rightarrow> ws_read_frame so buf s = Some (Ret (Err Disconnected, buf', s')) \<and> output s' = o0 @ fin
     | ((pre', r) # ds, fin) \<Rightarrow>
         ws_read_frame so buf s = Some (Ret (frame_of r, buf', s')) \<and> length buf' = MAX_MSG_LEN \<and>
         ws_delivers so input output s' ds fin \<and> output s' = o0 @ pre'"
  using assms(2-)
proof (induction fs arbitrary: s buf pre)
  case Nil
  obtain s1 where s1: "so_read so 2 s = (ReadBytes [], s1)" "output s1 = output s"
    using stream_socketD(1) [OF assms(1), of 2 s] Nil.prems(1) by auto
  then have "ws_read_exact so (replicate 2 0) 0 s = Some (Ret (Err Disconnected, replicate 2 0, s1))"
    by (subst ws_read_exact.simps) simp
  then have "ws_read_once so buf s = Some (Ret (FrameDone (Err Disconnected), buf, so_abort so s1))"
    by (simp add: ws_read_once_def read_or_abort_def)
  then show ?case
    using s1(2) Nil.prems(4) stream_socketD(3) [OF assms(1)] by (subst ws_read_frame.simps) simp
next
  case (Cons f fs)
  obtain b0 key payload where f: "f = (b0, key, payload)" "length key = 4" "length payload \<le> MAX_MSG_LEN"
    using Cons.prems(2) by (cases f) auto
  let ?rest = "concat (map frame_wire fs)"
  obtain s1 where s1: "input s1 = ?rest" "output s1 = output s"
    "ws_read_once so buf s =
       bind_io (Some (handle_frame so (b0 AND 0x0F) payload s1))
         (\<lambda>(out, s'). Some (Ret (out, payload @ drop (length payload) buf, s')))"
    using ws_read_once_stream [OF assms(1), of s b0 key payload ?rest buf] Cons.prems f by auto
  obtain s2 where s2: "handle_frame so (b0 AND 0x0F) payload s1 =
       Ret (if b0 AND 0x0F = OPCODE_TEXT then FrameDone (Ok payload)
            else if b0 AND 0x0F = OPCODE_CLOSE then FrameDone (Err Disconnected)
            else FrameSkipped, s2)"
    "b0 AND 0x0F \<noteq> OPCODE_CLOSE \<Longrightarrow> input s2 = ?rest \<and> output s2 = output s @ pong_of b0 payload"
    "b0 AND 0x0F = OPCODE_CLOSE \<Longrightarrow> output s2 = output s @ [0x88, 0x00]"
    using handle_frame_stream [OF assms(1), of b0 payload s1] s1(1,2) by auto
  have len: "length (payload @ drop (length payload) buf) = MAX_MSG_LEN"
    using f(3) Cons.prems(3) by simp
  consider "b0 AND 0x0F = OPCODE_TEXT" | "b0 AND 0x0F = OPCODE_CLOSE"
    | "b0 AND 0x0F \<noteq> OPCODE_TEXT" "b0 AND 0x0F \<noteq> OPCODE_CLOSE" by blast
  then show ?case
  proof cases
    case 1
    then have "pong_of b0 payload = []" "b0 AND 0x0F \<noteq> OPCODE_CLOSE"
      using opcodes_differ by (auto simp: pong_of_def)
    moreover from this have "ws_delivers so input output s2 (fst (ws_script [] fs)) (snd (ws_script [] fs))"
      using s2(2) assms(1) Cons.prems(2) by (auto simp: ws_delivers_def)
    ultimately show ?thesis
      using 1 s1 s2 len Cons.prems(4) f(1)
      by (subst ws_read_frame.simps) (auto simp: frame_of_def split: prod.split)
  next
    case 2
    then show ?thesis
      using s1 s2(1,3) Cons.prems(4) f(1) opcodes_differ
      by (subst ws_read_frame.simps) auto
  next
    case 3
    have step: "ws_read_frame so buf s = ws_read_frame so (payload @ drop (length payload) buf) s2"
      using 3 by (subst ws_read_frame.simps) (simp add: s1(3) s2(1))
    have "input s2 = ?rest" "list_all frame_ok fs" "output s2 = o0 @ pre @ pong_of b0 payload"
      using 3 s2(2) Cons.prems(2,4) by simp_all
    note Cons.IH [OF this(1,2) len this(3), folded step]
    then show ?thesis
      using 3 f(1) by simp
  qed
qed

lemma ws_deliver_next:
  assumes "ws_delivers so input output s ((pre, r) # ds) fin" "length buf = MAX_MSG_LEN"
  shows "\<exists>buf' s'. ws_read_frame so buf s = Some (Ret (frame_of r, buf', s')) \<and>
     length buf' = MAX_MSG_LEN \<and> ws_delivers so input output s' ds fin \<and> output s' = output s @ pre"
proof -
  obtain fs where fs: "stream_socket so input output" "input s = concat (map frame_wire fs)"
    "list_all frame_ok fs" "ws_script [] fs = ((pre, r) # ds, fin)"
    using assms(1) by (auto simp: ws_delivers_def)
  then show ?thesis
    using ws_read_frame_script [OF fs(1-3) assms(2), of "output s" "[]"] by simp
qed

lemma ws_deliver_end:
  assumes "ws_delivers so input output s [] fin" "length buf = MAX_MSG_LEN"
  shows "\<exists>buf' s'. ws_read_frame so buf s = Some (Ret (Err Disconnected, buf', s')) \<and>
     output s' = output s @ fin"
proof -
  obtain fs where fs: "stream_socket so input output" "input s = concat (map frame_wire fs)"
    "list_all frame_ok fs" "ws_script [] fs = ([], fin)"
    using assms(1) by (auto simp: ws_delivers_def)
  then show ?thesis
    using ws_read_frame_script [OF fs(1-3) assms(2), of "output s" "[]"] by simp
qed

definition server_frame :: "u8 list \<Rightarrow> u8 list" where
  "server_frame dat = rfc_header 0x81 None (length dat) @ dat"

lemma encode_text_frame_header_eq:
  assumes "n \<le> MAX_MSG_LEN"
  shows "\<exists>hdr. encode_text_frame_header n (replicate 4 0) =
     Ret (Ok (length (rfc_header 0x81 None n)), hdr) \<and>
     length (rfc_header 0x81 None n) \<le> length hdr \<and>
     take (length (rfc_header 0x81 None n)) hdr = rfc_header 0x81 None n"
  using assms
  by (auto simp: encode_text_frame_header_def rfc_header_def length_field_def put_seq_eq
      drop_bit_8_nat and_FF_nat)

lemma ws_deliver_write:
  assumes "ws_delivers so input output s ds fin" "length dat \<le> MAX_MSG_LEN"
  shows "\<exists>s'. ws_write_frame so dat s = Ret (Ok (), s') \<and> ws_delivers so input output s' ds fin \<and>
     output s' = output s @ server_frame dat"
proof -
  have so: "stream_socket so input output"
    using assms(1) by (simp add: ws_delivers_def)
  let ?h = "rfc_header 0x81 None (length dat)"
  obtain hdr where h: "encode_text_frame_header (length dat) (replicate 4 0) = Ret (Ok (length ?h), hdr)"
    "length ?h \<le> length hdr" "take (length ?h) hdr = ?h"
    using encode_text_frame_header_eq [OF assms(2)] by blast
  obtain s1 where s1: "so_write_all so ?h s = (Ok (), s1)" "input s1 = input s" "output s1 = output s @ ?h"
    using stream_socketD(2) [OF so] by blast
  obtain s2 where "so_write_all so dat s1 = (Ok (), s2)" "input s2 = input s1" "output s2 = output s1 @ dat"
    using stream_socketD(2) [OF so] by blast
  then show ?thesis
    using assms(1) s1 h by (simp add: ws_write_frame_def ws_delivers_def server_frame_def slice_def)
qed

interpretation ws_source: frame_source "ws_transport so" "ws_delivers so input output"
  "output" server_frame for so input "output"
  by unfold_locales (use ws_deliver_next ws_deliver_end ws_deliver_write in \<open>simp_all add: ws_transport_def\<close>)

end
