(* ===== verification/Client.thy ===== *)
theory Client
  imports Peers Session
begin

text \<open>
  The command loop \<open>handle_client\<close> of \<open>src/net.rs\<close> over any transport: each frame is parsed,
  routed, dispatched on the state of the connection and answered. \<open>serve\<close> is its specification on
  the list of frames a byte stream holds.
\<close>

section \<open>The loop\<close>

text \<open>The answer to one frame.\<close>

definition answer_frame ::
  "heapless \<Rightarrow> from_slice \<Rightarrow> u8 list \<Rightarrow> device_state \<Rightarrow> (response \<times> device_state) exec" where
  "answer_frame hl from_slice frame st =
     (case parse_command from_slice frame of
        Err err_code \<Rightarrow> Ret (response_error '''' err_code, st)
      | Ok cmd \<Rightarrow> run_command hl cmd st)"

text \<open>Serialise into the response buffer and write; a response that does not fit is not sent. The
  first component is whether the write, if there was one, succeeded.\<close>

definition send_response ::
  "to_slice \<Rightarrow> 't transport \<Rightarrow> response \<Rightarrow> u8 list \<Rightarrow> 't \<Rightarrow> (bool \<times> u8 list \<times> 't) exec" where
  "send_response to_slice tr resp resp_buf t =
     bind_exec (serialize_response to_slice resp resp_buf) (\<lambda>(r, resp_buf').
       case r of
         Err _ \<Rightarrow> Ret (True, resp_buf', t)
       | Ok n \<Rightarrow>
           bind_exec (slice resp_buf' 0 n) (\<lambda>line.
           bind_exec (tr_write_frame tr line t) (\<lambda>(w, t').
             Ret (case w of Ok _ \<Rightarrow> True | Err _ \<Rightarrow> False, resp_buf', t'))))"

text \<open>How the loop ends: the client is gone, or the device resets into the USB bootloader (after
  the LED signal \<open>Rebooting\<close> and 650 ms).\<close>

datatype client_end = ClientGone | ResetToUsbBoot

partial_function (option) client_loop ::
  "heapless \<Rightarrow> from_slice \<Rightarrow> to_slice \<Rightarrow> 't transport \<Rightarrow> u8 list \<Rightarrow> u8 list \<Rightarrow> device_state \<Rightarrow> 't \<Rightarrow>
   (client_end \<times> device_state \<times> 't) exec option" where
  "client_loop hl from_slice to_slice tr frame_buf resp_buf st t =
     bind_io (tr_read_frame tr frame_buf t) (\<lambda>(r, frame_buf', t1).
       case r of
         Err e \<Rightarrow>
           (case e of
              ProtocolError err_code \<Rightarrow>
                bind_io (Some (send_response to_slice tr (response_error '''' err_code) resp_buf t1))
                  (\<lambda>(sent, resp_buf', t2).
                     client_loop hl from_slice to_slice tr frame_buf' resp_buf' st t2)
            | Disconnected \<Rightarrow> Some (Ret (ClientGone, st, t1))
            | Timeout \<Rightarrow> Some (Ret (ClientGone, st, t1)))
       | Ok frame \<Rightarrow>
           bind_io (Some (answer_frame hl from_slice frame st)) (\<lambda>(resp, st').
           bind_io (Some (send_response to_slice tr resp resp_buf t1)) (\<lambda>(sent, resp_buf', t2).
             if \<not> sent then Some (Ret (ClientGone, st', t2))
             else if ds_pending_reboot st' then Some (Ret (ResetToUsbBoot, st', t2))
             else client_loop hl from_slice to_slice tr frame_buf' resp_buf' st' t2)))"

definition client_state :: "str \<Rightarrow> str \<Rightarrow> device_state" where
  "client_state config_ssid config_ip =
     (device_state_default False)
       \<lparr>ds_config_ssid := config_ssid, ds_config_ip := config_ip, ds_config_connected := True\<rparr>"

definition handle_client ::
  "heapless \<Rightarrow> from_slice \<Rightarrow> to_slice \<Rightarrow> 't transport \<Rightarrow> str \<Rightarrow> str \<Rightarrow> 't \<Rightarrow>
   (client_end \<times> device_state \<times> 't) exec option" where
  "handle_client hl from_slice to_slice tr config_ssid config_ip t =
     client_loop hl from_slice to_slice tr (replicate MAX_MSG_LEN 0) (replicate MAX_MSG_LEN 0)
       (client_state config_ssid config_ip) t"

section \<open>Responses the loop can serialise\<close>

lemma wf_error_fits: "wf_response i r \<Longrightarrow> \<not> r_ok r \<Longrightarrow> response_fits r"
  by (simp add: wf_response_def response_fits_def)

lemma response_fits_simps [simp]:
  "response_fits (response_error i e)" "response_fits (response_ok i None)"
  "response_fits (response_ok i (Some (Config a b c d)))" "response_fits (response_ok i (Some (Version v)))"
  by (simp_all add: response_fits_def response_ok_def response_error_def)

lemma plain_answers_fit: "r \<in> set (plain_answers hl cmd st) \<Longrightarrow> response_fits r"
proof -
  have "response_fits (gpio_handle_set_mode cmd)" "response_fits (handle_set_duty cmd)"
    "response_fits (handle_set_freq cmd)" "response_fits (handle_enable cmd)"
    "response_fits (handle_disable cmd)"
    by (simp_all add: gpio_handle_set_mode_def pwm_defs validate_pin_def validate_channel_def
        validate_index_def split: option.split)
  then have "list_all response_fits (plain_answers hl cmd st)"
    by (simp add: plain_answers_def Let_def split: option.split)
  then show "r \<in> set (plain_answers hl cmd st) \<Longrightarrow> response_fits r"
    by (simp add: list_all_iff)
qed

lemma configure_macro_fits:
  assumes "\<forall>r. handler cmd = Err r \<longrightarrow> wf_response (c_id cmd) r \<and> \<not> r_ok r"
    and "configure_macro handler field arr cmd = Ret (r, arr')"
  shows "response_fits r"
  using assms by (auto simp: configure_macro_def bind_exec_eq_Ret split: result.splits
      intro: wf_error_fits)

lemma configure_fits:
  "configure_macro uart_handle_configure f u cmd = Ret (r, u') \<Longrightarrow> response_fits r"
  "configure_macro spi_handle_configure f s cmd = Ret (r, s') \<Longrightarrow> response_fits r"
  "configure_macro i2c_handle_configure f i cmd = Ret (r, i') \<Longrightarrow> response_fits r"
  using uart_conf.refused spi_conf.refused i2c_conf.refused
  by (blast intro: configure_macro_fits)+

lemma subscribe_fits:
  assumes "heapless_ok hl"
  shows "handle_subscribe hl i t st = (r, st') \<Longrightarrow> response_fits r"
    and "unsubscribe W i st = (r, st') \<Longrightarrow> response_fits r"
  by (auto simp: handle_subscribe_eq [OF assms] unsubscribe_def Let_def split: if_splits)

lemma dispatch_fits:
  assumes "heapless_ok hl" "route \<in> set valid_routes" "dispatch hl cmd route st = Ret (r, st')"
  shows "response_fits r"
proof (cases "route \<in> set plain_routes")
  case True
  then have "dispatch hl cmd route st \<in> set (map (\<lambda>route. dispatch hl cmd route st) plain_routes)"
    by simp
  then show ?thesis
    using assms(3) plain_answers_fit [of r hl cmd st] unfolding dispatch_plain by auto
next
  case False
  then have "route \<in> set session_routes"
    using valid_route_cases [OF assms(2)] by blast
  then consider "route \<in> set write_routes"
    | "route = (''gpio'', ''subscribe'')" | "route = (''gpio'', ''unsubscribe'')"
    | "route = (''adc'', ''subscribe'')" | "route = (''adc'', ''unsubscribe'')"
    | "route = (''uart'', ''configure'')" | "route = (''spi'', ''configure'')"
    | "route = (''i2c'', ''configure'')" | "route = (''system'', ''reboot_to_bootloader'')"
    unfolding session_routes_def write_routes_def list.set insert_iff empty_iff by satx
  then show ?thesis
  proof cases
    case 1
    then show ?thesis
      using dispatch_write_keeps [OF 1 assms(3)] by (simp add: response_fits_def)
  qed (use assms(3) in
      \<open>auto simp: dispatch_subscribe dispatch_configure dispatch_reboot bind_exec_eq_Ret
         handle_unsubscribe_adc_eq [OF assms(1)] handle_unsubscribe_gpio_eq [OF assms(1)]
         split: option.splits result.splits dest: subscribe_fits [OF assms(1)] configure_fits\<close>)
qed

lemma run_command_fits:
  "heapless_ok hl \<Longrightarrow> run_command hl cmd st = Ret (r, st') \<Longrightarrow> response_fits r"
  by (auto simp: run_command_def validate_route_Ok dest: dispatch_fits validate_route_Err
      intro: wf_error_fits split: result.splits)

lemma answer_frame_fits:
  "heapless_ok hl \<Longrightarrow> answer_frame hl from_slice frame st = Ret (r, st') \<Longrightarrow> response_fits r"
  by (auto simp: answer_frame_def dest: run_command_fits split: result.splits)

text \<open>The line that answers: the JSON text of the response and a newline, if they fit the buffer.\<close>

definition reply :: "(ser \<Rightarrow> u8 list) \<Rightarrow> response \<Rightarrow> u8 list option" where
  "reply json r =
     (case response_ser r of
        Ret v \<Rightarrow> if length (json v) < MAX_MSG_LEN then Some (json v @ [10]) else None
      | Panic \<Rightarrow> None)"

lemma serialize_reply:
  assumes "to_slice_ok json to_slice" "response_fits r" "length buf = MAX_MSG_LEN"
  shows "\<exists>res buf'. serialize_response to_slice r buf = Ret (res, buf') \<and> length buf' = MAX_MSG_LEN \<and>
     (case reply json r of
        Some line \<Rightarrow> res = Ok (length line) \<and> length line \<le> MAX_MSG_LEN \<and> take (length line) buf' = line
      | None \<Rightarrow> \<exists>e. res = Err e)"
proof -
  obtain v where v: "response_ser r = Ret v"
    using response_ser_total [OF assms(2)] by blast
  show ?thesis
  proof (cases "length (json v) < MAX_MSG_LEN")
    case True
    then show ?thesis
      using v finish_line_fits [OF assms(1), of v buf] assms(3)
      by (simp add: serialize_response_def reply_def)
  next
    case False
    then show ?thesis
      using v finish_line_overflow [OF assms(1), of buf v] assms(3)
      by (auto simp: serialize_response_def reply_def)
  qed
qed

section \<open>The specification\<close>

text \<open>
  What is written for the frames a transport delivers, how the loop ends and the final state:
  every frame is answered in order, a frame that is no frame by its error; \<open>fin\<close> is what the
  transport writes at the end of the stream.
\<close>

definition put_line :: "(u8 list \<Rightarrow> u8 list) \<Rightarrow> u8 list option \<Rightarrow> u8 list" where
  "put_line wire l = (case l of Some line \<Rightarrow> wire line | None \<Rightarrow> [])"

definition prepend :: "u8 list \<Rightarrow> (u8 list \<times> 'a) exec \<Rightarrow> (u8 list \<times> 'a) exec" where
  "prepend bs m = bind_exec m (\<lambda>(out, x). Ret (bs @ out, x))"

fun serve ::
  "heapless \<Rightarrow> from_slice \<Rightarrow> (ser \<Rightarrow> u8 list) \<Rightarrow> (u8 list \<Rightarrow> u8 list) \<Rightarrow> delivery list \<Rightarrow> u8 list \<Rightarrow>
   device_state \<Rightarrow> (u8 list \<times> client_end \<times> device_state) exec" where
  "serve hl from_slice json wire [] fin st = Ret (fin, ClientGone, st)"
| "serve hl from_slice json wire ((pre, Err e) # ds) fin st =
     prepend (pre @ put_line wire (reply json (response_error '''' e)))
       (serve hl from_slice json wire ds fin st)"
| "serve hl from_slice json wire ((pre, Ok frame) # ds) fin st =
     bind_exec (answer_frame hl from_slice frame st) (\<lambda>(r, st').
       prepend (pre @ put_line wire (reply json r))
         (if ds_pending_reboot st' then Ret ([], ResetToUsbBoot, st')
          else serve hl from_slice json wire ds fin st'))"

text \<open>An outcome of the loop that is the specified one: \<open>o0\<close> was written before.\<close>

definition outcome_is ::
  "u8 list \<Rightarrow> ('t \<Rightarrow> u8 list) \<Rightarrow> (client_end \<times> device_state \<times> 't) exec \<Rightarrow>
   (u8 list \<times> client_end \<times> device_state) exec \<Rightarrow> bool" where
  "outcome_is o0 out m spec \<longleftrightarrow>
     (case (m, spec) of
        (Ret (e, st, t), Ret (bs, e', st')) \<Rightarrow> e = e' \<and> st = st' \<and> out t = o0 @ bs
      | (Panic, Panic) \<Rightarrow> True
      | _ \<Rightarrow> False)"

lemma outcome_is_simps [simp]:
  "outcome_is o0 out (Ret (e, st, t)) (Ret (bs, e', st')) \<longleftrightarrow> e = e' \<and> st = st' \<and> out t = o0 @ bs"
  "outcome_is o0 out Panic Panic" "\<not> outcome_is o0 out Panic (Ret x)"
  by (simp_all add: outcome_is_def)

lemma outcome_is_prepend: "outcome_is (o0 @ bs) out m spec \<Longrightarrow> outcome_is o0 out m (prepend bs spec)"
  by (cases m; cases spec) (auto simp: outcome_is_def prepend_def split: prod.splits)

context frame_source
begin

lemma send_response_delivers:
  assumes "to_slice_ok json to_slice" "response_fits r" "length rb = MAX_MSG_LEN" "delivers t ds fin"
  shows "\<exists>rb' t'. send_response to_slice tr r rb t = Ret (True, rb', t') \<and> length rb' = MAX_MSG_LEN \<and>
     delivers t' ds fin \<and> out t' = out t @ put_line wire (reply json r)"
proof -
  obtain res rb' where s: "serialize_response to_slice r rb = Ret (res, rb')" "length rb' = MAX_MSG_LEN"
    "case reply json r of
       Some line \<Rightarrow> res = Ok (length line) \<and> length line \<le> MAX_MSG_LEN \<and> take (length line) rb' = line
     | None \<Rightarrow> \<exists>e. res = Err e"
    using serialize_reply [OF assms(1-3)] by (elim exE conjE)
  show ?thesis
  proof (cases "reply json r")
    case None
    then show ?thesis
      using s assms(4) by (auto simp: send_response_def put_line_def)
  next
    case (Some line)
    obtain t' where "tr_write_frame tr line t = Ret (Ok (), t')" "delivers t' ds fin"
      "out t' = out t @ wire line"
      using write_line [OF assms(4), of line] s(3) Some by auto
    then show ?thesis
      using s Some by (simp add: send_response_def put_line_def slice_def)
  qed
qed

lemma client_loop_serves:
  assumes "heapless_ok hl" "to_slice_ok json to_slice" "delivers t ds fin"
    and "length fb = MAX_MSG_LEN" "length rb = MAX_MSG_LEN"
  shows "\<exists>m. client_loop hl from_slice to_slice tr fb rb st t = Some m \<and>
     outcome_is (out t) out m (serve hl from_slice json wire ds fin st)"
  using assms(3-)
proof (induction ds arbitrary: t fb rb st)
  case Nil
  obtain fb' t' where "tr_read_frame tr fb t = Some (Ret (Err Disconnected, fb', t'))" "out t' = out t @ fin"
    using read_end [OF Nil.prems(1,2)] by blast
  then show ?case
    by (subst client_loop.simps) simp
next
  case (Cons d ds)
  obtain pre r where d: "d = (pre, r)" by (cases d)
  obtain fb' t1 where t1: "tr_read_frame tr fb t = Some (Ret (frame_of r, fb', t1))"
    "length fb' = MAX_MSG_LEN" "delivers t1 ds fin" "out t1 = out t @ pre"
    using read_next [OF Cons.prems(1) [unfolded d] Cons.prems(2)] by blast
  show ?case
  proof (cases r)
    case (Err e)
    obtain rb' t2 where t2: "send_response to_slice tr (response_error '''' e) rb t1 = Ret (True, rb', t2)"
      "length rb' = MAX_MSG_LEN" "delivers t2 ds fin"
      "out t2 = out t1 @ put_line wire (reply json (response_error '''' e))"
      using send_response_delivers [OF assms(2) _ Cons.prems(3) t1(3), of "response_error '''' e"] by auto
    have "client_loop hl from_slice to_slice tr fb rb st t =
        client_loop hl from_slice to_slice tr fb' rb' st t2"
      by (subst client_loop.simps) (simp add: t1(1) Err frame_of_def t2(1))
    then show ?thesis
      using Cons.IH [OF t2(3) t1(2) t2(2), of st] t1(4) t2(4)
      by (auto simp: d Err intro!: outcome_is_prepend)
  next
    case (Ok frame)
    show ?thesis
    proof (cases "answer_frame hl from_slice frame st")
      case Panic
      then show ?thesis
        by (subst client_loop.simps) (simp add: t1(1) d Ok frame_of_def)
    next
      case (Ret a)
      obtain resp st' where a: "answer_frame hl from_slice frame st = Ret (resp, st')"
        using Ret by (cases a) auto
      obtain rb' t2 where t2: "send_response to_slice tr resp rb t1 = Ret (True, rb', t2)"
        "length rb' = MAX_MSG_LEN" "delivers t2 ds fin"
        "out t2 = out t1 @ put_line wire (reply json resp)"
        using send_response_delivers [OF assms(2) answer_frame_fits [OF assms(1) a] Cons.prems(3) t1(3)]
        by auto
      have loop: "client_loop hl from_slice to_slice tr fb rb st t =
          (if ds_pending_reboot st' then Some (Ret (ResetToUsbBoot, st', t2))
           else client_loop hl from_slice to_slice tr fb' rb' st' t2)"
        by (subst client_loop.simps) (simp add: t1(1) Ok frame_of_def t2(1) a)
      show ?thesis
        using Cons.IH [OF t2(3) t1(2) t2(2), of st'] t1(4) t2(4) loop
        by (auto simp: d Ok a intro!: outcome_is_prepend)
    qed
  qed
qed

end

section \<open>Any peer\<close>

text \<open>The one way to a panic: a frame whose command carries a payload of more than 512 bytes.\<close>

definition oversized_frame :: "from_slice \<Rightarrow> u8 list \<Rightarrow> bool" where
  "oversized_frame from_slice frame \<longleftrightarrow>
     (case parse_command from_slice frame of Ok cmd \<Rightarrow> \<not> payload_fits (c_bytes cmd) | Err _ \<Rightarrow> False)"

definition loop_safe ::
  "from_slice \<Rightarrow> ('t \<Rightarrow> bool) \<Rightarrow> (client_end \<times> device_state \<times> 't) exec \<Rightarrow> bool" where
  "loop_safe from_slice good r \<longleftrightarrow>
     (case r of
        Ret (e, st, t) \<Rightarrow> state_ok st \<and> good t \<and> (e = ResetToUsbBoot \<longrightarrow> ds_pending_reboot st)
      | Panic \<Rightarrow> \<exists>frame. oversized_frame from_slice frame)"

lemma loop_safe_simps [simp]:
  "loop_safe from_slice good (Ret (e, st, t)) \<longleftrightarrow>
     state_ok st \<and> good t \<and> (e = ResetToUsbBoot \<longrightarrow> ds_pending_reboot st)"
  "loop_safe from_slice good Panic \<longleftrightarrow> (\<exists>frame. oversized_frame from_slice frame)"
  by (simp_all add: loop_safe_def)

lemma answer_frame_safe:
  assumes "heapless_ok hl" "state_ok st"
  shows "case answer_frame hl from_slice frame st of
     Ret (r, st') \<Rightarrow> response_fits r \<and> state_ok st'
   | Panic \<Rightarrow> oversized_frame from_slice frame"
proof (cases "parse_command from_slice frame")
  case (Ok cmd)
  show ?thesis
  proof (cases "run_command hl cmd st")
    case (Ret a)
    then show ?thesis
      using Ok run_command_result [OF assms] run_command_fits [OF assms(1)]
      by (cases a) (auto simp: answer_frame_def)
  next
    case Panic
    then show ?thesis
      using Ok run_command_answers [OF assms, of cmd]
      by (auto simp: answer_frame_def oversized_frame_def answers_def)
  qed
qed (use assms(2) in \<open>simp add: answer_frame_def\<close>)

context frame_transport
begin

lemma send_response_total:
  assumes "to_slice_ok json to_slice" "response_fits r" "length rb = MAX_MSG_LEN" "inv t"
  shows "\<exists>sent rb' t'. send_response to_slice tr r rb t = Ret (sent, rb', t') \<and>
     length rb' = MAX_MSG_LEN \<and> inv t'"
proof -
  obtain res rb' where s: "serialize_response to_slice r rb = Ret (res, rb')" "length rb' = MAX_MSG_LEN"
    "case reply json r of
       Some line \<Rightarrow> res = Ok (length line) \<and> length line \<le> MAX_MSG_LEN \<and> take (length line) rb' = line
     | None \<Rightarrow> \<exists>e. res = Err e"
    using serialize_reply [OF assms(1-3)] by (elim exE conjE)
  show ?thesis
  proof (cases "reply json r")
    case None
    then show ?thesis
      using s assms(4) by (auto simp: send_response_def)
  next
    case (Some line)
    then show ?thesis
      using s write_total [OF assms(4), of line] by (auto simp: send_response_def slice_def)
  qed
qed

lemma client_loop_ind:
  assumes "client_loop hl from_slice to_slice tr0 fb rb st t = Some r" "tr0 = tr"
    and "heapless_ok hl" "to_slice_ok json to_slice"
    and "inv t" "state_ok st" "length fb = MAX_MSG_LEN" "length rb = MAX_MSG_LEN"
  shows "loop_safe from_slice inv r"
  using assms(2-)
proof (induction rule: client_loop.raw_induct [OF _ assms(1), consumes 0, case_names step])
  case (step loop hl from_slice to_slice tr0 fb rb st t r)
  note body = step(2) [unfolded \<open>tr0 = tr\<close>]
  have again: "loop hl from_slice to_slice tr fb' rb' st' t' = Some r \<Longrightarrow> inv t' \<Longrightarrow> state_ok st' \<Longrightarrow>
      length fb' = MAX_MSG_LEN \<Longrightarrow> length rb' = MAX_MSG_LEN \<Longrightarrow> loop_safe from_slice inv r" for fb' rb' st' t'
    using step(1) [OF _ refl step(4,5)] by blast
  from body show ?case
  proof (cases rule: bind_io_cases)
    case 1
    then show ?thesis
      using read_total [OF step(6,8)] by blast
  next
    case (2 y)
    obtain res fb' t1 where y: "y = (res, fb', t1)" "length fb' = MAX_MSG_LEN" "inv t1"
      using read_total [OF step(6,8) 2(1)] by blast
    show ?thesis
    proof (cases res)
      case (Err e)
      show ?thesis
      proof (cases e)
        case (ProtocolError err)
        obtain sent rb' t2 where "send_response to_slice tr (response_error '''' err) rb t1 = Ret (sent, rb', t2)"
          "length rb' = MAX_MSG_LEN" "inv t2"
          using send_response_total [OF step(5) _ step(9) y(3), of "response_error '''' err"] by auto
        then show ?thesis
          using 2(2) y Err ProtocolError again [of fb' rb' st t2] step(7) by simp
      qed (use 2(2) y Err step(7) in auto)
    next
      case (Ok frame)
      note frame = answer_frame_safe [OF step(4,7), of from_slice frame]
      show ?thesis
      proof (cases "answer_frame hl from_slice frame st")
        case Panic
        then show ?thesis
          using 2(2) y(1) Ok frame by auto
      next
        case (Ret a)
        then obtain resp st' where a: "a = (resp, st')" "response_fits resp" "state_ok st'"
          using frame by (cases a) auto
        obtain sent rb' t2 where "send_response to_slice tr resp rb t1 = Ret (sent, rb', t2)"
          "length rb' = MAX_MSG_LEN" "inv t2"
          using send_response_total [OF step(5) a(2) step(9) y(3)] by blast
        then show ?thesis
          using 2(2) y Ok Ret a again [of fb' rb' st' t2] by (auto split: if_splits)
      qed
    qed
  qed
qed

end

section \<open>Properties\<close>

lemma client_state_ok [simp]: "state_ok (client_state ssid ip)"
  using state_ok_default [of False] by (simp add: client_state_def state_ok_def watched_def)

text \<open>C1: Over TCP, whatever bytes a client sends and however they arrive, \<open>handle_client\<close> ends,
  and what it has written is the specification of the lines of the byte stream: each complete line
  is answered once and in order by the JSON text of its response and a newline, a line that is too
  long by \<open>msg_too_large\<close>, commands act on one session that starts fresh, and after a
  \<open>reboot_to_bootloader\<close> the device resets with the answer already written and no later line
  touched.\<close>

theorem tcp_client_served:
  assumes "stream_socket so input output" "heapless_ok hl" "to_slice_ok json to_slice"
  shows "\<exists>m. handle_client hl from_slice to_slice (tcp_transport so) ssid ip (tcp_transport_new s) = Some m \<and>
     outcome_is (output s) (\<lambda>t. output (tt_socket t)) m
       (serve hl from_slice json (\<lambda>line. line) (map (Pair []) (stream_frames (input s))) []
         (client_state ssid ip))"
  using tcp_source.client_loop_serves [OF assms(2,3) tcp_delivers_new [OF assms(1)],
      of "replicate MAX_MSG_LEN 0" "replicate MAX_MSG_LEN 0" from_slice "client_state ssid ip"]
  by (simp add: handle_client_def tcp_transport_new_def)

definition sample_reboot :: command where
  "sample_reboot =
     blank_command ''r1''\<lparr>c_version := Some 1, c_interface := Some ''system'',
       c_action := Some ''reboot_to_bootloader''\<rparr>"

definition sample_from_slice :: from_slice where
  "sample_from_slice bs = (if bs = [82] then Some (sample_reboot, 1) else None)"

lemma sample_reboot_answer:
  "answer_frame hl sample_from_slice [82] st =
     Ret (response_ok ''r1'' None, st\<lparr>ds_pending_reboot := True\<rparr>)"
  "answer_frame hl sample_from_slice [33] st = Ret (response_error '''' ERROR_MALFORMED_JSON, st)"
  by (simp_all add: answer_frame_def parse_command_def sample_from_slice_def sample_reboot_def
      blank_command_def to_command_def check_version_def run_command_def validate_route_def
      VALID_ROUTES_def dispatch_reboot limit_defs)

theorem tcp_client_served_witness:
  "\<exists>st t. handle_client heapless_lists sample_from_slice sample_to_slice (tcp_transport (chunk_socket 0))
       ''home'' ''10.0.0.7'' (tcp_transport_new ([33, 10, 82, 10, 82, 10], [])) =
       Some (Ret (ResetToUsbBoot, st, t)) \<and> ds_pending_reboot st"
proof -
  let ?st = "client_state ''home'' ''10.0.0.7''"
  have frames: "stream_frames [33, 10, 82, 10, 82, 10] = [Ok [33], Ok [82], Ok [82]]"
    by (simp add: stream_frames_def line_result_def limit_defs)
  obtain m where m: "handle_client heapless_lists sample_from_slice sample_to_slice
       (tcp_transport (chunk_socket 0)) ''home'' ''10.0.0.7''
       (tcp_transport_new ([33, 10, 82, 10, 82, 10], [])) = Some m"
    "outcome_is [] (\<lambda>t. snd (tt_socket t)) m
       (serve heapless_lists sample_from_slice (\<lambda>v. as_bytes (json_value v)) (\<lambda>line. line)
         [([], Ok [33]), ([], Ok [82]), ([], Ok [82])] [] ?st)"
    using tcp_client_served [OF chunk_socket_stream heapless_lists_ok sample_to_slice_ok,
        of sample_from_slice 0 "''home''" "''10.0.0.7''" "([33, 10, 82, 10, 82, 10], [])"]
    by (auto simp: frames)
  then show ?thesis
    by (cases m) (auto simp: sample_reboot_answer prepend_def client_state_def device_state_default_def)
qed

text \<open>C2: Over WebSocket, for any sequence of frames of at most 1024 bytes, however it is cut into
  reads, the commands are the payloads of the text frames up to the first close frame: each is
  answered by one text frame, in order, each ping by its pong at the point of the stream where it
  was read, a close frame by a close frame.\<close>

theorem ws_client_served:
  assumes "stream_socket so input output" "heapless_ok hl" "to_slice_ok json to_slice"
    and "input s = concat (map frame_wire fs)" "list_all frame_ok fs"
  shows "\<exists>m. handle_client hl from_slice to_slice (ws_transport so) ssid ip s = Some m \<and>
     outcome_is (output s) output m
       (serve hl from_slice json server_frame (fst (ws_script [] fs)) (snd (ws_script [] fs))
         (client_state ssid ip))"
proof -
  have "ws_delivers so input output s (fst (ws_script [] fs)) (snd (ws_script [] fs))"
    using assms(1,4,5) by (auto simp: ws_delivers_def)
  then show ?thesis
    unfolding handle_client_def by (rule ws_source.client_loop_serves [OF assms(2,3)]) simp_all
qed

theorem ws_client_served_witness:
  "\<exists>st t. handle_client heapless_lists sample_from_slice sample_to_slice (ws_transport (chunk_socket 2))
       ''home'' ''10.0.0.7'' (concat (map frame_wire
         [(0x81, [1, 2, 3, 4], [33]), (0x89, [5, 6, 7, 8], [9]), (0x88, [0, 0, 0, 0], [])]), []) =
       Some (Ret (ClientGone, st, t)) \<and> last (snd t) = 0"
proof -
  let ?fs = "[(0x81, [1, 2, 3, 4], [33]), (0x89, [5, 6, 7, 8], [9]), (0x88, [0, 0, 0, 0], [])] :: ws_frame list"
  let ?s = "(concat (map frame_wire ?fs), [] :: u8 list)"
  have "list_all frame_ok ?fs"
    by (simp add: limit_defs)
  then obtain m where m: "handle_client heapless_lists sample_from_slice sample_to_slice
       (ws_transport (chunk_socket 2)) ''home'' ''10.0.0.7'' ?s = Some m"
    "outcome_is [] snd m
       (serve heapless_lists sample_from_slice (\<lambda>v. as_bytes (json_value v)) server_frame
         (fst (ws_script [] ?fs)) (snd (ws_script [] ?fs)) (client_state ''home'' ''10.0.0.7''))"
    using ws_client_served [OF chunk_socket_stream heapless_lists_ok sample_to_slice_ok,
        of ?s ?fs sample_from_slice 2 "''home''" "''10.0.0.7''"]
    by (auto simp del: ws_script.simps serve.simps frame_wire.simps list.map concat.simps)
  moreover have "ws_script [] ?fs = ([([], Ok [33])], [0x8A, 1, 9, 0x88, 0x00])"
    by (simp add: opcode_defs pong_of_def)
  ultimately show ?thesis
    by (cases m) (auto simp: sample_reboot_answer prepend_def client_state_def device_state_default_def
        simp del: frame_wire.simps)
qed





end
