(* ===== verification/Conduit.thy ===== *)
theory Conduit
  imports Client "HOL-Library.AList" "HOL-Library.Monad_Syntax"
begin

text \<open>
  The client library, \<open>client/src/lib.rs\<close>: the calls of \<open>PicoConduit\<close> as JSON objects, the line
  that is sent and the one that is read. The crate \<open>serde_json\<close> and the connection are arguments;
  the second half puts the library in front of the device, with \<open>command_of_json\<close> for what the
  derived \<open>Deserialize\<close> of \<open>Command\<close> reads.
\<close>

section \<open>Values\<close>

text \<open>\<open>serde_json::Value\<close>: a number is an integer or a float, an object is a map.\<close>

datatype json =
    JNull
  | JBool bool
  | JInt int
  | JReal rat
  | JStr str
  | JArr "json list"
  | JObj "(str \<times> json) list"

definition field_of :: "json \<Rightarrow> str \<Rightarrow> json option" where
  "field_of v k = (case v of JObj m \<Rightarrow> map_of m k | _ \<Rightarrow> None)"

definition as_u64 :: "json \<Rightarrow> nat option" where
  "as_u64 v = (case v of JInt i \<Rightarrow> if 0 \<le> i \<and> i < 2 ^ 64 then Some (nat i) else None | _ \<Rightarrow> None)"

definition as_f64 :: "json \<Rightarrow> rat option" where
  "as_f64 v = (case v of JInt i \<Rightarrow> Some (of_int i) | JReal r \<Rightarrow> Some r | _ \<Rightarrow> None)"

definition as_array :: "json \<Rightarrow> json list option" where
  "as_array v = (case v of JArr vs \<Rightarrow> Some vs | _ \<Rightarrow> None)"

definition as_str :: "json \<Rightarrow> str option" where
  "as_str v = (case v of JStr s \<Rightarrow> Some s | _ \<Rightarrow> None)"

definition as_bool :: "json \<Rightarrow> bool option" where
  "as_bool v = (case v of JBool b \<Rightarrow> Some b | _ \<Rightarrow> None)"

text \<open>\<open>pin.into()\<close> for the unsigned integers.\<close>

definition juint :: "'a::len word \<Rightarrow> json" where
  "juint w = JInt (uint w)"

text \<open>A field of type \<open>Option<T>\<close> as serde derives it: none when it is absent or null.\<close>

definition optional :: "(json \<Rightarrow> 'a option) \<Rightarrow> json option \<Rightarrow> 'a option option" where
  "optional rd f =
     (case f of None \<Rightarrow> Some None | Some v \<Rightarrow> if v = JNull then Some None else map_option Some (rd v))"

section \<open>The library\<close>

text \<open>The first two carry an error of the standard library or of the crate, which the model leaves out.\<close>

datatype client_error = IoError | JsonError | Firmware str | BadResponse str

record raw_response =
  rr_id :: str
  rr_ok :: bool
  rr_data :: "json option"
  rr_error :: "str option"

record config_info =
  ci_ssid :: str
  ci_ip :: str
  ci_connected :: bool

text \<open>The derived \<open>Deserialize\<close> of the two structs.\<close>

definition raw_of_json :: "json \<Rightarrow> raw_response option" where
  "raw_of_json v =
     do { rid \<leftarrow> Option.bind (field_of v ''id'') as_str;
          success \<leftarrow> Option.bind (field_of v ''ok'') as_bool;
          dat \<leftarrow> optional Some (field_of v ''data'');
          e \<leftarrow> optional as_str (field_of v ''error'');
          Some \<lparr>rr_id = rid, rr_ok = success, rr_data = dat, rr_error = e\<rparr> }"

definition config_of_json :: "json \<Rightarrow> config_info option" where
  "config_of_json v =
     do { ssid \<leftarrow> Option.bind (field_of v ''ssid'') as_str;
          ip \<leftarrow> Option.bind (field_of v ''ip'') as_str;
          conn \<leftarrow> Option.bind (field_of v ''connected'') as_bool;
          Some \<lparr>ci_ssid = ssid, ci_ip = ip, ci_connected = conn\<rparr> }"

text \<open>The crate: the text of a value, and the value of a text.\<close>

record serde_json =
  sj_to_string :: "json \<Rightarrow> str option"
  sj_parse :: "str \<Rightarrow> json option"

text \<open>The connection: a write that succeeds or not, and a line with its newline.\<close>

record 's stream =
  st_write_all :: "u8 list \<Rightarrow> 's \<Rightarrow> bool \<times> 's"
  st_read_line :: "'s \<Rightarrow> str option \<times> 's"

text \<open>The client, with the counter its process shares.\<close>

record 's conduit =
  pc_next_id :: u64
  pc_stream :: 's

definition next_id :: "'s conduit \<Rightarrow> str \<times> 's conduit" where
  "next_id c = (fmt_dec (unat (pc_next_id c)), c\<lparr>pc_next_id := pc_next_id c + 1\<rparr>)"

definition send_raw ::
  "serde_json \<Rightarrow> 's stream \<Rightarrow> json \<Rightarrow> 's conduit \<Rightarrow> (raw_response, client_error) result \<times> 's conduit" where
  "send_raw sj io v c =
     (case sj_to_string sj v of
        None \<Rightarrow> (Err JsonError, c)
      | Some line \<Rightarrow>
          (case st_write_all io (as_bytes line @ [10]) (pc_stream c) of
             (False, s) \<Rightarrow> (Err IoError, c\<lparr>pc_stream := s\<rparr>)
           | (True, s) \<Rightarrow>
               (case st_read_line io s of
                  (None, s') \<Rightarrow> (Err IoError, c\<lparr>pc_stream := s'\<rparr>)
                | (Some resp_line, s') \<Rightarrow>
                    (case Option.bind (sj_parse sj (trim resp_line)) raw_of_json of
                       None \<Rightarrow> (Err JsonError, c\<lparr>pc_stream := s'\<rparr>)
                     | Some resp \<Rightarrow>
                         (if \<not> rr_ok resp
                          then Err (Firmware (unwrap_or ''unknown error'' (rr_error resp)))
                          else Ok resp, c\<lparr>pc_stream := s'\<rparr>)))))"

text \<open>A call: the fields of the action, with the version and a fresh identifier.\<close>

definition call_object :: "str \<Rightarrow> (str \<times> json) list \<Rightarrow> json" where
  "call_object rid m = JObj (AList.update ''id'' (JStr rid) (AList.update ''version'' (JInt 1) m))"

definition cmd ::
  "serde_json \<Rightarrow> 's stream \<Rightarrow> (str \<times> json) list \<Rightarrow> 's conduit \<Rightarrow>
   (raw_response, client_error) result \<times> 's conduit" where
  "cmd sj io m c = (let (rid, c') = next_id c in send_raw sj io (call_object rid m) c')"

text \<open>\<open>self.cmd(m)?; Ok(())\<close>, and \<open>let resp = self.cmd(m)?\<close> with what follows.\<close>

definition discard :: "('a, 'e) result \<times> 'c \<Rightarrow> (unit, 'e) result \<times> 'c" where
  "discard r = (bind_result (fst r) (\<lambda>_. Ok ()), snd r)"

definition reading :: "('a \<Rightarrow> ('b, 'e) result) \<Rightarrow> ('a, 'e) result \<times> 'c \<Rightarrow> ('b, 'e) result \<times> 'c" where
  "reading f r = (bind_result (fst r) f, snd r)"

definition bytes_to_json :: "u8 list \<Rightarrow> json" where
  "bytes_to_json bytes = JArr (map juint bytes)"

definition extract_bytes :: "raw_response \<Rightarrow> (u8 list, client_error) result" where
  "extract_bytes resp =
     bind_result (ok_or (BadResponse ''missing data'') (rr_data resp)) (\<lambda>dat.
     bind_result (ok_or (BadResponse ''missing data.bytes'') (Option.bind (field_of dat ''bytes'') as_array)) (\<lambda>arr.
       ok_or (BadResponse ''non-integer in bytes array'')
         (those (map (\<lambda>v. map_option of_nat (as_u64 v)) arr))))"

section \<open>The calls\<close>

definition action :: "str \<Rightarrow> str \<Rightarrow> (str \<times> json) list \<Rightarrow> (str \<times> json) list" where
  "action i a m = (''interface'', JStr i) # (''action'', JStr a) # m"

subsection \<open>GPIO and ADC\<close>

definition gpio_write :: "serde_json \<Rightarrow> 's stream \<Rightarrow> u8 \<Rightarrow> u8 \<Rightarrow> 's conduit \<Rightarrow> (unit, client_error) result \<times> 's conduit" where
  "gpio_write sj io pin val c =
     discard (cmd sj io (action ''gpio'' ''write'' [(''pin'', juint pin), (''value'', juint val)]) c)"

definition gpio_read :: "serde_json \<Rightarrow> 's stream \<Rightarrow> u8 \<Rightarrow> 's conduit \<Rightarrow> (u8, client_error) result \<times> 's conduit" where
  "gpio_read sj io pin c =
     reading (\<lambda>resp. ok_or (BadResponse ''missing data.value'')
         (map_option of_nat (Option.bind (Option.bind (rr_data resp) (\<lambda>d. field_of d ''value'')) as_u64)))
       (cmd sj io (action ''gpio'' ''read'' [(''pin'', juint pin)]) c)"

definition gpio_set_mode ::
  "serde_json \<Rightarrow> 's stream \<Rightarrow> u8 \<Rightarrow> str \<Rightarrow> str \<Rightarrow> 's conduit \<Rightarrow> (unit, client_error) result \<times> 's conduit" where
  "gpio_set_mode sj io pin mode pull c =
     discard (cmd sj io (action ''gpio'' ''set_mode''
       [(''pin'', juint pin), (''mode'', JStr mode), (''pull'', JStr pull)]) c)"

definition adc_read :: "serde_json \<Rightarrow> 's stream \<Rightarrow> u8 \<Rightarrow> 's conduit \<Rightarrow> (u16 \<times> f32, client_error) result \<times> 's conduit" where
  "adc_read sj io channel c =
     reading (\<lambda>resp.
         bind_result (ok_or (BadResponse ''missing data'') (rr_data resp)) (\<lambda>dat.
         bind_result (ok_or (BadResponse ''missing data.raw'') (Option.bind (field_of dat ''raw'') as_u64)) (\<lambda>raw.
         bind_result (ok_or (BadResponse ''missing data.voltage'') (Option.bind (field_of dat ''voltage'') as_f64)) (\<lambda>voltage.
           Ok (of_nat raw, f32_round voltage)))))
       (cmd sj io (action ''adc'' ''read'' [(''adc_channel'', juint channel)]) c)"

definition adc_temp :: "serde_json \<Rightarrow> 's stream \<Rightarrow> 's conduit \<Rightarrow> (f32, client_error) result \<times> 's conduit" where
  "adc_temp sj io c =
     reading (\<lambda>resp.
         bind_result (ok_or (BadResponse ''missing data'') (rr_data resp)) (\<lambda>dat.
         bind_result (ok_or (BadResponse ''missing data.celsius'') (Option.bind (field_of dat ''celsius'') as_f64)) (\<lambda>celsius.
           Ok (f32_round celsius))))
       (cmd sj io (action ''adc'' ''read'' [(''adc_channel'', juint (3 :: u8))]) c)"

subsection \<open>UART, SPI and I2C\<close>

text \<open>A length is a \<open>usize\<close> of the host.\<close>

definition uart_configure ::
  "serde_json \<Rightarrow> 's stream \<Rightarrow> u8 \<Rightarrow> u32 \<Rightarrow> u8 \<Rightarrow> str \<Rightarrow> u8 \<Rightarrow> 's conduit \<Rightarrow> (unit, client_error) result \<times> 's conduit" where
  "uart_configure sj io uart baud data_bits parity stop_bits c =
     discard (cmd sj io (action ''uart'' ''configure''
       [(''uart'', juint uart), (''baud'', juint baud), (''data_bits'', juint data_bits),
        (''parity'', JStr parity), (''stop_bits'', juint stop_bits)]) c)"

definition uart_write :: "serde_json \<Rightarrow> 's stream \<Rightarrow> u8 \<Rightarrow> u8 list \<Rightarrow> 's conduit \<Rightarrow> (unit, client_error) result \<times> 's conduit" where
  "uart_write sj io uart bytes c =
     discard (cmd sj io (action ''uart'' ''write'' [(''uart'', juint uart), (''bytes'', bytes_to_json bytes)]) c)"

definition uart_read :: "serde_json \<Rightarrow> 's stream \<Rightarrow> u8 \<Rightarrow> u64 \<Rightarrow> 's conduit \<Rightarrow> (u8 list, client_error) result \<times> 's conduit" where
  "uart_read sj io uart len c =
     reading extract_bytes (cmd sj io (action ''uart'' ''read'' [(''uart'', juint uart), (''len'', juint len)]) c)"

definition spi_configure ::
  "serde_json \<Rightarrow> 's stream \<Rightarrow> u8 \<Rightarrow> u32 \<Rightarrow> u8 \<Rightarrow> u8 \<Rightarrow> 's conduit \<Rightarrow> (unit, client_error) result \<times> 's conduit" where
  "spi_configure sj io spi freq_hz cpol cpha c =
     discard (cmd sj io (action ''spi'' ''configure''
       [(''spi'', juint spi), (''freq_hz'', juint freq_hz), (''cpol'', juint cpol), (''cpha'', juint cpha)]) c)"

definition spi_write :: "serde_json \<Rightarrow> 's stream \<Rightarrow> u8 \<Rightarrow> u8 list \<Rightarrow> 's conduit \<Rightarrow> (unit, client_error) result \<times> 's conduit" where
  "spi_write sj io spi bytes c =
     discard (cmd sj io (action ''spi'' ''write'' [(''spi'', juint spi), (''bytes'', bytes_to_json bytes)]) c)"

definition spi_transfer :: "serde_json \<Rightarrow> 's stream \<Rightarrow> u8 \<Rightarrow> u8 list \<Rightarrow> 's conduit \<Rightarrow> (u8 list, client_error) result \<times> 's conduit" where
  "spi_transfer sj io spi bytes c =
     reading extract_bytes
       (cmd sj io (action ''spi'' ''transfer'' [(''spi'', juint spi), (''bytes'', bytes_to_json bytes)]) c)"

definition i2c_configure :: "serde_json \<Rightarrow> 's stream \<Rightarrow> u8 \<Rightarrow> u32 \<Rightarrow> 's conduit \<Rightarrow> (unit, client_error) result \<times> 's conduit" where
  "i2c_configure sj io i2c freq_hz c =
     discard (cmd sj io (action ''i2c'' ''configure'' [(''i2c'', juint i2c), (''freq_hz'', juint freq_hz)]) c)"

definition i2c_write ::
  "serde_json \<Rightarrow> 's stream \<Rightarrow> u8 \<Rightarrow> u8 \<Rightarrow> u8 list \<Rightarrow> 's conduit \<Rightarrow> (unit, client_error) result \<times> 's conduit" where
  "i2c_write sj io i2c addr bytes c =
     discard (cmd sj io (action ''i2c'' ''write''
       [(''i2c'', juint i2c), (''addr'', juint addr), (''bytes'', bytes_to_json bytes)]) c)"

definition i2c_read ::
  "serde_json \<Rightarrow> 's stream \<Rightarrow> u8 \<Rightarrow> u8 \<Rightarrow> u64 \<Rightarrow> 's conduit \<Rightarrow> (u8 list, client_error) result \<times> 's conduit" where
  "i2c_read sj io i2c addr len c =
     reading extract_bytes (cmd sj io (action ''i2c'' ''read''
       [(''i2c'', juint i2c), (''addr'', juint addr), (''len'', juint len)]) c)"

definition i2c_write_read ::
  "serde_json \<Rightarrow> 's stream \<Rightarrow> u8 \<Rightarrow> u8 \<Rightarrow> u8 list \<Rightarrow> u64 \<Rightarrow> 's conduit \<Rightarrow> (u8 list, client_error) result \<times> 's conduit" where
  "i2c_write_read sj io i2c addr write_bytes read_len c =
     reading extract_bytes (cmd sj io (action ''i2c'' ''write_read''
       [(''i2c'', juint i2c), (''addr'', juint addr), (''write_bytes'', bytes_to_json write_bytes),
        (''read_len'', juint read_len)]) c)"

subsection \<open>PWM, USB and the configuration\<close>

definition pwm_set_duty :: "serde_json \<Rightarrow> 's stream \<Rightarrow> u8 \<Rightarrow> u16 \<Rightarrow> 's conduit \<Rightarrow> (unit, client_error) result \<times> 's conduit" where
  "pwm_set_duty sj io channel duty_u16 c =
     discard (cmd sj io (action ''pwm'' ''set_duty'' [(''channel'', juint channel), (''duty_u16'', juint duty_u16)]) c)"

definition pwm_set_freq :: "serde_json \<Rightarrow> 's stream \<Rightarrow> u8 \<Rightarrow> u32 \<Rightarrow> 's conduit \<Rightarrow> (unit, client_error) result \<times> 's conduit" where
  "pwm_set_freq sj io channel freq_hz c =
     discard (cmd sj io (action ''pwm'' ''set_freq'' [(''channel'', juint channel), (''freq_hz'', juint freq_hz)]) c)"

definition pwm_enable :: "serde_json \<Rightarrow> 's stream \<Rightarrow> u8 \<Rightarrow> 's conduit \<Rightarrow> (unit, client_error) result \<times> 's conduit" where
  "pwm_enable sj io channel c = discard (cmd sj io (action ''pwm'' ''enable'' [(''channel'', juint channel)]) c)"

definition pwm_disable :: "serde_json \<Rightarrow> 's stream \<Rightarrow> u8 \<Rightarrow> 's conduit \<Rightarrow> (unit, client_error) result \<times> 's conduit" where
  "pwm_disable sj io channel c = discard (cmd sj io (action ''pwm'' ''disable'' [(''channel'', juint channel)]) c)"

definition usb_write :: "serde_json \<Rightarrow> 's stream \<Rightarrow> u8 list \<Rightarrow> 's conduit \<Rightarrow> (unit, client_error) result \<times> 's conduit" where
  "usb_write sj io bytes c = discard (cmd sj io (action ''usb'' ''write'' [(''bytes'', bytes_to_json bytes)]) c)"

definition usb_read :: "serde_json \<Rightarrow> 's stream \<Rightarrow> u64 \<Rightarrow> 's conduit \<Rightarrow> (u8 list, client_error) result \<times> 's conduit" where
  "usb_read sj io len c = reading extract_bytes (cmd sj io (action ''usb'' ''read'' [(''len'', juint len)]) c)"

definition config_get :: "serde_json \<Rightarrow> 's stream \<Rightarrow> 's conduit \<Rightarrow> (config_info, client_error) result \<times> 's conduit" where
  "config_get sj io c =
     reading (\<lambda>resp. bind_result (ok_or (BadResponse ''missing data'') (rr_data resp)) (\<lambda>dat.
         ok_or JsonError (config_of_json dat)))
       (cmd sj io (action ''config'' ''get'' []) c)"

section \<open>What the device reads\<close>

text \<open>The derived \<open>Deserialize\<close> of \<open>CommandInner\<close> and \<open>Command\<close> (\<open>src/protocol.rs\<close>): an unsigned
  field takes an integer of its range, a \<open>usize\<close> has 32 bits on the device.\<close>

definition read_uint :: "json \<Rightarrow> 'a::len word option" where
  "read_uint v = (case v of JInt i \<Rightarrow> if 0 \<le> i \<and> i < 2 ^ LENGTH('a) then Some (word_of_int i) else None | _ \<Rightarrow> None)"

definition read_usize :: "json \<Rightarrow> nat option" where
  "read_usize v = map_option unat (read_uint v :: u32 option)"

definition read_adc_channel :: "json \<Rightarrow> adc_channel option" where
  "read_adc_channel v = Option.bind (read_uint v) (\<lambda>w. result_ok (visit_u64 w))"

definition inner_of_json :: "json \<Rightarrow> command_inner option" where
  "inner_of_json v =
     do { version \<leftarrow> optional read_uint (field_of v ''version'');
          rid \<leftarrow> Option.bind (field_of v ''id'') as_str;
          interface \<leftarrow> optional as_str (field_of v ''interface'');
          act \<leftarrow> optional as_str (field_of v ''action'');
          pin \<leftarrow> optional read_uint (field_of v ''pin'');
          val \<leftarrow> optional read_uint (field_of v ''value'');
          mode \<leftarrow> optional as_str (field_of v ''mode'');
          pull \<leftarrow> optional as_str (field_of v ''pull'');
          uart \<leftarrow> optional read_uint (field_of v ''uart'');
          bytes \<leftarrow> optional as_str (field_of v ''bytes'');
          len \<leftarrow> optional read_usize (field_of v ''len'');
          baud \<leftarrow> optional read_uint (field_of v ''baud'');
          data_bits \<leftarrow> optional read_uint (field_of v ''data_bits'');
          parity \<leftarrow> optional as_str (field_of v ''parity'');
          stop_bits \<leftarrow> optional read_uint (field_of v ''stop_bits'');
          spi \<leftarrow> optional read_uint (field_of v ''spi'');
          freq_hz \<leftarrow> optional read_uint (field_of v ''freq_hz'');
          cpol \<leftarrow> optional read_uint (field_of v ''cpol'');
          cpha \<leftarrow> optional read_uint (field_of v ''cpha'');
          i2c \<leftarrow> optional read_uint (field_of v ''i2c'');
          addr \<leftarrow> optional read_uint (field_of v ''addr'');
          write_bytes \<leftarrow> optional as_str (field_of v ''write_bytes'');
          read_len \<leftarrow> optional read_usize (field_of v ''read_len'');
          channel \<leftarrow> optional read_uint (field_of v ''channel'');
          duty_u16 \<leftarrow> optional read_uint (field_of v ''duty_u16'');
          adc_channel \<leftarrow> optional read_adc_channel (field_of v ''adc_channel'');
          interval_ms \<leftarrow> optional read_uint (field_of v ''interval_ms'');
          trigger \<leftarrow> optional as_str (field_of v ''trigger'');
          Some \<lparr>c_version = version, c_id = rid, c_interface = interface, c_action = act, c_pin = pin,
            c_value = val, c_mode = mode, c_pull = pull, c_uart = uart, c_bytes = bytes, c_len = len,
            c_baud = baud, c_data_bits = data_bits, c_parity = parity, c_stop_bits = stop_bits, c_spi = spi,
            c_freq_hz = freq_hz, c_cpol = cpol, c_cpha = cpha, c_i2c = i2c, c_addr = addr,
            c_write_bytes = write_bytes, c_read_len = read_len, c_channel = channel, c_duty_u16 = duty_u16,
            c_adc_channel = adc_channel, c_interval_ms = interval_ms, c_trigger = trigger\<rparr> }"

definition read_commands :: "json \<Rightarrow> command_inner list option" where
  "read_commands v =
     (case v of JArr vs \<Rightarrow> if length vs \<le> MAX_BATCH_SIZE + 1 then those (map inner_of_json vs) else None | _ \<Rightarrow> None)"

definition command_of_json :: "json \<Rightarrow> command option" where
  "command_of_json v =
     do { c \<leftarrow> inner_of_json v;
          commands \<leftarrow> optional read_commands (field_of v ''commands'');
          Some ((to_command c)\<lparr>c_commands := commands\<rparr>) }"

text \<open>The call asks for the command: it sends one object, which the device reads as that command, or
  as none.\<close>

definition asks ::
  "serde_json \<Rightarrow> 's stream \<Rightarrow> ('s conduit \<Rightarrow> 'r) \<Rightarrow> (str \<Rightarrow> command option) \<Rightarrow> bool" where
  "asks sj io call command \<longleftrightarrow>
     (\<exists>m post. call = (\<lambda>c. post (cmd sj io m c)) \<and>
        (\<forall>rid. command_of_json (call_object rid m) = command rid \<and>
           (case command rid of None \<Rightarrow> True | Some c \<Rightarrow> \<exists>route. validate_route c = Ok route)))"

definition request :: "str \<Rightarrow> str \<Rightarrow> str \<Rightarrow> command" where
  "request i a rid = blank_command rid\<lparr>c_interface := Some i, c_action := Some a\<rparr>"

lemma asksI:
  assumes "\<And>c. call c = post (cmd sj io m c)"
    and "\<And>rid. command_of_json (call_object rid m) = command rid"
    and "\<And>rid. case command rid of None \<Rightarrow> True | Some c \<Rightarrow> \<exists>route. validate_route c = Ok route"
  shows "asks sj io call command"
  unfolding asks_def using assms by (intro exI conjI allI ext)

lemmas asks_rules = asksI [where post = discard] asksI [where post = "reading f" for f]

lemma read_juint [simp]: "read_uint (juint (w :: 'a::len word)) = Some w" "juint w \<noteq> JNull" "JNull \<noteq> juint w"
  by (simp_all add: read_uint_def juint_def)

lemma read_usize_juint [simp]:
  "read_usize (juint (n :: u64)) = (if n < 0x100000000 then Some (unat n) else None)"
proof -
  have "uint n < 2 ^ 32 \<longleftrightarrow> n < 0x100000000"
    by (simp add: word_less_def)
  moreover have "unat (word_of_int (uint n) :: u32) = unat n" if "uint n < 2 ^ 32"
    using that by (simp add: unat_eq_nat_uint unsigned_ucast_eq take_bit_int_eq_self del: nat_uint_eq)
  ultimately show ?thesis
    by (simp add: read_usize_def read_uint_def juint_def)
qed

lemma read_adc_juint [simp]: "read_adc_channel (juint (ch :: u8)) = result_ok (visit_u64 (ucast ch))"
proof -
  have "uint ch < 2 ^ 64"
    using uint_lt2p [of ch] by simp
  then show ?thesis
    by (simp add: read_adc_channel_def read_uint_def juint_def)
qed

lemma readers_simps [simp]: "as_str (JStr s) = Some s" "read_uint (JInt 1) = Some (1 :: u8)"
  by (simp_all add: as_str_def read_uint_def)

lemma bytes_unread [simp]: "as_str (bytes_to_json bs) = None" "bytes_to_json bs \<noteq> JNull"
  by (simp_all add: bytes_to_json_def as_str_def)

lemmas call_defs = action_def call_object_def field_of_def optional_def
  command_of_json_def inner_of_json_def request_def blank_command_def to_command_def
  validate_route_def VALID_ROUTES_def

lemmas method_defs = gpio_write_def gpio_read_def gpio_set_mode_def adc_read_def adc_temp_def
  uart_configure_def uart_write_def uart_read_def spi_configure_def spi_write_def spi_transfer_def
  i2c_configure_def i2c_write_def i2c_read_def i2c_write_read_def pwm_set_duty_def pwm_set_freq_def
  pwm_enable_def pwm_disable_def usb_write_def usb_read_def config_get_def

section \<open>Properties\<close>

text \<open>C10: Every call of the client library that sends no bytes is read by the device as the one command it
  names, with each argument in its field, on a route the device knows: a length when it fits the 32 bits of
  the device, an ADC channel when there is one. The six calls that send bytes send them as an array of
  numbers where the device expects a base64 text: none of them is a command.\<close>

theorem client_calls_understood:
  "asks sj io (gpio_write sj io pin val)
     (\<lambda>rid. Some (request ''gpio'' ''write'' rid\<lparr>c_pin := Some pin, c_value := Some val\<rparr>)) \<and>
   asks sj io (gpio_read sj io pin) (\<lambda>rid. Some (request ''gpio'' ''read'' rid\<lparr>c_pin := Some pin\<rparr>)) \<and>
   asks sj io (gpio_set_mode sj io pin mode pull)
     (\<lambda>rid. Some (request ''gpio'' ''set_mode'' rid\<lparr>c_pin := Some pin, c_mode := Some mode, c_pull := Some pull\<rparr>)) \<and>
   asks sj io (adc_read sj io ch)
     (\<lambda>rid. map_option (\<lambda>a. request ''adc'' ''read'' rid\<lparr>c_adc_channel := Some a\<rparr>) (result_ok (visit_u64 (ucast ch)))) \<and>
   asks sj io (adc_temp sj io) (\<lambda>rid. Some (request ''adc'' ''read'' rid\<lparr>c_adc_channel := Some Temp\<rparr>)) \<and>
   asks sj io (uart_configure sj io n baud data_bits parity stop_bits)
     (\<lambda>rid. Some (request ''uart'' ''configure'' rid\<lparr>c_uart := Some n, c_baud := Some baud,
        c_data_bits := Some data_bits, c_parity := Some parity, c_stop_bits := Some stop_bits\<rparr>)) \<and>
   asks sj io (uart_read sj io n len)
     (\<lambda>rid. if len < 2 ^ 32 then Some (request ''uart'' ''read'' rid\<lparr>c_uart := Some n, c_len := Some (unat len)\<rparr>) else None) \<and>
   asks sj io (spi_configure sj io n freq cpol cpha)
     (\<lambda>rid. Some (request ''spi'' ''configure'' rid\<lparr>c_spi := Some n, c_freq_hz := Some freq, c_cpol := Some cpol,
        c_cpha := Some cpha\<rparr>)) \<and>
   asks sj io (i2c_configure sj io n freq)
     (\<lambda>rid. Some (request ''i2c'' ''configure'' rid\<lparr>c_freq_hz := Some freq, c_i2c := Some n\<rparr>)) \<and>
   asks sj io (i2c_read sj io n addr len)
     (\<lambda>rid. if len < 2 ^ 32
        then Some (request ''i2c'' ''read'' rid\<lparr>c_i2c := Some n, c_addr := Some addr, c_len := Some (unat len)\<rparr>) else None) \<and>
   asks sj io (pwm_set_duty sj io n duty)
     (\<lambda>rid. Some (request ''pwm'' ''set_duty'' rid\<lparr>c_channel := Some n, c_duty_u16 := Some duty\<rparr>)) \<and>
   asks sj io (pwm_set_freq sj io n freq)
     (\<lambda>rid. Some (request ''pwm'' ''set_freq'' rid\<lparr>c_channel := Some n, c_freq_hz := Some freq\<rparr>)) \<and>
   asks sj io (pwm_enable sj io n) (\<lambda>rid. Some (request ''pwm'' ''enable'' rid\<lparr>c_channel := Some n\<rparr>)) \<and>
   asks sj io (pwm_disable sj io n) (\<lambda>rid. Some (request ''pwm'' ''disable'' rid\<lparr>c_channel := Some n\<rparr>)) \<and>
   asks sj io (usb_read sj io len)
     (\<lambda>rid. if len < 2 ^ 32 then Some (request ''usb'' ''read'' rid\<lparr>c_len := Some (unat len)\<rparr>) else None) \<and>
   asks sj io (config_get sj io) (\<lambda>rid. Some (request ''config'' ''get'' rid)) \<and>
   asks sj io (uart_write sj io n bytes) (\<lambda>rid. None) \<and>
   asks sj io (spi_write sj io n bytes) (\<lambda>rid. None) \<and>
   asks sj io (spi_transfer sj io n bytes) (\<lambda>rid. None) \<and>
   asks sj io (i2c_write sj io n addr bytes) (\<lambda>rid. None) \<and>
   asks sj io (i2c_write_read sj io n addr bytes len) (\<lambda>rid. None) \<and>
   asks sj io (usb_write sj io bytes) (\<lambda>rid. None)"
  by (intro conjI; (rule asks_rules, rule method_defs, simp_all add: call_defs visit_u64_def)[])

section \<open>The library in front of the device\<close>

text \<open>What the device does with one line, and a connection to it: when no answer is unread, a line that
  is written is answered by the line that is read next, as \<open>handle_client\<close> specifies; \<open>session\<close> is
  the state of the device then.\<close>

definition answer_line :: "heapless \<Rightarrow> from_slice \<Rightarrow> u8 list \<Rightarrow> device_state \<Rightarrow> (response \<times> device_state) exec" where
  "answer_line hl from_slice l st =
     (case line_result l of
        Ok frame \<Rightarrow> answer_frame hl from_slice frame st
      | Err e \<Rightarrow> Ret (response_error '''' e, st))"

definition talks_to ::
  "heapless \<Rightarrow> from_slice \<Rightarrow> (ser \<Rightarrow> u8 list) \<Rightarrow> 's stream \<Rightarrow> ('s \<Rightarrow> device_state option) \<Rightarrow> bool" where
  "talks_to hl from_slice json io session \<longleftrightarrow>
     (\<forall>l s st0 r st line. 10 \<notin> set l \<longrightarrow> session s = Some st0 \<longrightarrow>
        answer_line hl from_slice l st0 = Ret (r, st) \<longrightarrow> reply json r = Some line \<longrightarrow>
        (\<exists>s1 s2. st_write_all io (l @ [10]) s = (True, s1) \<and>
           st_read_line io s1 = (Some (of_bytes line), s2) \<and> session s2 = Some st))"

text \<open>A connection on which the specification of \<open>handle_client\<close> answers.\<close>

definition device_stream :: "heapless \<Rightarrow> from_slice \<Rightarrow> (ser \<Rightarrow> u8 list) \<Rightarrow> (device_state \<times> u8 list) stream" where
  "device_stream hl from_slice json =
     \<lparr>st_write_all = (\<lambda>bs (st, out).
        case serve hl from_slice json (\<lambda>l. l) (map (Pair []) (stream_frames bs)) [] st of
          Ret (bs', e, st') \<Rightarrow> (True, (st', out @ bs'))
        | Panic \<Rightarrow> (False, (st, out))),
      st_read_line = (\<lambda>(st, out). (Some (of_bytes out), (st, [])))\<rparr>"

definition device_session :: "device_state \<times> u8 list \<Rightarrow> device_state option" where
  "device_session s = (if snd s = [] then Some (fst s) else None)"

lemma device_stream_talks: "talks_to hl from_slice json (device_stream hl from_slice json) device_session"
proof -
  have "\<exists>s1 s2. st_write_all (device_stream hl from_slice json) (l @ [10]) (st0, []) = (True, s1) \<and>
      st_read_line (device_stream hl from_slice json) s1 = (Some (of_bytes line), s2) \<and>
      device_session s2 = Some st"
    if "10 \<notin> set l" "answer_line hl from_slice l st0 = Ret (r, st)" "reply json r = Some line" for l st0 r st line
  proof -
    have "stream_frames (l @ [10]) = [line_result l]"
      using that(1) split_on_append_sep [of 10 l "[]"] by (simp add: stream_frames_def)
    then show ?thesis
      using that(2,3) by (cases "line_result l")
        (auto simp: device_stream_def device_session_def answer_line_def put_line_def prepend_def)
  qed
  then show ?thesis
    by (auto simp: talks_to_def device_session_def split: if_splits)
qed

text \<open>What the client reads of a response: the value of its JSON text, where a float is the decimal
  \<open>dec\<close> prints.\<close>

fun json_of_ser :: "(f32 \<Rightarrow> rat) \<Rightarrow> ser \<Rightarrow> json" where
  "json_of_ser dec (SBool b) = JBool b"
| "json_of_ser dec (SUint n) = JInt (int n)"
| "json_of_ser dec (SF32 x) = JReal (dec x)"
| "json_of_ser dec (SStr s) = JStr s"
| "json_of_ser dec SNone = JNull"
| "json_of_ser dec (SSeq vs) = JArr (map (json_of_ser dec) vs)"
| "json_of_ser dec (SMap m) = JObj (map (\<lambda>(k, v). (k, json_of_ser dec v)) m)"

definition hears :: "serde_json \<Rightarrow> (ser \<Rightarrow> u8 list) \<Rightarrow> (f32 \<Rightarrow> rat) \<Rightarrow> response \<Rightarrow> bool" where
  "hears sj json dec r \<longleftrightarrow>
     (\<exists>v line. response_ser r = Ret v \<and> reply json r = Some line \<and>
        sj_parse sj (trim (of_bytes line)) = Some (json_of_ser dec v))"

text \<open>The device understands what the client wrote: a line that fits, which its parser reads as the
  derived \<open>Deserialize\<close> reads the object.\<close>

definition understands :: "serde_json \<Rightarrow> from_slice \<Rightarrow> json \<Rightarrow> bool" where
  "understands sj from_slice v \<longleftrightarrow>
     (\<exists>w. sj_to_string sj v = Some w \<and> 10 \<notin> set (as_bytes w) \<and> length w < MAX_MSG_LEN \<and>
        map_option fst (from_slice (as_bytes w)) = command_of_json v)"

definition view_data :: "(f32 \<Rightarrow> rat) \<Rightarrow> response_data option \<Rightarrow> json option" where
  "view_data dec d =
     (case d of None \<Rightarrow> None
      | Some d \<Rightarrow> (case response_data_ser d of Ret v \<Rightarrow> Some (json_of_ser dec v) | Panic \<Rightarrow> None))"

definition view :: "(f32 \<Rightarrow> rat) \<Rightarrow> response \<Rightarrow> raw_response" where
  "view dec r = \<lparr>rr_id = r_id r, rr_ok = r_ok r, rr_data = view_data dec (r_data r), rr_error = r_error r\<rparr>"

lemma view_data_not_null: "view_data dec d \<noteq> Some JNull"
  by (auto simp: view_data_def response_data_ser_def bind_exec_eq_Ret
      split: option.splits exec.splits response_data.splits)

lemma raw_of_response: "response_ser r = Ret v \<Longrightarrow> raw_of_json (json_of_ser dec v) = Some (view dec r)"
  using view_data_not_null [of dec "r_data r"]
  by (cases "r_data r"; cases "r_error r")
    (auto simp: response_ser_def bind_exec_eq_Ret raw_of_json_def field_of_def optional_def view_def
      view_data_def as_bool_def)

text \<open>The command of a call has the version and the identifier the library put there.\<close>

lemma command_of_call:
  assumes "command_of_json (call_object rid m) = Some command"
  shows "c_version command = Some 1" "c_id command = rid"
  using assms by (auto simp: command_of_json_def inner_of_json_def call_object_def field_of_def
      update_conv' optional_def to_command_def bind_eq_Some_conv)

lemma cmd_answered:
  assumes "talks_to hl from_slice json io session" "session (pc_stream c) = Some st0"
    and "understands sj from_slice (call_object (fst (next_id c)) m)"
    and "case command_of_json (call_object (fst (next_id c)) m) of
           Some command \<Rightarrow> run_command hl command st0 = Ret (r, st)
         | None \<Rightarrow> (r, st) = (response_error '''' ERROR_MALFORMED_JSON, st0)"
    and "hears sj json dec r"
  shows "\<exists>s. cmd sj io m c =
       (if r_ok r then Ok (view dec r) else Err (Firmware (unwrap_or ''unknown error'' (r_error r))),
        c\<lparr>pc_next_id := pc_next_id c + 1, pc_stream := s\<rparr>) \<and> session s = Some st"
proof -
  let ?v = "call_object (fst (next_id c)) m"
  obtain written where written: "sj_to_string sj ?v = Some written" "10 \<notin> set (as_bytes written)" "length written < MAX_MSG_LEN"
    "map_option fst (from_slice (as_bytes written)) = command_of_json ?v"
    using assms(3) by (auto simp: understands_def)
  obtain v line where line: "response_ser r = Ret v" "reply json r = Some line"
    "sj_parse sj (trim (of_bytes line)) = Some (json_of_ser dec v)"
    using assms(5) by (auto simp: hears_def)
  have "answer_frame hl from_slice (as_bytes written) st0 = Ret (r, st)"
    using written(3,4) assms(4) command_of_call [of "fst (next_id c)" m]
    by (cases "command_of_json ?v"; cases "from_slice (as_bytes written)")
      (auto simp: answer_frame_def parse_command_def check_version_def)
  then have "answer_line hl from_slice (as_bytes written) st0 = Ret (r, st)"
    using written(3) by (simp add: answer_line_def line_result_def)
  then obtain s1 s2 where "st_write_all io (as_bytes written @ [10]) (pc_stream c) = (True, s1)"
    "st_read_line io s1 = (Some (of_bytes line), s2)" "session s2 = Some st"
    using assms(1,2) written(2) line(2) unfolding talks_to_def by blast
  then show ?thesis
    using written(1) line raw_of_response [OF line(1), of dec]
    by (intro exI [of _ s2]) (simp add: cmd_def send_raw_def next_id_def view_def)
qed


text \<open>The smallest stand-in for the crates: one text each way.\<close>

definition sample_serde :: "json \<Rightarrow> serde_json" where
  "sample_serde v = \<lparr>sj_to_string = (\<lambda>_. Some ''{}''), sj_parse = (\<lambda>_. Some v)\<rparr>"

definition sample_client :: "device_state \<Rightarrow> (device_state \<times> u8 list) conduit" where
  "sample_client st = \<lparr>pc_next_id = 1, pc_stream = (st, [])\<rparr>"

lemma sample_hears:
  "response_ser r = Ret v \<Longrightarrow> hears (sample_serde (json_of_ser dec v)) (\<lambda>_. [123, 125]) dec r"
  by (simp add: hears_def reply_def sample_serde_def limit_defs)

lemma sample_understands:
  "map_option fst (from_slice [123, 125]) = command_of_json v \<Longrightarrow> understands (sample_serde w) from_slice v"
  by (simp add: understands_def sample_serde_def limit_defs)

lemma next_id_sample [simp]: "next_id (sample_client st) = (''1'', \<lparr>pc_next_id = 2, pc_stream = (st, [])\<rparr>)"
  by (simp add: next_id_def sample_client_def fmt_dec.simps) code_simp

lemma sample_session [simp]: "device_session (pc_stream (sample_client st)) = Some st"
  by (simp add: device_session_def sample_client_def)




end
