(* ===== verification/Http.thy ===== *)
theory Http
  imports Transport
begin

text \<open>
  The HTTP helpers of \<open>src/net.rs\<close> that the captive portal and the WebSocket handshake share:
  reading a header block, looking a header up in it, and building a response in a fixed buffer.
\<close>

section \<open>Reading\<close>

definition CRLF :: "u8 list" where "CRLF = [13, 10]"

lemma bind_exec_cong [fundef_cong]:
  "m = m' \<Longrightarrow> (\<And>x. m' = Ret x \<Longrightarrow> f x = g x) \<Longrightarrow> bind_exec m f = bind_exec m' g"
  by (cases m') simp_all

text \<open>A socket without \<open>with_timeout\<close>: the outcome \<open>ReadTimeout\<close> is an error like the others.\<close>

definition read_some :: "'s socket \<Rightarrow> nat \<Rightarrow> 's \<Rightarrow> u8 list \<times> 's" where
  "read_some so n s =
     (case so_read so n s of (ReadBytes bs, s') \<Rightarrow> (bs, s') | (_, s') \<Rightarrow> ([], s'))"

function read_headers_loop ::
  "'s socket \<Rightarrow> u8 list \<Rightarrow> nat \<Rightarrow> 's \<Rightarrow> (nat \<times> u8 list \<times> 's) exec" where
  "read_headers_loop so buf pos s =
     (if pos < length buf then
        (case read_some so 1 s of
           ([], s') \<Rightarrow> Ret (pos, buf, s')
         | (b # _, s') \<Rightarrow>
             bind_exec (put_at buf pos b) (\<lambda>buf'.
               (let pos' = pos + 1 in
                if pos' \<ge> 4 \<and> slice buf' (pos' - 4) pos' = Ret (CRLF @ CRLF)
                then Ret (pos', buf', s')
                else read_headers_loop so buf' pos' s')))
      else Ret (pos, buf, s))"
  by pat_completeness auto
termination
  by (relation "measure (\<lambda>(so, buf, pos, s). length buf - pos)")
    (auto simp: put_at_def split: if_splits)

declare read_headers_loop.simps [simp del]

definition read_http_headers :: "'s socket \<Rightarrow> u8 list \<Rightarrow> 's \<Rightarrow> (nat \<times> u8 list \<times> 's) exec" where
  "read_http_headers so buf s = read_headers_loop so buf 0 s"

section \<open>Looking up\<close>

text \<open>The inner loop: the index of the next newline at or after \<open>i\<close>, or the end.\<close>

function scan_newline :: "u8 list \<Rightarrow> nat \<Rightarrow> nat" where
  "scan_newline raw i =
     (if i < length raw \<and> raw ! i \<noteq> 10 then scan_newline raw (i + 1) else i)"
  by pat_completeness auto
termination
  by (relation "measure (\<lambda>(raw, i). length raw - i)") auto

declare scan_newline.simps [simp del]

lemma scan_newline_ge: "i \<le> scan_newline raw i"
  by (induction raw i rule: scan_newline.induct) (subst scan_newline.simps, auto)

function extract_header_loop :: "u8 list \<Rightarrow> u8 list \<Rightarrow> nat \<Rightarrow> u8 list option exec" where
  "extract_header_loop raw name start =
     (let i = scan_newline raw start in
      bind_exec (slice raw start i) (\<lambda>l.
        let line = unwrap_or l (strip_suffix [13] l) in
        if line = [] then Ret None
        else if length line > length name + 1 \<and> line ! length name = byte (CHR '':'') \<and>
          eq_ignore_ascii_case (take (length name) line) name
        then (let val = drop (length name + 1) line
              in Ret (Some (unwrap_or val (strip_prefix [byte (CHR '' '')] val))))
        else extract_header_loop raw name (i + 1)))"
  by pat_completeness auto
termination
proof (relation "measure (\<lambda>(raw, name, start). Suc (length raw) - start)")
  fix raw name :: "u8 list" and start i :: nat and l :: "u8 list"
  assume "i = scan_newline raw start" "slice raw start i = Ret l"
  then show "((raw, name, i + 1), (raw, name, start)) \<in> measure (\<lambda>(raw, name, start). Suc (length raw) - start)"
    using scan_newline_ge [of start raw] by (auto simp: slice_def split: if_splits)
qed simp

declare extract_header_loop.simps [simp del]

definition extract_header :: "u8 list \<Rightarrow> u8 list \<Rightarrow> u8 list option exec" where
  "extract_header raw name = extract_header_loop raw name (scan_newline raw 0 + 1)"

text \<open>The first window equal to \<open>needle\<close>, which is never empty.\<close>

fun find_subsequence :: "u8 list \<Rightarrow> u8 list \<Rightarrow> nat option" where
  "find_subsequence [] needle = None"
| "find_subsequence (x # xs) needle =
     (if starts_with needle (x # xs) then Some 0
      else map_option Suc (find_subsequence xs needle))"

section \<open>Building\<close>

text \<open>The macro \<open>push_bytes!\<close>: byte by byte, dropping what does not fit.\<close>

fun push_bytes :: "u8 list \<Rightarrow> nat \<Rightarrow> u8 list \<Rightarrow> (u8 list \<times> nat) exec" where
  "push_bytes hdr pos [] = Ret (hdr, pos)"
| "push_bytes hdr pos (b # bs) =
     (if pos < length hdr then bind_exec (put_at hdr pos b) (\<lambda>hdr'. push_bytes hdr' (pos + 1) bs)
      else push_bytes hdr pos bs)"

fun push_pieces :: "u8 list \<Rightarrow> nat \<Rightarrow> u8 list list \<Rightarrow> (u8 list \<times> nat) exec" where
  "push_pieces hdr pos [] = Ret (hdr, pos)"
| "push_pieces hdr pos (p # ps) =
     bind_exec (push_bytes hdr pos p) (\<lambda>(hdr', pos'). push_pieces hdr' pos' ps)"

text \<open>The length of the body as digits, from the end of a buffer of ten; \<open>tp -= 1\<close> may underflow.\<close>

function render_digits :: "u8 list \<Rightarrow> nat \<Rightarrow> nat \<Rightarrow> (u8 list \<times> nat) exec" where
  "render_digits tmp tp n =
     (if n > 0 then
        (if tp = 0 then Panic
         else bind_exec (put_at tmp (tp - 1) (byte (CHR ''0'') + of_nat (n mod 10))) (\<lambda>tmp'.
           render_digits tmp' (tp - 1) (n div 10)))
      else Ret (tmp, tp))"
  by pat_completeness auto
termination
  by (relation "measure (\<lambda>(tmp, tp, n). n)") auto

declare render_digits.simps [simp del]

definition content_length :: "nat \<Rightarrow> u8 list exec" where
  "content_length n =
     bind_exec
       (if n = 0 then bind_exec (put_at (replicate 10 0) 9 (byte (CHR ''0''))) (\<lambda>tmp. Ret (tmp, 9))
        else render_digits (replicate 10 0) 10 n)
       (\<lambda>(tmp, tp). slice tmp tp (length tmp))"

definition send_http :: "'s socket \<Rightarrow> u8 list \<Rightarrow> u8 list \<Rightarrow> 's \<Rightarrow> 's exec" where
  "send_http so status body s =
     bind_exec (content_length (length body)) (\<lambda>digits.
     bind_exec (push_pieces (replicate 160 0) 0
         [as_bytes ''HTTP/1.0 '', status,
          CRLF @ as_bytes ''Content-Type: text/html'' @ CRLF @ as_bytes ''Connection: close'' @ CRLF @
            as_bytes ''Content-Length: '',
          digits, CRLF @ CRLF]) (\<lambda>(hdr, pos).
     bind_exec (slice hdr 0 pos) (\<lambda>h.
       Ret (snd (so_write_all so body (snd (so_write_all so h s)))))))"

definition send_redirect :: "'s socket \<Rightarrow> u8 list \<Rightarrow> 's \<Rightarrow> 's exec" where
  "send_redirect so location s =
     bind_exec (push_pieces (replicate 200 0) 0
         [as_bytes ''HTTP/1.0 302 Found'' @ CRLF @ as_bytes ''Location: '', location,
          CRLF @ as_bytes ''Content-Length: 0'' @ CRLF @ as_bytes ''Connection: close'' @ CRLF @ CRLF])
       (\<lambda>(hdr, pos).
     bind_exec (slice hdr 0 pos) (\<lambda>h. Ret (snd (so_write_all so h s))))"

section \<open>The reference lookup\<close>

text \<open>
  The lookup on the lines after the request line, up to the first empty one. The last line is the
  one no newline ends: past it the code reads beyond the block.
\<close>

definition chomp :: "u8 list \<Rightarrow> u8 list" where
  "chomp l = unwrap_or l (strip_suffix [13] l)"

definition header_value :: "u8 list \<Rightarrow> u8 list \<Rightarrow> u8 list option" where
  "header_value name line =
     (if length line > length name + 1 \<and> line ! length name = byte (CHR '':'') \<and>
        eq_ignore_ascii_case (take (length name) line) name
      then (let val = drop (length name + 1) line
            in Some (unwrap_or val (strip_prefix [byte (CHR '' '')] val)))
      else None)"

fun header_in :: "u8 list \<Rightarrow> u8 list list \<Rightarrow> u8 list option exec" where
  "header_in name [] = Panic"
| "header_in name (l # ls) =
     (if chomp l = [] then Ret None
      else case header_value name (chomp l) of Some v \<Rightarrow> Ret (Some v) | None \<Rightarrow> header_in name ls)"

lemma scan_newline_split:
  assumes "i \<le> length raw"
  shows "scan_newline raw i = i + length (takeWhile (\<lambda>b. b \<noteq> 10) (drop i raw))"
  using assms
proof (induction raw i rule: scan_newline.induct)
  case (1 raw i)
  show ?case
  proof (cases "i < length raw")
    case True
    then have "drop i raw = raw ! i # drop (Suc i) raw"
      by (simp add: Cons_nth_drop_Suc)
    then show ?thesis
      using 1 True by (subst scan_newline.simps) auto
  qed (subst scan_newline.simps, simp)
qed

lemma split_on_takeWhile:
  "split_on c xs = takeWhile (\<lambda>x. x \<noteq> c) xs #
     (case dropWhile (\<lambda>x. x \<noteq> c) xs of [] \<Rightarrow> [] | _ # r \<Rightarrow> split_on c r)"
  by (induction xs) (auto split: list.splits)

lemma dropWhile_drop: "dropWhile P xs = drop (length (takeWhile P xs)) xs"
  by (metis append_eq_conv_conj takeWhile_dropWhile_id)

text \<open>The loop at a line start, and past the end of the block.\<close>

lemma extract_header_loop_eq:
  "extract_header_loop raw name start =
     (if start \<le> length raw then header_in name (split_on 10 (drop start raw)) else Panic)"
proof (induction raw name start rule: extract_header_loop.induct)
  case (1 raw name start)
  let ?i = "scan_newline raw start"
  show ?case
  proof (cases "start \<le> length raw")
    case False
    then have "slice raw start ?i = Panic"
      using scan_newline_ge [of start raw] by (simp add: slice_def)
    then show ?thesis
      using False by (subst extract_header_loop.simps) simp
  next
    case True
    let ?l = "takeWhile (\<lambda>b. b \<noteq> 10) (drop start raw)"
    have i: "?i = start + length ?l"
      using scan_newline_split [OF True] .
    have l: "length ?l \<le> length raw - start"
      using length_takeWhile_le [of "\<lambda>b. b \<noteq> 10" "drop start raw"] by simp
    have s: "slice raw start ?i = Ret ?l"
      using i l True by (simp add: slice_def flip: takeWhile_eq_take)
    have rest: "dropWhile (\<lambda>b. b \<noteq> 10) (drop start raw) = drop ?i raw"
      by (simp add: dropWhile_drop i add.commute)
    have split: "split_on 10 (drop start raw) = ?l #
        (if ?i + 1 \<le> length raw then split_on 10 (drop (?i + 1) raw) else [])"
    proof (cases "?i < length raw")
      case True
      then have "drop ?i raw = raw ! ?i # drop (?i + 1) raw"
        by (simp add: Cons_nth_drop_Suc)
      then show ?thesis
        using True by (subst split_on_takeWhile) (simp add: rest)
    next
      case False
      then show ?thesis
        by (subst split_on_takeWhile) (simp add: rest)
    qed
    have IH: "chomp ?l \<noteq> [] \<Longrightarrow> header_value name (chomp ?l) = None \<Longrightarrow>
        extract_header_loop raw name (?i + 1) =
          (if ?i + 1 \<le> length raw then header_in name (split_on 10 (drop (?i + 1) raw)) else Panic)"
      using 1 [OF refl s refl] by (simp add: chomp_def header_value_def Let_def split: if_splits)
    have "extract_header_loop raw name start =
        (if chomp ?l = [] then Ret None
         else case header_value name (chomp ?l) of Some v \<Rightarrow> Ret (Some v)
           | None \<Rightarrow> extract_header_loop raw name (?i + 1))"
      by (subst extract_header_loop.simps) (simp add: s chomp_def header_value_def Let_def)
    then show ?thesis
      using True IH split by (auto split: option.split)
  qed
qed

lemma extract_header_eq: "extract_header raw name = header_in name (tl (split_on 10 raw))"
proof -
  let ?l = "takeWhile (\<lambda>b. b \<noteq> 10) raw"
  have i: "scan_newline raw 0 = length ?l"
    using scan_newline_split [of 0 raw] by simp
  have rest: "dropWhile (\<lambda>b. b \<noteq> 10) raw = drop (length ?l) raw"
    by (simp add: dropWhile_drop)
  show ?thesis
  proof (cases "length ?l < length raw")
    case True
    then have "drop (length ?l) raw = raw ! length ?l # drop (length ?l + 1) raw"
      by (simp add: Cons_nth_drop_Suc)
    then show ?thesis
      using True
      by (subst split_on_takeWhile) (simp add: extract_header_def extract_header_loop_eq i rest)
  next
    case False
    then show ?thesis
      by (subst split_on_takeWhile) (simp add: extract_header_def extract_header_loop_eq i rest)
  qed
qed

section \<open>What is read\<close>

text \<open>A block is complete with its empty line.\<close>

definition block_ends :: "u8 list \<Rightarrow> bool" where
  "block_ends h \<longleftrightarrow> 4 \<le> length h \<and> drop (length h - 4) h = CRLF @ CRLF"

fun take_block :: "nat \<Rightarrow> u8 list \<Rightarrow> u8 list \<Rightarrow> u8 list" where
  "take_block n pre [] = pre"
| "take_block n pre (x # xs) =
     (if n \<le> length pre then pre
      else if block_ends (pre @ [x]) then pre @ [x]
      else take_block n (pre @ [x]) xs)"

lemma take_block_length: "length pre \<le> n \<Longrightarrow> length (take_block n pre xs) \<le> n"
  by (induction n pre xs rule: take_block.induct) auto

lemma take_block_complete:
  "block_ends (pre @ h) \<Longrightarrow> h \<noteq> [] \<Longrightarrow> \<forall>k < length h. \<not> block_ends (pre @ take k h) \<Longrightarrow>
     length pre + length h \<le> n \<Longrightarrow> take_block n pre (h @ rest) = pre @ h"
proof (induction h arbitrary: pre)
  case (Cons x h)
  show ?case
  proof (cases "h = []")
    case True
    then show ?thesis
      using Cons.prems by simp
  next
    case False
    have "\<not> block_ends (pre @ [x])"
      using Cons.prems(3) False by (auto dest!: spec [of _ 1])
    moreover have "\<forall>k < length h. \<not> block_ends ((pre @ [x]) @ take k h)"
    proof (intro allI impI)
      fix k
      assume "k < length h"
      then show "\<not> block_ends ((pre @ [x]) @ take k h)"
        using spec [OF Cons.prems(3), of "Suc k"] by simp
    qed
    ultimately show ?thesis
      using Cons.IH [of "pre @ [x]"] Cons.prems(1,4) False by simp
  qed
qed simp

lemma take_block_open:
  "\<forall>k \<le> length h. \<not> block_ends (pre @ take k h) \<Longrightarrow> length pre \<le> n \<Longrightarrow>
     take_block n pre h = take n (pre @ h)"
proof (induction h arbitrary: pre)
  case (Cons x h)
  have "\<not> block_ends (pre @ [x])"
    using spec [OF Cons.prems(1), of 1] by simp
  moreover have "\<forall>k \<le> length h. \<not> block_ends ((pre @ [x]) @ take k h)"
  proof (intro allI impI)
    fix k
    assume "k \<le> length h"
    then show "\<not> block_ends ((pre @ [x]) @ take k h)"
      using spec [OF Cons.prems(1), of "Suc k"] by simp
  qed
  ultimately show ?case
    using Cons.IH [of "pre @ [x]"] Cons.prems(2) by (cases "n \<le> length pre") simp_all
qed simp

lemma read_some_stream:
  assumes "stream_socket so input output" "0 < n"
  shows "\<exists>c s'. read_some so n s = (c, s') \<and> length c \<le> n \<and> (c = [] \<longleftrightarrow> input s = []) \<and>
     input s = c @ input s' \<and> output s' = output s"
  using stream_socketD(1) [OF assms, of s] by (auto simp: read_some_def)

lemma read_headers_loop_stream:
  assumes "stream_socket so input output" "length pre \<le> n"
  shows "\<exists>s'. read_headers_loop so (pre @ replicate (n - length pre) 0) (length pre) s =
       Ret (length (take_block n pre (input s)),
         take_block n pre (input s) @ replicate (n - length (take_block n pre (input s))) 0, s') \<and>
     input s = drop (length pre) (take_block n pre (input s)) @ input s' \<and>
     take (length pre) (take_block n pre (input s)) = pre \<and> output s' = output s"
  using assms(2)
proof (induction "input s" arbitrary: pre s)
  case Nil
  obtain s' where s': "read_some so 1 s = ([], s')" "input s' = []" "output s' = output s"
    using read_some_stream [OF assms(1), of 1 s] Nil.hyps by auto
  show ?case
    using s' Nil.hyps [symmetric] Nil.prems
    by (subst read_headers_loop.simps) (auto split: prod.split)
next
  case (Cons x xs)
  obtain s' where s': "read_some so 1 s = ([x], s')" "input s' = xs" "output s' = output s"
    using read_some_stream [OF assms(1), of 1 s] Cons.hyps(2)
    by (auto simp: le_Suc_eq length_Suc_conv)
  show ?case
  proof (cases "length pre < n")
    case False
    then show ?thesis
      using Cons.prems Cons.hyps(2) by (subst read_headers_loop.simps) (simp flip: Cons.hyps(2))
  next
    case True
    let ?buf = "pre @ replicate (n - length pre) 0" and ?pre = "pre @ [x]"
    have put: "put_at ?buf (length pre) x = Ret (?pre @ replicate (n - length ?pre) 0)"
      using put_at_erased [of pre "length pre" "n - length pre" 0 x] True by simp
    have ends: "(length ?pre \<ge> 4 \<and> slice (?pre @ replicate (n - length ?pre) 0)
        (length ?pre - 4) (length ?pre) = Ret (CRLF @ CRLF)) = block_ends ?pre"
      by (auto simp: block_ends_def slice_def)
    have step: "read_headers_loop so ?buf (length pre) s =
        (if block_ends ?pre then Ret (length ?pre, ?pre @ replicate (n - length ?pre) 0, s')
         else read_headers_loop so (?pre @ replicate (n - length ?pre) 0) (length ?pre) s')"
      unfolding ends [symmetric] using True s'(1) put
      by (subst read_headers_loop.simps) (simp add: Let_def)
    show ?thesis
    proof (cases "block_ends ?pre")
      case True
      then show ?thesis
        using step s' \<open>length pre < n\<close> by (simp flip: Cons.hyps(2))
    next
      case False
      let ?b = "take_block n ?pre (input s')"
      obtain s'' where s'': "read_headers_loop so (?pre @ replicate (n - length ?pre) 0) (length ?pre) s' =
           Ret (length ?b, ?b @ replicate (n - length ?b) 0, s'')"
        "input s' = drop (length ?pre) ?b @ input s''" "take (length ?pre) ?b = ?pre" "output s'' = output s'"
        using Cons.hyps(1) [of s' ?pre] s'(2) True by auto
      have b: "take_block n pre (input s) = ?b"
        using True False s'(2) by (simp flip: Cons.hyps(2))
      have "take (length pre) ?b = pre" "drop (length pre) ?b = x # drop (length ?pre) ?b"
        using s''(3) append_take_drop_id [of "length ?pre" ?b]
        by (metis append_eq_conv_conj append_assoc append_Cons append_Nil)+
      then show ?thesis
        unfolding b using step False s'' s'(2,3) by (simp flip: Cons.hyps(2))
    qed
  qed
qed

lemma read_http_headers_stream:
  assumes "stream_socket so input output"
  shows "\<exists>s'. read_http_headers so (replicate n 0) s =
       Ret (length (take_block n [] (input s)),
         take_block n [] (input s) @ replicate (n - length (take_block n [] (input s))) 0, s') \<and>
     input s = take_block n [] (input s) @ input s' \<and> output s' = output s"
  using read_headers_loop_stream [OF assms, of "[]" n s] by (simp add: read_http_headers_def)

section \<open>What is built\<close>

lemma push_bytes_eq:
  "length xs \<le> n \<Longrightarrow> push_bytes (xs @ replicate (n - length xs) 0) (length xs) bs =
     (let ys = take n (xs @ bs) in Ret (ys @ replicate (n - length ys) 0, length ys))"
proof (induction bs arbitrary: xs)
  case (Cons b bs)
  show ?case
  proof (cases "length xs < n")
    case True
    have "put_at (xs @ replicate (n - length xs) 0) (length xs) b =
        Ret ((xs @ [b]) @ replicate (n - length (xs @ [b])) 0)"
      using put_at_erased [of xs "length xs" "n - length xs" 0 b] True by simp
    then show ?thesis
      using True Cons.IH [of "xs @ [b]"] by simp
  next
    case False
    then show ?thesis
      using Cons.IH [of xs] Cons.prems by (simp add: Let_def)
  qed
qed simp

lemma push_pieces_eq:
  "length xs \<le> n \<Longrightarrow> push_pieces (xs @ replicate (n - length xs) 0) (length xs) ps =
     (let ys = take n (xs @ concat ps) in Ret (ys @ replicate (n - length ys) 0, length ys))"
proof (induction ps arbitrary: xs)
  case (Cons p ps)
  let ?ys = "take n (xs @ p)"
  have "take n (?ys @ concat ps) = take n (xs @ p @ concat ps)"
    using Cons.prems by (cases "n \<le> length (xs @ p)") (simp_all add: min_absorb1)
  moreover have "push_pieces (xs @ replicate (n - length xs) 0) (length xs) (p # ps) =
      push_pieces (?ys @ replicate (n - length ?ys) 0) (length ?ys) ps"
    using push_bytes_eq [OF Cons.prems, of p] by (simp only: push_pieces.simps Let_def bind_exec.simps prod.case)
  moreover have "length ?ys \<le> n"
    by simp
  ultimately show ?case
    using Cons.IH [of ?ys] by (simp only: concat.simps append_assoc)
qed simp

lemma push_pieces_text:
  "bind_exec (push_pieces (replicate n 0) 0 ps) (\<lambda>(hdr, pos). bind_exec (slice hdr 0 pos) f) =
     f (take n (concat ps))"
  using push_pieces_eq [of "[]" n ps] by (simp add: Let_def slice_def min_def)

text \<open>The digits of the length of a body of less than ten thousand million bytes.\<close>

lemma digit_byte: "(d :: nat) < 10 \<Longrightarrow> (of_char (char_of (48 + d)) :: u8) = byte (CHR ''0'') + of_nat d"
proof -
  assume "d < 10"
  then have "d = 0 \<or> d = 1 \<or> d = 2 \<or> d = 3 \<or> d = 4 \<or> d = 5 \<or> d = 6 \<or> d = 7 \<or> d = 8 \<or> d = 9"
    by presburger
  then show ?thesis
    by (elim disjE) (simp_all add: char_of_def bit_0)
qed

lemma render_digits_eq:
  "0 < n \<Longrightarrow> n < 10 ^ tp \<Longrightarrow> tp \<le> length tmp \<Longrightarrow>
     \<exists>tmp' k. render_digits tmp tp n = Ret (tmp', k) \<and> length tmp' = length tmp \<and> k < tp \<and>
       drop k tmp' = as_bytes (fmt_dec n) @ drop tp tmp"
proof (induction tmp tp n rule: render_digits.induct)
  case (1 tmp tp n)
  have tp: "0 < tp"
    using "1.prems" by (cases tp) auto
  define d where "d = byte (CHR ''0'') + of_nat (n mod 10)"
  let ?tmp = "tmp[tp - 1 := d]"
  have put: "put_at tmp (tp - 1) (byte (CHR ''0'') + of_nat (n mod 10)) = Ret ?tmp"
    using tp "1.prems"(3) by (simp add: put_at_def d_def)
  have d: "as_bytes [char_of (48 + n mod 10)] = [d]"
    using digit_byte [of "n mod 10"] by (simp add: d_def)
  have last: "drop (tp - 1) ?tmp = d # drop tp tmp"
    using tp "1.prems"(3) by (simp add: drop_update_swap Cons_nth_drop_Suc [symmetric])
  show ?case
  proof (cases "n < 10")
    case True
    then show ?thesis
      using tp put "1.prems" d last
      by (subst render_digits.simps, subst fmt_dec.simps) (simp add: render_digits.simps [of _ _ 0])
  next
    case False
    have "n div 10 < 10 ^ (tp - 1)"
      using "1.prems"(2) tp by (cases tp) (simp_all add: div_less_iff_less_mult mult.commute)
    then have "\<exists>tmp' k. render_digits ?tmp (tp - 1) (n div 10) = Ret (tmp', k) \<and>
        length tmp' = length ?tmp \<and> k < tp - 1 \<and>
        drop k tmp' = as_bytes (fmt_dec (n div 10)) @ drop (tp - 1) ?tmp"
      using tp False "1.prems"(3) by (intro "1.IH" [OF "1.prems"(1) _ put]) simp_all
    then obtain tmp' k where r: "render_digits ?tmp (tp - 1) (n div 10) = Ret (tmp', k)"
      "length tmp' = length ?tmp" "k < tp - 1"
      "drop k tmp' = as_bytes (fmt_dec (n div 10)) @ drop (tp - 1) ?tmp"
      by blast
    then show ?thesis
      using tp put "1.prems"(1) d last False
      by (subst render_digits.simps, subst fmt_dec.simps) simp
  qed
qed

lemma content_length_eq: "n < 10 ^ 10 \<Longrightarrow> content_length n = Ret (as_bytes (fmt_dec n))"
proof (cases "n = 0")
  case True
  have "drop 9 ((replicate 10 (0 :: u8))[9 := v]) = [v]" for v
    by (simp add: numeral_nat)
  then show ?thesis
    using True digit_byte [of 0] by (simp add: content_length_def put_at_def slice_def fmt_dec.simps [of 0])
next
  case False
  assume "n < 10 ^ 10"
  then obtain tmp k where r: "render_digits (replicate 10 0) 10 n = Ret (tmp, k)" "length tmp = 10"
    "k < 10" "drop k tmp = as_bytes (fmt_dec n)"
    using render_digits_eq [of n 10 "replicate 10 0"] False by auto
  have "take (10 - k) (drop k tmp) = drop k tmp"
    using r(2) by simp
  then show ?thesis
    using r False by (simp add: content_length_def slice_def)
qed

text \<open>What \<open>send_http\<close> and \<open>send_redirect\<close> write.\<close>

definition http_head :: "u8 list \<Rightarrow> nat \<Rightarrow> u8 list" where
  "http_head status n =
     concat [as_bytes ''HTTP/1.0 '', status,
       CRLF @ as_bytes ''Content-Type: text/html'' @ CRLF @ as_bytes ''Connection: close'' @ CRLF @
         as_bytes ''Content-Length: '',
       as_bytes (fmt_dec n), CRLF @ CRLF]"

definition redirect_head :: "u8 list \<Rightarrow> u8 list" where
  "redirect_head location =
     concat [as_bytes ''HTTP/1.0 302 Found'' @ CRLF @ as_bytes ''Location: '', location,
       CRLF @ as_bytes ''Content-Length: 0'' @ CRLF @ as_bytes ''Connection: close'' @ CRLF @ CRLF]"

lemma send_http_eq:
  "length body < 10 ^ 10 \<Longrightarrow> send_http so status body s =
     Ret (snd (so_write_all so body (snd (so_write_all so (take 160 (http_head status (length body))) s))))"
  by (simp only: send_http_def content_length_eq bind_exec.simps push_pieces_text http_head_def)

lemma send_redirect_eq:
  "send_redirect so location s = Ret (snd (so_write_all so (take 200 (redirect_head location)) s))"
  by (simp only: send_redirect_def push_pieces_text redirect_head_def)

lemma write_stream:
  assumes "stream_socket so input output"
  shows "input (snd (so_write_all so bs s)) = input s"
    and "output (snd (so_write_all so bs s)) = output s @ bs"
    and "fst (so_write_all so bs s) = Ok ()"
  using stream_socketD(2) [OF assms, of bs s] by auto

section \<open>Blocks that end\<close>

text \<open>The lookup cannot run past a block whose last line is ended.\<close>

lemma header_in_Panic:
  "header_in name ls = Panic \<longleftrightarrow>
     list_all (\<lambda>l. chomp l \<noteq> [] \<and> header_value name (chomp l) = None) ls"
  by (induction ls) (auto split: option.split)

lemma split_on_snoc: "split_on c (xs @ [c]) = split_on c xs @ [[]]"
  by (induction xs) (auto split: list.splits)

lemma header_in_ended:
  assumes "h \<noteq> []" "last h = 10"
  shows "\<exists>v. header_in name (tl (split_on 10 h)) = Ret v"
proof -
  have "tl (split_on 10 h) = tl (split_on 10 (butlast h)) @ [[]]"
    using assms split_on_snoc [of 10 "butlast h"] append_butlast_last_id [OF assms(1)] by simp
  then have "header_in name (tl (split_on 10 h)) \<noteq> Panic"
    by (simp add: header_in_Panic chomp_def strip_suffix_def)
  then show ?thesis
    by (simp add: not_Panic_iff)
qed

lemma block_ends_last: "block_ends h \<Longrightarrow> h \<noteq> [] \<and> last h = 10"
proof -
  assume h: "block_ends h"
  then have "h = take (length h - 4) h @ CRLF @ CRLF"
    by (metis append_take_drop_id block_ends_def)
  then have "last h = last (CRLF @ CRLF)"
    by (metis CRLF_def append_is_Nil_conv last_appendR list.distinct(1))
  then show ?thesis
    using h by (auto simp: block_ends_def CRLF_def)
qed

text \<open>A request whose block is complete within the 512 bytes of the buffer.\<close>

definition complete_request :: "u8 list \<Rightarrow> bool" where
  "complete_request h \<longleftrightarrow>
     block_ends h \<and> length h \<le> 512 \<and> list_all (\<lambda>k. \<not> block_ends (take k h)) [0..<length h]"

lemma complete_request_block:
  assumes "complete_request h"
  shows "take_block 512 [] (h @ rest) = h" "h \<noteq> []" "last h = 10"
  using assms take_block_complete [of "[]" h 512 rest] block_ends_last [of h]
  by (auto simp: complete_request_def list_all_iff)

text \<open>C20: \<open>extract_header\<close> is the lookup on the lines of the block: the first line after the request
  line that names the header, in any case, gives its value without one leading blank, and an empty
  line ends the search. It panics exactly when no line matches and none is empty, so when the block
  has no empty line and does not end with a newline.\<close>

theorem extract_header_lookup:
  "extract_header raw name = header_in name (tl (split_on 10 raw)) \<and>
   (extract_header raw name = Panic \<longleftrightarrow>
      list_all (\<lambda>l. chomp l \<noteq> [] \<and> header_value name (chomp l) = None) (tl (split_on 10 raw)))"
  by (simp add: extract_header_eq header_in_Panic)

end
