(* ===== verification/Portal.thy ===== *)
theory Portal
  imports Heapless
begin

text \<open>
  \<open>src/provisioning/portal.rs\<close> and \<open>src/provisioning/storage.rs\<close>: the request line, the
  percent-encoded form of the captive portal and the credentials it submits. \<open>percent_decode\<close>
  is the reference decoder over whole byte strings and \<open>form_body\<close> is what a browser submits
  for the portal's form.
\<close>

section \<open>Request line (portal.rs)\<close>

datatype http_method = Get | Post

record request_line =
  rl_method :: http_method
  rl_path :: str

datatype parse_error =
    MalformedRequestLine
  | UnknownMethod
  | MalformedFormBody
  | MissingFormField
  | InvalidPercentEncoding

definition parse_request_line :: "u8 list \<Rightarrow> (request_line, parse_error) result" where
  "parse_request_line raw =
     (let line = unwrap_or raw
        (case strip_suffix (as_bytes [CHR 0x0D, CHR 0x0A]) raw of
           Some l \<Rightarrow> Some l
         | None \<Rightarrow> strip_suffix (as_bytes [CHR 0x0A]) raw)
      in case from_utf8 line of
           Err _ \<Rightarrow> Err MalformedRequestLine
         | Ok line_str \<Rightarrow>
             (case splitn 3 (CHR '' '') line_str of
                method_str # path # http_ver # _ \<Rightarrow>
                  bind_result
                    (if method_str = ''GET'' then Ok Get
                     else if method_str = ''POST'' then Ok Post
                     else Err UnknownMethod)
                    (\<lambda>m. Ok \<lparr>rl_method = m, rl_path = path\<rparr>)
              | _ \<Rightarrow> Err MalformedRequestLine))"

section \<open>Form fields (portal.rs)\<close>

record connect_form =
  cf_ssid :: str
  cf_password :: str
  cf_mqtt_host :: str
  cf_mqtt_port :: u16

text \<open>The loop over the pairs, with the four variables it updates.\<close>

fun connect_fields ::
  "str list \<Rightarrow> str option \<times> str option \<times> str \<times> u16 \<Rightarrow>
   (str option \<times> str option \<times> str \<times> u16, parse_error) result" where
  "connect_fields [] acc = Ok acc"
| "connect_fields (pair # pairs) (ssid, password, host, port) =
     (case splitn 2 (CHR ''='') pair of
        [] \<Rightarrow> Err MalformedFormBody
      | key # rest \<Rightarrow>
          (let val = (case rest of [] \<Rightarrow> '''' | v # _ \<Rightarrow> v) in
           if key = ''ssid'' then connect_fields pairs (Some val, password, host, port)
           else if key = ''password'' then connect_fields pairs (ssid, Some val, host, port)
           else if key = ''mqtt_host'' then connect_fields pairs (ssid, password, val, port)
           else if key = ''mqtt_port'' then
             connect_fields pairs (ssid, password, host,
               case parse_uint (2 ^ 16) val of Some p \<Rightarrow> of_nat p | None \<Rightarrow> port)
           else connect_fields pairs (ssid, password, host, port)))"

definition parse_connect_form :: "str \<Rightarrow> (connect_form, parse_error) result" where
  "parse_connect_form decoded =
     bind_result (connect_fields (split_on (CHR ''&'') decoded) (None, None, '''', 1883))
       (\<lambda>(ssid, password, host, port).
          bind_result (ok_or MissingFormField ssid) (\<lambda>s.
          bind_result (ok_or MissingFormField password) (\<lambda>p.
            Ok \<lparr>cf_ssid = s, cf_password = p, cf_mqtt_host = host, cf_mqtt_port = port\<rparr>)))"

section \<open>Percent decoding (portal.rs)\<close>

definition hex_nibble :: "u8 \<Rightarrow> (u8, parse_error) result" where
  "hex_nibble b =
     (if byte (CHR ''0'') \<le> b \<and> b \<le> byte (CHR ''9'') then Ok (b - byte (CHR ''0''))
      else if byte (CHR ''a'') \<le> b \<and> b \<le> byte (CHR ''f'') then Ok (b - byte (CHR ''a'') + 10)
      else if byte (CHR ''A'') \<le> b \<and> b \<le> byte (CHR ''F'') then Ok (b - byte (CHR ''A'') + 10)
      else Err InvalidPercentEncoding)"

text \<open>The loop, with the input, the buffer and the positions \<open>out_pos\<close> and \<open>in_pos\<close>.\<close>

function decode_loop ::
  "u8 list \<Rightarrow> u8 list \<Rightarrow> nat \<Rightarrow> nat \<Rightarrow> ((nat, parse_error) result \<times> u8 list) exec" where
  "decode_loop input out out_pos in_pos =
     (if in_pos < length input then
        bind_exec (get_at input in_pos) (\<lambda>b.
          if b = byte (CHR ''+'') then
            (if out_pos \<ge> length out then Ret (Err MalformedFormBody, out)
             else bind_exec (put_at out out_pos (byte (CHR '' ''))) (\<lambda>out'.
               decode_loop input out' (out_pos + 1) (in_pos + 1)))
          else if b = byte (CHR ''%'') then
            (if in_pos + 2 \<ge> length input then Ret (Err InvalidPercentEncoding, out)
             else
               bind_exec (get_at input (in_pos + 1)) (\<lambda>h.
                 case hex_nibble h of
                   Err e \<Rightarrow> Ret (Err e, out)
                 | Ok hi \<Rightarrow>
                     bind_exec (get_at input (in_pos + 2)) (\<lambda>l.
                       case hex_nibble l of
                         Err e \<Rightarrow> Ret (Err e, out)
                       | Ok lo \<Rightarrow>
                           (if out_pos \<ge> length out then Ret (Err MalformedFormBody, out)
                            else bind_exec (put_at out out_pos (push_bit 4 hi OR lo)) (\<lambda>out'.
                              decode_loop input out' (out_pos + 1) (in_pos + 3))))))
          else
            (if out_pos \<ge> length out then Ret (Err MalformedFormBody, out)
             else bind_exec (put_at out out_pos b) (\<lambda>out'.
               decode_loop input out' (out_pos + 1) (in_pos + 1))))
      else Ret (Ok out_pos, out))"
  by pat_completeness auto
termination
  by (relation "measure (\<lambda>(input, out, out_pos, in_pos). length input - in_pos)") auto

declare decode_loop.simps [simp del]

definition decode_url_encoded ::
  "u8 list \<Rightarrow> u8 list \<Rightarrow> ((str, parse_error) result \<times> u8 list) exec" where
  "decode_url_encoded input out =
     bind_exec (decode_loop input out 0 0) (\<lambda>(r, out').
       case r of
         Err e \<Rightarrow> Ret (Err e, out')
       | Ok out_pos \<Rightarrow>
           bind_exec (slice out' 0 out_pos) (\<lambda>bs.
             Ret (case from_utf8 bs of Ok s \<Rightarrow> Ok s | Err _ \<Rightarrow> Err MalformedFormBody, out')))"

section \<open>The network name (portal.rs)\<close>

text \<open>\<open>mac\<close> is an array of six bytes, so its elements 4 and 5 exist.\<close>

definition make_ap_ssid :: "heapless \<Rightarrow> u8 list \<Rightarrow> str" where
  "make_ap_ssid hl mac =
     fst (write_pieces hl 20 '''' [''pico-setup-'', fmt_02x True (mac ! 4), fmt_02x True (mac ! 5)])"

section \<open>Credentials (storage.rs)\<close>

record credentials =
  cr_ssid :: str
  cr_password :: str
  cr_mqtt_host :: str
  cr_mqtt_port :: u16

definition credentials_new :: "heapless \<Rightarrow> str \<Rightarrow> str \<Rightarrow> credentials option" where
  "credentials_new hl ssid password =
     (case result_ok (hl_try_from hl 32 ssid) of
        None \<Rightarrow> None
      | Some s \<Rightarrow>
          (case result_ok (hl_try_from hl 64 password) of
             None \<Rightarrow> None
           | Some p \<Rightarrow>
               Some \<lparr>cr_ssid = s, cr_password = p, cr_mqtt_host = '''', cr_mqtt_port = 1883\<rparr>))"

definition credentials_with_mqtt ::
  "heapless \<Rightarrow> str \<Rightarrow> str \<Rightarrow> str \<Rightarrow> u16 \<Rightarrow> credentials option" where
  "credentials_with_mqtt hl ssid password mqtt_host mqtt_port =
     (case result_ok (hl_try_from hl 32 ssid) of
        None \<Rightarrow> None
      | Some s \<Rightarrow>
          (case result_ok (hl_try_from hl 64 password) of
             None \<Rightarrow> None
           | Some p \<Rightarrow>
               (case result_ok (hl_try_from hl 64 mqtt_host) of
                  None \<Rightarrow> None
                | Some h \<Rightarrow>
                    Some \<lparr>cr_ssid = s, cr_password = p, cr_mqtt_host = h,
                          cr_mqtt_port = mqtt_port\<rparr>)))"

datatype storage_error = WriteError | CorruptData | SerdeError

text \<open>The stubs of the host build.\<close>

definition load_credentials :: "credentials option" where
  "load_credentials = None"

definition save_credentials :: "credentials \<Rightarrow> (unit, storage_error) result" where
  "save_credentials creds = Ok ()"

definition erase_credentials :: "(unit, storage_error) result" where
  "erase_credentials = Ok ()"

text \<open>Values a \<open>Credentials\<close> can hold: its strings are within their capacities and UTF-8.\<close>

definition wf_credentials :: "credentials \<Rightarrow> bool" where
  "wf_credentials c \<longleftrightarrow>
     length (cr_ssid c) \<le> 32 \<and> length (cr_password c) \<le> 64 \<and> length (cr_mqtt_host c) \<le> 64 \<and>
     utf8_valid (as_bytes (cr_ssid c)) \<and> utf8_valid (as_bytes (cr_password c)) \<and>
     utf8_valid (as_bytes (cr_mqtt_host c))"

lemma credentials_with_mqtt_eq:
  "heapless_ok hl \<Longrightarrow>
     credentials_with_mqtt hl s p h port =
       (if length s \<le> 32 \<and> length p \<le> 64 \<and> length h \<le> 64
        then Some \<lparr>cr_ssid = s, cr_password = p, cr_mqtt_host = h, cr_mqtt_port = port\<rparr>
        else None)"
  by (simp add: credentials_with_mqtt_def heapless_okD(7))

lemma credentials_new_eq:
  "heapless_ok hl \<Longrightarrow> credentials_new hl s p = credentials_with_mqtt hl s p '''' 1883"
  by (simp add: credentials_with_mqtt_def credentials_new_def heapless_okD(7))

section \<open>The reference decoder\<close>

definition hex_value :: "u8 \<Rightarrow> nat option" where
  "hex_value b =
     (let n = unat b in
      if 48 \<le> n \<and> n \<le> 57 then Some (n - 48)
      else if 97 \<le> n \<and> n \<le> 102 then Some (n - 87)
      else if 65 \<le> n \<and> n \<le> 70 then Some (n - 55)
      else None)"

fun percent_decode :: "u8 list \<Rightarrow> u8 list option" where
  "percent_decode [] = Some []"
| "percent_decode (b # bs) =
     (if b = byte (CHR ''+'') then map_option ((#) (byte (CHR '' ''))) (percent_decode bs)
      else if b = byte (CHR ''%'') then
        (case bs of
           h # l # r \<Rightarrow>
             (case (hex_value h, hex_value l) of
                (Some i, Some j) \<Rightarrow> map_option ((#) (of_nat (16 * i + j))) (percent_decode r)
              | _ \<Rightarrow> None)
         | _ \<Rightarrow> None)
      else map_option ((#) b) (percent_decode bs))"

lemma hex_nibble_value:
  "hex_nibble b = (case hex_value b of Some n \<Rightarrow> Ok (of_nat n) | None \<Rightarrow> Err InvalidPercentEncoding)"
proof -
  have u: "unat (b - k) = unat b - unat k" if "k \<le> b" for k :: u8
    using that by (simp add: unat_sub)
  have n: "of_nat (unat b - k) = b - of_nat k" if "k \<le> unat b" for k
    using that by (simp add: of_nat_diff)
  show ?thesis
    using n [of 48] n [of 87] n [of 55]
    by (auto simp: hex_nibble_def hex_value_def Let_def word_le_nat_alt of_char_def)
qed

lemma hex_value_less: "hex_value b = Some n \<Longrightarrow> n < 16"
  by (auto simp: hex_value_def Let_def split: if_splits)

lemma join_nibbles:
  assumes "i < 16" "j < 16"
  shows "push_bit 4 (of_nat i :: u8) OR of_nat j = of_nat (16 * i + j)"
proof -
  let ?w = "push_bit 4 (of_nat i :: u8) OR of_nat j"
  have "unat ?w = 16 * i + j"
    using assms unat_push_bit_or [of "of_nat j :: u8" 4 "of_nat i"] by (simp add: unat_of_nat)
  moreover have "?w = of_nat (unat ?w)"
    by simp
  ultimately show ?thesis
    by (simp only:)
qed

lemma drop_ConsD:
  "drop i xs = y # ys \<Longrightarrow> i < length xs \<and> xs ! i = y \<and> drop (Suc i) xs = ys"
  by (metis drop_Suc drop_all hd_drop_conv_nth leI list.distinct(1) list.sel(1,3) tl_drop)

lemma decode_loop_end: "drop i input = [] \<Longrightarrow> decode_loop input out p i = Ret (Ok p, out)"
  by (subst decode_loop.simps) simp

lemma decode_loop_plain:
  assumes "drop i input = b # bs" "b \<noteq> byte (CHR ''%'')"
  shows "decode_loop input out p i =
    (if p \<ge> length out then Ret (Err MalformedFormBody, out)
     else decode_loop input (out[p := if b = byte (CHR ''+'') then byte (CHR '' '') else b])
            (Suc p) (Suc i))"
  using drop_ConsD [OF assms(1)] assms(2)
  by (subst decode_loop.simps) (auto simp: get_at_def put_at_def)

lemma decode_loop_escape:
  assumes "drop i input = byte (CHR ''%'') # h # l # r"
    and "hex_value h = Some m" "hex_value l = Some n"
  shows "decode_loop input out p i =
    (if p \<ge> length out then Ret (Err MalformedFormBody, out)
     else decode_loop input (out[p := of_nat (16 * m + n)]) (Suc p) (i + 3))"
proof -
  have i: "i < length input" "input ! i = byte (CHR ''%'')"
    and h: "Suc i < length input" "input ! Suc i = h"
    and l: "Suc (Suc i) < length input" "input ! Suc (Suc i) = l"
    using drop_ConsD [OF assms(1)] drop_ConsD [of "Suc i" input] drop_ConsD [of "Suc (Suc i)" input]
    by auto
  show ?thesis
    using i h l assms(2,3) join_nibbles [OF hex_value_less hex_value_less, OF assms(2,3)]
    by (subst decode_loop.simps)
      (simp add: get_at_def put_at_def hex_nibble_value del: of_nat_add of_nat_mult)
qed

lemma decode_loop_bad_escape:
  assumes "drop i input = byte (CHR ''%'') # bs"
    and "case bs of h # l # r \<Rightarrow> hex_value h = None \<or> hex_value l = None | _ \<Rightarrow> True"
  shows "decode_loop input out p i = Ret (Err InvalidPercentEncoding, out)"
proof (cases bs rule: remdups_adj.cases)
  case (3 h l r)
  have i: "i < length input" "input ! i = byte (CHR ''%'')"
    and h: "Suc i < length input" "input ! Suc i = h"
    and l: "Suc (Suc i) < length input" "input ! Suc (Suc i) = l"
    using drop_ConsD [OF assms(1)] drop_ConsD [of "Suc i" input] drop_ConsD [of "Suc (Suc i)" input]
      3 by auto
  show ?thesis
    using i h l assms(2) 3
    by (subst decode_loop.simps)
      (auto simp: get_at_def hex_nibble_value split: option.splits)
next
  case 1
  then have "length input \<le> i + 2" "i < length input" "input ! i = byte (CHR ''%'')"
    using drop_ConsD [OF assms(1)] by auto
  then show ?thesis
    by (subst decode_loop.simps) (simp add: get_at_def)
next
  case (2 x)
  then have "length input \<le> i + 2" "i < length input" "input ! i = byte (CHR ''%'')"
    using drop_ConsD [OF assms(1)] drop_ConsD [of "Suc i" input] by auto
  then show ?thesis
    by (subst decode_loop.simps) (simp add: get_at_def)
qed

text \<open>What the loop leaves: the decoded bytes from \<open>p\<close> on when they fit, an error otherwise.\<close>

definition decoded_at :: "u8 list option \<Rightarrow> u8 list \<Rightarrow> nat \<Rightarrow> ((nat, parse_error) result \<times> u8 list) exec \<Rightarrow> bool"
where
  "decoded_at d out p res \<longleftrightarrow>
     (case d of
        Some bs \<Rightarrow>
          if p + length bs \<le> length out then res = Ret (Ok (p + length bs), splice_at p bs out)
          else (\<exists>e out'. res = Ret (Err e, out'))
      | None \<Rightarrow> (\<exists>e out'. res = Ret (Err e, out')))"

lemma decoded_at_store:
  assumes "p < length out" "decoded_at d (out[p := b]) (Suc p) res"
  shows "decoded_at (map_option ((#) b) d) out p res"
proof -
  have "take (Suc p) (out[p := b]) = take p out @ [b]"
    using assms(1) by (simp add: take_Suc_conv_app_nth)
  then show ?thesis
    using assms by (cases d) (auto simp: decoded_at_def splice_at_def)
qed

lemma decoded_at_full:
  "length out \<le> p \<Longrightarrow> decoded_at (map_option ((#) b) d) out p (Ret (Err e, out))"
  by (cases d) (auto simp: decoded_at_def)

lemma decode_loop_result:
  "p \<le> length out \<Longrightarrow>
     decoded_at (percent_decode (drop i input)) out p (decode_loop input out p i)"
proof (induction "drop i input" arbitrary: i out p rule: percent_decode.induct)
  case 1
  then show ?case
    by (simp add: decode_loop_end decoded_at_def splice_at_def flip: 1(1))
next
  case (2 b bs)
  from "2.hyps"(4) have xs: "drop i input = b # bs"
    by simp
  have rest: "drop (Suc i) input = bs"
    using drop_ConsD [OF xs] by simp
  show ?case
  proof (cases "b = byte (CHR ''%'')")
    case False
    let ?c = "if b = byte (CHR ''+'') then byte (CHR '' '') else b"
    have eq: "percent_decode (drop i input) = map_option ((#) ?c) (percent_decode bs)"
      using False by (simp add: xs)
    have "decoded_at (percent_decode (drop (Suc i) input)) (out[p := ?c]) (Suc p)
        (decode_loop input (out[p := ?c]) (Suc p) (Suc i))" if "p < length out"
    proof (cases "b = byte (CHR ''+'')")
      case True
      show ?thesis
        by (rule "2.hyps"(1) [OF True]) (use rest that in simp_all)
    next
      case ne: False
      show ?thesis
        by (rule "2.hyps"(3) [OF ne False]) (use rest that in simp_all)
    qed
    then show ?thesis
      unfolding eq decode_loop_plain [OF xs False]
      using decoded_at_store [of p out _ ?c] decoded_at_full [of out p ?c] rest by auto
  next
    case True
    note esc = True
    show ?thesis
    proof (cases "\<exists>h l r m n. bs = h # l # r \<and> hex_value h = Some m \<and> hex_value l = Some n")
      case True
      then obtain h l r m n
        where bs: "bs = h # l # r" "hex_value h = Some m" "hex_value l = Some n" by blast
      have xs': "drop i input = byte (CHR ''%'') # h # l # r"
        using xs bs esc by simp
      have r: "drop (i + 3) input = r"
        using drop_ConsD [OF xs'] drop_ConsD [of "Suc i" input] drop_ConsD [of "Suc (Suc i)" input]
        by (simp add: numeral_3_eq_3)
      have eq: "percent_decode (drop i input) =
          map_option ((#) (of_nat (16 * m + n))) (percent_decode r)"
        using bs by (simp add: xs' del: of_nat_add of_nat_mult)
      have "decoded_at (percent_decode (drop (i + 3) input)) (out[p := of_nat (16 * m + n)]) (Suc p)
          (decode_loop input (out[p := of_nat (16 * m + n)]) (Suc p) (i + 3))" if "p < length out"
        by (rule "2.hyps"(2) [where ?x2.0 = m and x2a = n]) (use bs esc r that in \<open>auto simp del: of_nat_add of_nat_mult\<close>)
      then show ?thesis
        unfolding eq decode_loop_escape [OF xs' bs(2,3)]
        using decoded_at_store [of p out _ "of_nat (16 * m + n)"]
          decoded_at_full [of out p "of_nat (16 * m + n)"] r by auto
    next
      case False
      then have "case bs of h # l # r \<Rightarrow> hex_value h = None \<or> hex_value l = None | _ \<Rightarrow> True"
        by (auto split: list.split)
      moreover have "percent_decode (drop i input) = None"
        using False esc by (auto simp: xs split: list.split option.split)
      ultimately show ?thesis
        using decode_loop_bad_escape [of i input bs] xs esc by (simp add: decoded_at_def)
    qed
  qed
qed

lemma decode_url_encoded_eq:
  assumes "length out = 128"
  shows "\<exists>r out'. decode_url_encoded input out = Ret (r, out') \<and>
    result_ok r =
      (case percent_decode input of
         Some d \<Rightarrow> if length d \<le> 128 \<and> utf8_valid d then Some (of_bytes d) else None
       | None \<Rightarrow> None)"
proof (cases "percent_decode input")
  case None
  then show ?thesis
    using decode_loop_result [of 0 out 0 input] by (auto simp: decode_url_encoded_def decoded_at_def)
next
  case (Some d)
  show ?thesis
  proof (cases "length d \<le> 128")
    case True
    have "take (length d) (splice_at 0 d out) = d"
      using True assms by (simp add: splice_at_def)
    then show ?thesis
      using decode_loop_result [of 0 out 0 input] Some True assms
      by (simp add: decode_url_encoded_def decoded_at_def slice_def from_utf8_def
          splice_at_facts(1) [OF refl])
  next
    case False
    then show ?thesis
      using decode_loop_result [of 0 out 0 input] Some assms
      by (auto simp: decode_url_encoded_def decoded_at_def)
  qed
qed

lemma of_bytes_eq_iff: "of_bytes d = s \<longleftrightarrow> d = as_bytes s"
  by (metis as_bytes_of_bytes of_bytes_as_bytes)

text \<open>Decoding a percent-encoded body into the 128-byte buffer never reads or writes out of
  range, and it succeeds with the text \<open>s\<close> exactly when the reference decoder gives the bytes of
  \<open>s\<close>, they fit the buffer and they are UTF-8.\<close>

theorem decode_url_encoded_outcome:
  assumes "length out = 128"
  shows "\<exists>r out'. decode_url_encoded input out = Ret (r, out') \<and>
    (\<forall>s. r = Ok s \<longleftrightarrow>
       percent_decode input = Some (as_bytes s) \<and> length s \<le> 128 \<and> utf8_valid (as_bytes s))"
proof -
  obtain r out' where r: "decode_url_encoded input out = Ret (r, out')"
    and ok: "result_ok r =
      (case percent_decode input of
         Some d \<Rightarrow> if length d \<le> 128 \<and> utf8_valid d then Some (of_bytes d) else None
       | None \<Rightarrow> None)"
    using decode_url_encoded_eq [OF assms] by blast
  have "r = Ok s \<longleftrightarrow> result_ok r = Some s" for s
    by (cases r) auto
  then have "r = Ok s \<longleftrightarrow>
      percent_decode input = Some (as_bytes s) \<and> length s \<le> 128 \<and> utf8_valid (as_bytes s)" for s
    by (auto simp: ok of_bytes_eq_iff split: option.split)
  with r show ?thesis by blast
qed

theorem decode_url_encoded_outcome_witness:
  "\<exists>r out'. decode_url_encoded (as_bytes ''a%2Fb+c'') (replicate 128 0) = Ret (r, out') \<and>
    (\<forall>s. r = Ok s \<longleftrightarrow>
       percent_decode (as_bytes ''a%2Fb+c'') = Some (as_bytes s) \<and> length s \<le> 128 \<and>
       utf8_valid (as_bytes s))"
  by (rule decode_url_encoded_outcome) simp

section \<open>The form a browser submits\<close>

text \<open>The encoding of \<open>application/x-www-form-urlencoded\<close>, and the fields of the portal's form in
  their order on the page, with what the user typed.\<close>

definition form_plain :: "u8 \<Rightarrow> bool" where
  "form_plain b \<longleftrightarrow>
     (byte (CHR ''0'') \<le> b \<and> b \<le> byte (CHR ''9'')) \<or>
     (byte (CHR ''A'') \<le> b \<and> b \<le> byte (CHR ''Z'')) \<or>
     (byte (CHR ''a'') \<le> b \<and> b \<le> byte (CHR ''z'')) \<or>
     b \<in> {byte (CHR ''*''), byte (CHR ''-''), byte (CHR ''.''), byte (CHR ''_'')}"

definition form_encode_byte :: "u8 \<Rightarrow> u8 list" where
  "form_encode_byte b =
     (if form_plain b then [b]
      else if b = byte (CHR '' '') then [byte (CHR ''+'')]
      else as_bytes (CHR ''%'' # fmt_02x True b))"

definition form_encode :: "str \<Rightarrow> u8 list" where
  "form_encode s = concat (map form_encode_byte (as_bytes s))"

definition form_body :: "str \<Rightarrow> str \<Rightarrow> str \<Rightarrow> str \<Rightarrow> nat \<Rightarrow> u8 list" where
  "form_body ssid manual password host port =
     as_bytes ''ssid='' @ form_encode ssid @
     as_bytes ''&ssid_manual='' @ form_encode manual @
     as_bytes ''&password='' @ form_encode password @
     as_bytes ''&mqtt_host='' @ form_encode host @
     as_bytes ''&mqtt_port='' @ as_bytes (fmt_dec port)"

text \<open>The same body once decoded.\<close>

definition form_text :: "str \<Rightarrow> str \<Rightarrow> str \<Rightarrow> str \<Rightarrow> nat \<Rightarrow> str" where
  "form_text ssid manual password host port =
     ''ssid='' @ ssid @ ''&ssid_manual='' @ manual @ ''&password='' @ password @
     ''&mqtt_host='' @ host @ ''&mqtt_port='' @ fmt_dec port"

text \<open>The two calls of \<open>handle_http_request\<close> (\<open>src/net.rs\<close>) that read the body of
  \<open>POST /connect\<close>.\<close>

definition form_of_body :: "u8 list \<Rightarrow> u8 list \<Rightarrow> connect_form option exec" where
  "form_of_body body dec_buf =
     bind_exec (decode_url_encoded body dec_buf) (\<lambda>(r, buf).
       Ret (case result_ok r of None \<Rightarrow> None | Some d \<Rightarrow> result_ok (parse_connect_form d)))"

lemma hex_value_hex_digit:
  assumes "n < 16"
  shows "hex_value (of_char (hex_digit u n)) = Some n"
proof (cases "n < 10")
  case False
  then have "hex_digit u n = char_of ((if u then 55 else 87) + n)"
    by (simp add: hex_digit_def)
  with False assms show ?thesis
    by (cases u) (auto simp: hex_value_def Let_def)
qed (simp add: hex_digit_def hex_value_def Let_def)

lemma form_encode_byte_no_percent:
  "form_plain b \<Longrightarrow> b \<noteq> byte (CHR ''%'') \<and> b \<noteq> byte (CHR ''+'')"
  by (auto simp: form_plain_def of_char_def)

lemma percent_decode_encode_byte:
  "percent_decode (form_encode_byte b @ ys) = map_option ((#) b) (percent_decode ys)"
proof -
  have "unat b div 16 < 16"
    using unat_u8_less [of b] by simp
  then have esc: "percent_decode (as_bytes (CHR ''%'' # fmt_02x True b) @ ys) =
      map_option ((#) (of_nat (16 * (unat b div 16) + unat b mod 16))) (percent_decode ys)"
    by (simp add: fmt_02x_def hex_value_hex_digit del: mult_div_mod_eq of_nat_add of_nat_mult)
  show ?thesis
    using form_encode_byte_no_percent [of b] esc by (auto simp: form_encode_byte_def)
qed

lemma percent_decode_encode:
  "percent_decode (form_encode s @ ys) = map_option ((@) (as_bytes s)) (percent_decode ys)"
proof (induction s)
  case Nil
  then show ?case
    by (simp add: form_encode_def option.map_ident)
next
  case (Cons c s)
  then show ?case
    by (simp add: form_encode_def percent_decode_encode_byte option.map_comp comp_def)
qed

lemma byte_inject: "byte c = byte d \<longleftrightarrow> c = d"
  using as_bytes_inject [of "[c]" "[d]"] by simp

text \<open>A literal without escapes decodes to itself.\<close>

lemma percent_decode_plain:
  "CHR ''%'' \<notin> set s \<Longrightarrow> CHR ''+'' \<notin> set s \<Longrightarrow>
     percent_decode (as_bytes s @ ys) = map_option ((@) (as_bytes s)) (percent_decode ys)"
proof (induction s)
  case Nil
  then show ?case
    by (simp add: option.map_ident)
next
  case (Cons c s)
  have "byte c \<noteq> byte (CHR ''%'')" "byte c \<noteq> byte (CHR ''+'')"
    using Cons.prems by (simp_all only: byte_inject list.set insert_iff de_Morgan_disj) auto
  with Cons show ?case
    by (simp add: option.map_comp comp_def)
qed

lemma fmt_dec_no_escape: "c \<in> set (fmt_dec n) \<Longrightarrow> c \<noteq> CHR ''%'' \<and> c \<noteq> CHR ''+'' \<and> c \<noteq> CHR ''&'' \<and> c \<noteq> CHR ''=''"
  using fmt_dec_digits [of n] by fastforce

lemma percent_decode_form_body:
  "percent_decode (form_body ssid manual password host port) =
     Some (as_bytes (form_text ssid manual password host port))"
proof -
  have port: "percent_decode (as_bytes (fmt_dec port)) = Some (as_bytes (fmt_dec port))"
    using percent_decode_plain [of "fmt_dec port" "[]"] fmt_dec_no_escape by force
  show ?thesis
    unfolding form_body_def form_text_def
    by (simp only: percent_decode_encode percent_decode_plain port option.map as_bytes_append
        append_assoc list.set insert_iff empty_iff char.inject simp_thms)
qed

lemma form_fields:
  assumes "\<forall>v \<in> {ssid, manual, password, host}. CHR ''&'' \<notin> set v"
  shows "split_on (CHR ''&'') (form_text ssid manual password host port) =
    [''ssid='' @ ssid, ''ssid_manual='' @ manual, ''password='' @ password,
     ''mqtt_host='' @ host, ''mqtt_port='' @ fmt_dec port]"
proof -
  have sep: "CHR ''&'' \<notin> set xs \<Longrightarrow> split_on (CHR ''&'') (xs @ (CHR ''&'' # ys)) =
      xs # split_on (CHR ''&'') ys" for xs ys
    by (rule split_on_append_sep)
  have "form_text ssid manual password host port =
      (''ssid='' @ ssid) @ (CHR ''&'' # (''ssid_manual='' @ manual) @ (CHR ''&'' #
      (''password='' @ password) @ (CHR ''&'' # (''mqtt_host='' @ host) @ (CHR ''&'' #
      (''mqtt_port='' @ fmt_dec port)))))"
    by (simp add: form_text_def)
  moreover have "split_on (CHR ''&'') (''mqtt_port='' @ fmt_dec port) =
      [''mqtt_port='' @ fmt_dec port]"
    using fmt_dec_no_escape [of "CHR ''&''" port] by (intro split_on_no_sep) auto
  ultimately show ?thesis
    using assms by (simp only: sep set_append list.set Un_iff insert_iff empty_iff char.inject
        simp_thms ball_simps)
qed

text \<open>A pair \<open>key=value\<close> is cut at its first \<open>=\<close>.\<close>

lemma splitn_pair:
  "CHR ''='' \<notin> set key \<Longrightarrow> splitn 2 (CHR ''='') (key @ CHR ''='' # v) = [key, v]"
  using splitn_append_sep [of "CHR ''=''" key 0 v] by (simp add: numeral_2_eq_2)

lemmas form_pairs =
  splitn_pair [of "''ssid''", simplified] splitn_pair [of "''ssid_manual''", simplified]
  splitn_pair [of "''password''", simplified] splitn_pair [of "''mqtt_host''", simplified]
  splitn_pair [of "''mqtt_port''", simplified]

lemma parse_form_text:
  assumes "\<forall>v \<in> {ssid, manual, password, host}. CHR ''&'' \<notin> set v" "port < 65536"
  shows "parse_connect_form (form_text ssid manual password host port) =
    Ok \<lparr>cf_ssid = ssid, cf_password = password, cf_mqtt_host = host, cf_mqtt_port = of_nat port\<rparr>"
  using assms(2)
  by (simp add: parse_connect_form_def form_fields [OF assms(1)] form_pairs parse_uint_fmt_dec)

lemma utf8_valid_form_text:
  "\<forall>v \<in> {ssid, manual, password, host}. utf8_valid (as_bytes v) \<Longrightarrow>
     utf8_valid (as_bytes (form_text ssid manual password host port))"
proof -
  assume v: "\<forall>v \<in> {ssid, manual, password, host}. utf8_valid (as_bytes v)"
  have "utf8_valid (as_bytes (fmt_dec port))"
  proof (rule utf8_valid_ascii, intro ballI)
    fix b assume "b \<in> set (as_bytes (fmt_dec port))"
    then obtain c where c: "c \<in> set (fmt_dec port)" "b = byte c"
      by (auto simp: as_bytes_def)
    then show "b < 0x80"
      using fmt_dec_digits [of port] by (auto simp: word_less_nat_alt)
  qed
  moreover have "utf8_valid (as_bytes ''ssid='')" "utf8_valid (as_bytes ''&ssid_manual='')"
    "utf8_valid (as_bytes ''&password='')" "utf8_valid (as_bytes ''&mqtt_host='')"
    "utf8_valid (as_bytes ''&mqtt_port='')"
    by code_simp+
  ultimately show ?thesis
    using v unfolding form_text_def as_bytes_append
    by (simp only: utf8_valid_append ball_simps insert_iff empty_iff simp_thms list.set)
qed

lemma form_of_form_body:
  assumes "\<forall>v \<in> {ssid, manual, password, host}. CHR ''&'' \<notin> set v \<and> utf8_valid (as_bytes v)"
    and "port < 65536" "length dec_buf = 128"
  shows "form_of_body (form_body ssid manual password host port) dec_buf =
    Ret (if length (form_text ssid manual password host port) \<le> 128
         then Some \<lparr>cf_ssid = ssid, cf_password = password, cf_mqtt_host = host,
                    cf_mqtt_port = of_nat port\<rparr>
         else None)"
proof -
  have "utf8_valid (as_bytes (form_text ssid manual password host port))"
    using assms(1) by (intro utf8_valid_form_text) blast
  then obtain r out' where "decode_url_encoded (form_body ssid manual password host port) dec_buf =
      Ret (r, out')" "result_ok r = (if length (form_text ssid manual password host port) \<le> 128
        then Some (form_text ssid manual password host port) else None)"
    using decode_url_encoded_eq [OF assms(3), of "form_body ssid manual password host port"]
    by (auto simp: percent_decode_form_body)
  then show ?thesis
    using assms(1,2) by (simp add: form_of_body_def parse_form_text)
qed

text \<open>C28: what a browser submits for the portal's form is read back field by field, from the
  percent-encoded bytes to the \<open>ConnectForm\<close>, when no field contains an ampersand and the decoded
  body fits the 128-byte buffer; the field \<open>ssid_manual\<close> is ignored.\<close>

theorem submitted_form_read_back:
  assumes "\<forall>v \<in> {ssid, manual, password, host}. CHR ''&'' \<notin> set v \<and> utf8_valid (as_bytes v)"
    and "port < 65536"
    and "length (form_text ssid manual password host port) \<le> 128"
    and "length dec_buf = 128"
  shows "form_of_body (form_body ssid manual password host port) dec_buf =
    Ret (Some \<lparr>cf_ssid = ssid, cf_password = password, cf_mqtt_host = host,
               cf_mqtt_port = of_nat port\<rparr>)"
  using form_of_form_body [OF assms(1,2,4)] assms(3) by simp

theorem submitted_form_read_back_witness:
  "form_of_body (form_body ''Cafe 42'' '''' ''p=ss%+wd'' ''10.0.0.7'' 8883) (replicate 128 0) =
    Ret (Some \<lparr>cf_ssid = ''Cafe 42'', cf_password = ''p=ss%+wd'', cf_mqtt_host = ''10.0.0.7'',
               cf_mqtt_port = of_nat 8883\<rparr>)"
proof (rule submitted_form_read_back)
  have "utf8_valid (as_bytes ''Cafe 42'')" "utf8_valid (as_bytes ''p=ss%+wd'')"
    "utf8_valid (as_bytes ''10.0.0.7'')"
    by simp_all
  then show "\<forall>v \<in> {''Cafe 42'', '''', ''p=ss%+wd'', ''10.0.0.7''}.
      CHR ''&'' \<notin> set v \<and> utf8_valid (as_bytes v)"
    by (simp only: ball_simps insert_iff empty_iff list.set char.inject simp_thms as_bytes_Nil
        utf8_valid.simps)
  show "length (form_text ''Cafe 42'' '''' ''p=ss%+wd'' ''10.0.0.7'' 8883) \<le> 128"
    by (simp add: form_text_def fmt_dec.simps)
qed simp_all

text \<open>The buffer of 128 bytes refuses credentials the device could store: with the names of the
  fields, a form whose text is longer gives no credentials at all.\<close>

theorem long_form_refused:
  assumes "\<forall>v \<in> {ssid, manual, password, host}. CHR ''&'' \<notin> set v \<and> utf8_valid (as_bytes v)"
    and "port < 65536" "length dec_buf = 128"
    and "128 < length (form_text ssid manual password host port)"
  shows "form_of_body (form_body ssid manual password host port) dec_buf = Ret None"
  using form_of_form_body [OF assms(1-3)] assms(4) by simp

text \<open>A name of 24 bytes and a password of 51, within the 32 and 64 the flash record has room for.\<close>

theorem long_form_refused_witness:
  "form_of_body (form_body (replicate 24 (CHR ''a'')) '''' (replicate 51 (CHR ''b'')) '''' 1883)
     (replicate 128 0) = Ret None"
proof (rule long_form_refused)
  have "utf8_valid (as_bytes (replicate n c))" if "c \<in> {CHR ''a'', CHR ''b''}" for n c
    using that by (intro utf8_valid_ascii) (auto simp: as_bytes_def)
  then show "\<forall>v \<in> {replicate 24 (CHR ''a''), '''', replicate 51 (CHR ''b''), ''''}.
      CHR ''&'' \<notin> set v \<and> utf8_valid (as_bytes v)"
    by simp
  show "128 < length (form_text (replicate 24 (CHR ''a'')) '''' (replicate 51 (CHR ''b'')) '''' 1883)"
    by (simp add: form_text_def fmt_dec.simps)
qed simp_all

text \<open>The pairs are cut after the escapes are gone, so an ampersand typed in the password, which a
  browser sends as \<open>%26\<close>, ends it.\<close>

lemma ampersand_cuts_password:
  "form_of_body (form_body ''home'' '''' ''ab&cd'' '''' 1883) (replicate 128 0) =
     Ret (Some \<lparr>cf_ssid = ''home'', cf_password = ''ab'', cf_mqtt_host = '''', cf_mqtt_port = 1883\<rparr>)"
proof -
  let ?body = "form_body ''home'' '''' ''ab&cd'' '''' 1883"
  have decoded: "form_text ''home'' '''' ''ab&cd'' '''' 1883 =
      ''ssid=home&ssid_manual=&password=ab&cd&mqtt_host=&mqtt_port=1883''"
    unfolding form_text_def by code_simp
  have body: "percent_decode ?body =
      Some (as_bytes ''ssid=home&ssid_manual=&password=ab&cd&mqtt_host=&mqtt_port=1883'')"
    by (simp only: percent_decode_form_body decoded)
  have valid: "utf8_valid (as_bytes ''ssid=home&ssid_manual=&password=ab&cd&mqtt_host=&mqtt_port=1883'')"
    by simp
  have parse: "parse_connect_form ''ssid=home&ssid_manual=&password=ab&cd&mqtt_host=&mqtt_port=1883'' =
      Ok \<lparr>cf_ssid = ''home'', cf_password = ''ab'', cf_mqtt_host = '''', cf_mqtt_port = 1883\<rparr>"
    by (simp add: parse_connect_form_def numeral_2_eq_2 parse_uint_def ascii_digit_def)
  obtain r out' where "decode_url_encoded ?body (replicate 128 0) = Ret (r, out')"
    "result_ok r = Some ''ssid=home&ssid_manual=&password=ab&cd&mqtt_host=&mqtt_port=1883''"
    using decode_url_encoded_eq [of "replicate 128 0" ?body]
    by (simp only: body option.case valid of_bytes_as_bytes length_replicate length_as_bytes) auto
  then show ?thesis
    by (simp only: form_of_body_def bind_exec.simps case_prod_conv option.case parse result_ok.simps)
qed

section \<open>Request lines and the network name\<close>

lemma strip_suffix_append [simp]: "strip_suffix s (xs @ s) = Some xs"
  by (simp add: strip_suffix_def)

lemma strip_suffix_last: "strip_suffix s xs = Some ys \<Longrightarrow> xs = ys @ s"
  by (auto simp: strip_suffix_def split: if_splits) (metis append_take_drop_id)

lemma strip_suffix_other: "c \<noteq> d \<Longrightarrow> strip_suffix (s @ [d]) (xs @ [c]) = None"
  using strip_suffix_last [of "s @ [d]" "xs @ [c]"]
  by (cases "strip_suffix (s @ [d]) (xs @ [c])") auto

lemma strip_line_end:
  assumes "b \<noteq> x" "b \<noteq> y" "eol \<in> {[], [y], [x, y]}" "x \<noteq> y"
  shows "unwrap_or (ws @ b # eol)
    (case strip_suffix [x, y] (ws @ b # eol) of
       Some l \<Rightarrow> Some l | None \<Rightarrow> strip_suffix [y] (ws @ b # eol)) = ws @ [b]"
proof -
  have "strip_suffix [x, y] (ws @ [b]) = None" "strip_suffix [y] (ws @ [b]) = None"
    using strip_suffix_other [OF assms(2), of "[x]" ws] strip_suffix_other [OF assms(2), of "[]" ws]
    by simp_all
  moreover have "strip_suffix [x, y] (ws @ [b, y]) = None"
    using strip_suffix_last [of "[x, y]" "ws @ [b, y]"] assms(1)
    by (cases "strip_suffix [x, y] (ws @ [b, y])") auto
  moreover have "strip_suffix [y] (ws @ [b, y]) = Some (ws @ [b])"
    "strip_suffix [x, y] (ws @ [b, x, y]) = Some (ws @ [b])"
    using strip_suffix_append [of "[y]" "ws @ [b]"] strip_suffix_append [of "[x, y]" "ws @ [b]"]
    by simp_all
  ultimately show ?thesis
    using assms(3) by auto
qed

text \<open>A request line of three words
  separated by single blanks is accepted with its path when
  the method is \<open>GET\<close> or \<open>POST\<close>, and refused with \<open>UnknownMethod\<close> otherwise, whether it ends in
  CR LF, in LF or in neither.\<close>

theorem parse_request_line_words:
  assumes "CHR '' '' \<notin> set method_str" "CHR '' '' \<notin> set path"
    and "utf8_valid (as_bytes (method_str @ '' '' @ path @ '' '' @ version))"
    and "version \<noteq> ''''" "last version \<noteq> CHR 0x0A" "last version \<noteq> CHR 0x0D"
    and "eol \<in> {'''', [CHR 0x0A], [CHR 0x0D, CHR 0x0A]}"
  shows "parse_request_line (as_bytes (method_str @ '' '' @ path @ '' '' @ version @ eol)) =
    (if method_str = ''GET'' then Ok \<lparr>rl_method = Get, rl_path = path\<rparr>
     else if method_str = ''POST'' then Ok \<lparr>rl_method = Post, rl_path = path\<rparr>
     else Err UnknownMethod)"
proof -
  let ?text = "method_str @ '' '' @ path @ '' '' @ version"
  let ?crlf = "as_bytes [CHR 0x0D, CHR 0x0A]" and ?lf = "as_bytes [CHR 0x0A]"
  obtain v c where v: "version = v @ [c]" "c \<noteq> CHR 0x0A" "c \<noteq> CHR 0x0D"
    using assms(4-6) by (metis append_butlast_last_id)
  have line: "unwrap_or (as_bytes (?text @ eol))
      (case strip_suffix ?crlf (as_bytes (?text @ eol)) of
         Some l \<Rightarrow> Some l | None \<Rightarrow> strip_suffix ?lf (as_bytes (?text @ eol))) = as_bytes ?text"
  proof -
    obtain ws where ws: "as_bytes ?text = ws @ [byte c]"
      by (simp add: v flip: append_assoc append_Cons)
    have ne: "byte c \<noteq> byte (CHR 0x0D)" "byte c \<noteq> byte (CHR 0x0A)"
      unfolding byte_inject by (fact v)+
    have "as_bytes eol \<in> {[], ?lf, ?crlf}"
      using assms(7) by auto
    then show ?thesis
      using strip_line_end [OF ne, of "as_bytes eol" ws] byte_inject [of "CHR 0x0D" "CHR 0x0A"]
      unfolding as_bytes_append [of ?text eol] ws
      by (simp only: as_bytes_Cons as_bytes_Nil append_assoc append_Cons append_Nil) simp
  qed
  have words: "splitn 3 (CHR '' '') ?text = [method_str, path, version]"
    using splitn_append_sep [OF assms(1), of 1 "path @ '' '' @ version"]
      splitn_append_sep [OF assms(2), of 0 version] by (simp add: numeral_3_eq_3)
  have "as_bytes (method_str @ '' '' @ path @ '' '' @ version @ eol) = as_bytes (?text @ eol)"
    by simp
  then show ?thesis
    unfolding parse_request_line_def Let_def using assms(3)
    by (simp only: line from_utf8_as_bytes words result.case list.case) simp
qed

theorem parse_request_line_words_witness:
  "parse_request_line (as_bytes (''POST'' @ '' '' @ ''/connect'' @ '' '' @ ''HTTP/1.1'' @
     [CHR 0x0D, CHR 0x0A])) = Ok \<lparr>rl_method = Post, rl_path = ''/connect''\<rparr>"
proof -
  have "utf8_valid (as_bytes (''POST'' @ '' '' @ ''/connect'' @ '' '' @ ''HTTP/1.1''))"
    by code_simp
  then show ?thesis
    using parse_request_line_words [of "''POST''" "''/connect''" "''HTTP/1.1''" "[CHR 0x0D, CHR 0x0A]"]
    by simp
qed

lemma make_ap_ssid_eq:
  "heapless_ok hl \<Longrightarrow>
     make_ap_ssid hl mac = ''pico-setup-'' @ fmt_02x True (mac ! 4) @ fmt_02x True (mac ! 5)"
  by (simp add: make_ap_ssid_def write_pieces_fits del: write_pieces.simps)

end
