(* ===== verification/Board.thy ===== *)
theory Board
  imports Prelude
begin

text \<open>
  \<open>src/board.rs\<close>: the constants of the two boards, selected by the cargo features \<open>pico2w\<close> and
  \<open>pico1w\<close>, of which the datatype \<open>board\<close> is the choice, and the check of the chip at start.
\<close>

datatype board = Pico2w | Pico1w

fun FLASH_SIZE :: "board \<Rightarrow> nat" where
  "FLASH_SIZE Pico2w = 4 * 1024 * 1024"
| "FLASH_SIZE Pico1w = 2 * 1024 * 1024"

definition CRED_REGION_SIZE :: nat where
  "CRED_REGION_SIZE = 8 * 1024"

definition CRED_FLASH_OFFSET :: "board \<Rightarrow> u32" where
  "CRED_FLASH_OFFSET b = of_nat (FLASH_SIZE b - CRED_REGION_SIZE)"

definition TCP_PORT :: u16 where "TCP_PORT = 4242"
definition WS_PORT :: u16 where "WS_PORT = 4243"
definition TCP_RX_BUF_SIZE :: nat where "TCP_RX_BUF_SIZE = 2048"
definition TCP_TX_BUF_SIZE :: nat where "TCP_TX_BUF_SIZE = 2048"
definition TCP_NODELAY :: bool where "TCP_NODELAY = True"

text \<open>The bits of the fixed-point divider, eight of them after the point.\<close>

fun CYW43_CLOCK_DIVIDER :: "board \<Rightarrow> u32" where
  "CYW43_CLOCK_DIVIDER Pico2w = 0x0180"
| "CYW43_CLOCK_DIVIDER Pico1w = 0x0140"

fun EXPECTED_CHIP_PART :: "board \<Rightarrow> u16" where
  "EXPECTED_CHIP_PART Pico2w = 0x4"
| "EXPECTED_CHIP_PART Pico1w = 0x2"

definition validate_chip_part :: "board \<Rightarrow> u16 \<Rightarrow> (unit, str) result" where
  "validate_chip_part b actual_part =
     (if actual_part = EXPECTED_CHIP_PART b then Ok ()
      else Err ''platform mismatch: firmware built for wrong chip'')"

text \<open>The sector of the credentials lies inside the flash and starts at a sector boundary.\<close>

lemma cred_sector_in_flash:
  "unat (CRED_FLASH_OFFSET b) + 4096 \<le> FLASH_SIZE b"
  "unat (CRED_FLASH_OFFSET b) mod 4096 = 0"
  by (cases b; simp add: CRED_FLASH_OFFSET_def CRED_REGION_SIZE_def)+

lemma firmware_runs_on_one_chip:
  "validate_chip_part b part = Ok () \<Longrightarrow> validate_chip_part b' part = Ok () \<Longrightarrow> b = b'"
  by (cases b; cases b') (auto simp: validate_chip_part_def split: if_splits)

end
