(* ===== verification/Led.thy ===== *)
theory Led
  imports Prelude
begin

text \<open>
  \<open>src/led.rs\<close> and the task \<open>led_task\<close> of \<open>src/net.rs\<close>: the states of the status LED, their
  blink patterns, and what the task does with the LED between two signals.
\<close>

section \<open>Patterns (led.rs)\<close>

type_synonym led_step = "bool \<times> u16"

definition BOOTING_STEPS :: "led_step list" where
  "BOOTING_STEPS =
     [(True, 100), (False, 100), (True, 100), (False, 100), (True, 100), (False, 100),
      (False, 1000)]"

definition PROVISIONING_STEPS :: "led_step list" where
  "PROVISIONING_STEPS = [(True, 1000), (False, 1000)]"

definition SCANNING_STEPS :: "led_step list" where
  "SCANNING_STEPS = [(True, 100), (False, 100), (True, 100), (False, 100), (False, 700)]"

definition CONNECTING_STEPS :: "led_step list" where
  "CONNECTING_STEPS = [(True, 100), (False, 100)]"

definition RECONNECTING_STEPS :: "led_step list" where
  "RECONNECTING_STEPS = [(True, 250), (False, 250)]"

definition MQTT_CONNECTING_STEPS :: "led_step list" where
  "MQTT_CONNECTING_STEPS =
     [(True, 80), (False, 80), (True, 80), (False, 80), (True, 80), (False, 80), (False, 500)]"

definition SAVING_STEPS :: "led_step list" where
  "SAVING_STEPS =
     [(True, 100), (False, 100), (True, 100), (False, 100), (True, 100), (False, 100),
      (True, 100), (False, 100), (True, 100), (False, 100)]"

definition REBOOTING_STEPS :: "led_step list" where
  "REBOOTING_STEPS =
     [(True, 50), (False, 50), (True, 50), (False, 50), (True, 50), (False, 50),
      (True, 50), (False, 50), (True, 50), (False, 50), (True, 50), (False, 50),
      (True, 50), (False, 50), (True, 50), (False, 50), (True, 50), (False, 50),
      (True, 50), (False, 50)]"

definition SOS_TIMING :: "led_step list" where
  "SOS_TIMING =
     [(True, 100), (False, 100), (True, 100), (False, 100), (True, 100), (False, 300),
      (True, 300), (False, 100), (True, 300), (False, 100), (True, 300), (False, 300),
      (True, 100), (False, 100), (True, 100), (False, 100), (True, 100), (False, 2000)]"

datatype led_pattern = Solid bool | Repeat "led_step list" | OneShot "led_step list"

datatype led_state =
    Booting
  | Provisioning
  | Scanning
  | Connecting
  | Connected
  | Reconnecting
  | Error
  | Saving
  | Rebooting
  | MqttConnecting
  | MqttConnected

fun pattern :: "led_state \<Rightarrow> led_pattern" where
  "pattern Booting = Repeat BOOTING_STEPS"
| "pattern Provisioning = Repeat PROVISIONING_STEPS"
| "pattern Scanning = Repeat SCANNING_STEPS"
| "pattern Connecting = Repeat CONNECTING_STEPS"
| "pattern Connected = Solid True"
| "pattern MqttConnected = Solid True"
| "pattern Reconnecting = Repeat RECONNECTING_STEPS"
| "pattern Error = Repeat SOS_TIMING"
| "pattern Saving = OneShot SAVING_STEPS"
| "pattern Rebooting = OneShot REBOOTING_STEPS"
| "pattern MqttConnecting = Repeat MQTT_CONNECTING_STEPS"

section \<open>The task (net.rs)\<close>

datatype led_event = SetLed bool | WaitMs nat

definition play_steps :: "led_step list \<Rightarrow> led_event list" where
  "play_steps steps = concat (map (\<lambda>(on, ms). [SetLed on, WaitMs (unat ms)]) steps)"

text \<open>
  What \<open>led_task\<close> does from one signal to the next. The inner loop of a repeated pattern looks for
  a new signal after each round; \<open>more\<close> counts the rounds after which it finds none.
\<close>

fun repeat_steps :: "nat \<Rightarrow> led_step list \<Rightarrow> led_event list" where
  "repeat_steps 0 steps = play_steps steps"
| "repeat_steps (Suc more_rounds) steps = play_steps steps @ repeat_steps more_rounds steps"

fun led_round :: "nat \<Rightarrow> led_state \<Rightarrow> led_event list" where
  "led_round more_rounds st =
     (case pattern st of
        Solid on \<Rightarrow> [SetLed on]
      | OneShot steps \<Rightarrow> play_steps steps @ [SetLed False]
      | Repeat steps \<Rightarrow> repeat_steps more_rounds steps)"

definition led_task :: "(led_state \<times> nat) list \<Rightarrow> led_event list" where
  "led_task signals = concat (map (\<lambda>(st, n). led_round n st) signals)"

text \<open>The level the events leave the LED at, and the time they take.\<close>

fun led_level :: "bool \<Rightarrow> led_event list \<Rightarrow> bool" where
  "led_level on [] = on"
| "led_level on (SetLed b # es) = led_level b es"
| "led_level on (WaitMs n # es) = led_level on es"

fun led_time :: "led_event list \<Rightarrow> nat" where
  "led_time [] = 0"
| "led_time (SetLed b # es) = led_time es"
| "led_time (WaitMs n # es) = n + led_time es"

lemmas step_tables = BOOTING_STEPS_def PROVISIONING_STEPS_def SCANNING_STEPS_def
  CONNECTING_STEPS_def RECONNECTING_STEPS_def MQTT_CONNECTING_STEPS_def SAVING_STEPS_def
  REBOOTING_STEPS_def SOS_TIMING_def

lemma led_time_append [simp]: "led_time (es @ fs) = led_time es + led_time fs"
  by (induction es rule: led_time.induct) simp_all

lemma led_level_append [simp]: "led_level on (es @ fs) = led_level (led_level on es) fs"
  by (induction on es rule: led_level.induct) simp_all

lemma play_steps_Cons [simp]:
  "play_steps [] = []" "play_steps ((on, ms) # steps) = SetLed on # WaitMs (unat ms) # play_steps steps"
  by (simp_all add: play_steps_def)

lemma play_steps_time: "led_time (play_steps steps) = (\<Sum>(on, ms) \<leftarrow> steps. unat ms)"
  by (induction steps) auto

lemma play_steps_level: "steps \<noteq> [] \<Longrightarrow> led_level on (play_steps steps) = fst (last steps)"
proof (induction steps arbitrary: on)
  case (Cons s steps)
  then show ?case
    by (cases s; cases steps) auto
qed simp

lemma repeat_steps_time: "led_time (repeat_steps n steps) = Suc n * led_time (play_steps steps)"
  by (induction n) simp_all

lemma repeat_steps_level:
  "steps \<noteq> [] \<Longrightarrow> led_level on (repeat_steps n steps) = fst (last steps)"
  by (induction n arbitrary: on) (simp_all add: play_steps_level)

text \<open>The milliseconds a state's pattern takes to play once.\<close>

fun pattern_ms :: "led_state \<Rightarrow> nat" where
  "pattern_ms st =
     (case pattern st of
        Solid on \<Rightarrow> 0
      | OneShot steps \<Rightarrow> led_time (play_steps steps)
      | Repeat steps \<Rightarrow> led_time (play_steps steps))"

text \<open>Whatever signals arrive, the task leaves the LED on after the two connected states and
  off after every other one, and a state that repeats takes a whole number of its rounds.\<close>

theorem led_task_level:
  "led_level on (led_task (signals @ [(st, n)])) = (st = Connected \<or> st = MqttConnected) \<and>
   led_time (led_round n st) =
     (case pattern st of Repeat steps \<Rightarrow> Suc n * pattern_ms st | _ \<Rightarrow> pattern_ms st)"
  by (cases st)
    (simp_all add: led_task_def repeat_steps_level repeat_steps_time play_steps_level step_tables)

text \<open>The pattern of a reboot takes a second; the command loop resets the chip 650 ms after the
  signal.\<close>

lemma rebooting_ms: "pattern_ms Rebooting = 1000"
  by (simp add: step_tables)

end
