(* ===== verification/Flash.thy ===== *)
theory Flash
  imports Portal Board Led
begin

text \<open>
  The credential record of \<open>src/net.rs\<close> (\<open>load_credentials_flash\<close>, \<open>save_credentials_flash\<close>,
  \<open>erase_credentials_flash\<close>), the factory-reset check at power-on and the decision \<open>start\<close> takes
  from both. The flash driver belongs to the crate \<open>embassy_rp\<close>: its operations are an argument,
  and \<open>nor_flash_ok\<close> states what \<open>embedded_storage\<close> documents of them.
\<close>

section \<open>The flash driver\<close>

text \<open>An offset is a byte address; \<open>read\<close> fills the buffer it is given.\<close>

record 'f nor_flash =
  fl_read :: "u32 \<Rightarrow> u8 list \<Rightarrow> 'f \<Rightarrow> (unit, unit) result \<times> u8 list \<times> 'f"
  fl_erase :: "u32 \<Rightarrow> u32 \<Rightarrow> 'f \<Rightarrow> (unit, unit) result \<times> 'f"
  fl_write :: "u32 \<Rightarrow> u8 list \<Rightarrow> 'f \<Rightarrow> (unit, unit) result \<times> 'f"

text \<open>
  With \<open>mem f\<close> the contents: a read keeps the size of the buffer and the contents and, when it
  succeeds, copies them; an erase that succeeds sets its range to \<open>0xFF\<close>, a write that succeeds
  to an erased range leaves the data there, and neither touches another byte.
\<close>

definition nor_flash_ok :: "'f nor_flash \<Rightarrow> ('f \<Rightarrow> nat \<Rightarrow> u8) \<Rightarrow> bool" where
  "nor_flash_ok fl mem \<longleftrightarrow>
     (\<forall>off buf f r buf' f'. fl_read fl off buf f = (r, buf', f') \<longrightarrow>
        length buf' = length buf \<and> mem f' = mem f \<and>
        (r = Ok () \<longrightarrow> buf' = map (\<lambda>i. mem f (unat off + i)) [0..<length buf])) \<and>
     (\<forall>a b f f'. fl_erase fl a b f = (Ok (), f') \<longrightarrow>
        mem f' = (\<lambda>i. if unat a \<le> i \<and> i < unat b then 0xFF else mem f i)) \<and>
     (\<forall>off bs f f'. fl_write fl off bs f = (Ok (), f') \<longrightarrow>
        (\<forall>i < length bs. mem f (unat off + i) = 0xFF) \<longrightarrow>
        mem f' = (\<lambda>i. if unat off \<le> i \<and> i < unat off + length bs then bs ! (i - unat off)
                     else mem f i))"

section \<open>The credential record\<close>

definition CRED_MAGIC :: u32 where "CRED_MAGIC = 0xC0FFEE43"
definition CRED_RECORD_SIZE :: nat where "CRED_RECORD_SIZE = 169"

definition u32_from_le_bytes :: "u8 \<Rightarrow> u8 \<Rightarrow> u8 \<Rightarrow> u8 \<Rightarrow> u32" where
  "u32_from_le_bytes a b c d =
     ucast a OR push_bit 8 (ucast b) OR push_bit 16 (ucast c) OR push_bit 24 (ucast d)"

definition u32_to_le_bytes :: "u32 \<Rightarrow> u8 list" where
  "u32_to_le_bytes w = [ucast w, ucast (drop_bit 8 w), ucast (drop_bit 16 w), ucast (drop_bit 24 w)]"

definition u16_from_le_bytes :: "u8 \<Rightarrow> u8 \<Rightarrow> u16" where
  "u16_from_le_bytes a b = ucast a OR push_bit 8 (ucast b)"

definition u16_to_le_bytes :: "u16 \<Rightarrow> u8 list" where
  "u16_to_le_bytes w = [ucast w, ucast (drop_bit 8 w)]"

text \<open>The checked accesses to the record, each of which panics out of range.\<close>

definition utf8_field :: "u8 list \<Rightarrow> nat \<Rightarrow> nat \<Rightarrow> str option exec" where
  "utf8_field buf off len = bind_exec (slice buf off (off + len)) (\<lambda>bs. Ret (result_ok (from_utf8 bs)))"

definition record_credentials :: "heapless \<Rightarrow> u8 list \<Rightarrow> credentials option exec" where
  "record_credentials hl buf =
     bind_exec (slice buf 0 4) (\<lambda>m.
     if u32_from_le_bytes (m ! 0) (m ! 1) (m ! 2) (m ! 3) \<noteq> CRED_MAGIC then Ret None
     else
     bind_exec (get_at buf 4) (\<lambda>b4. bind_exec (get_at buf 5) (\<lambda>b5.
     let ssid_len = unat b4; pwd_len = unat b5 in
     if ssid_len > 32 \<or> pwd_len > 64 then Ret None
     else
     bind_exec (utf8_field buf 6 ssid_len) (\<lambda>s. case s of None \<Rightarrow> Ret None | Some ssid \<Rightarrow>
     bind_exec (utf8_field buf 38 pwd_len) (\<lambda>p. case p of None \<Rightarrow> Ret None | Some pwd \<Rightarrow>
     bind_exec (get_at buf 102) (\<lambda>b102.
     let mqtt_host_len = unat b102 in
     if mqtt_host_len > 64 then Ret None
     else
     bind_exec (utf8_field buf 103 mqtt_host_len) (\<lambda>h. case h of None \<Rightarrow> Ret None | Some mqtt_host \<Rightarrow>
     bind_exec (get_at buf 167) (\<lambda>p0. bind_exec (get_at buf 168) (\<lambda>p1.
       Ret (credentials_with_mqtt hl ssid pwd mqtt_host (u16_from_le_bytes p0 p1)))))))))))"

definition load_credentials_flash ::
  "heapless \<Rightarrow> board \<Rightarrow> 'f nor_flash \<Rightarrow> 'f \<Rightarrow> (credentials option \<times> 'f) exec" where
  "load_credentials_flash hl bd fl f =
     (case fl_read fl (CRED_FLASH_OFFSET bd) (replicate CRED_RECORD_SIZE 0) f of
        (Err _, buf, f') \<Rightarrow> Ret (None, f')
      | (Ok _, buf, f') \<Rightarrow> bind_exec (record_credentials hl buf) (\<lambda>c. Ret (c, f')))"

definition credential_record :: "credentials \<Rightarrow> u8 list exec" where
  "credential_record creds =
     (let ssid_b = as_bytes (cr_ssid creds); pwd_b = as_bytes (cr_password creds);
          mqtt_host_b = as_bytes (cr_mqtt_host creds)
      in
      bind_exec (copy_into (replicate CRED_RECORD_SIZE 0xFF) 0 4 (u32_to_le_bytes CRED_MAGIC)) (\<lambda>buf.
      bind_exec (put_at buf 4 (of_nat (length ssid_b))) (\<lambda>buf.
      bind_exec (put_at buf 5 (of_nat (length pwd_b))) (\<lambda>buf.
      bind_exec (copy_into buf 6 (6 + length ssid_b) ssid_b) (\<lambda>buf.
      bind_exec (copy_into buf 38 (38 + length pwd_b) pwd_b) (\<lambda>buf.
      bind_exec (put_at buf 102 (of_nat (length mqtt_host_b))) (\<lambda>buf.
      bind_exec (copy_into buf 103 (103 + length mqtt_host_b) mqtt_host_b) (\<lambda>buf.
      copy_into buf 167 169 (u16_to_le_bytes (cr_mqtt_port creds))))))))))"

definition save_credentials_flash ::
  "board \<Rightarrow> 'f nor_flash \<Rightarrow> credentials \<Rightarrow> 'f \<Rightarrow> (bool \<times> 'f) exec" where
  "save_credentials_flash bd fl creds f =
     (case fl_erase fl (CRED_FLASH_OFFSET bd) (CRED_FLASH_OFFSET bd + 4096) f of
        (Err _, f') \<Rightarrow> Ret (False, f')
      | (Ok _, f') \<Rightarrow>
          bind_exec (credential_record creds) (\<lambda>buf.
            case fl_write fl (CRED_FLASH_OFFSET bd) buf f' of
              (Ok _, f'') \<Rightarrow> Ret (True, f'')
            | (Err _, f'') \<Rightarrow> Ret (False, f'')))"

definition erase_credentials_flash :: "board \<Rightarrow> 'f nor_flash \<Rightarrow> 'f \<Rightarrow> 'f" where
  "erase_credentials_flash bd fl f =
     snd (fl_erase fl (CRED_FLASH_OFFSET bd) (CRED_FLASH_OFFSET bd + 4096) f)"

section \<open>Factory reset and the start of the firmware\<close>

text \<open>\<open>level t\<close> is the level of GPIO23 \<open>t\<close> milliseconds after it became an input with pull-up.\<close>

lemma unat_held_step: "(h :: u16) < 5000 \<Longrightarrow> unat (h + 100) = unat h + 100"
  by (simp add: unat_word_ariths word_less_nat_alt)

function held_low :: "(nat \<Rightarrow> bool) \<Rightarrow> nat \<Rightarrow> u16 \<Rightarrow> bool" where
  "held_low level t held_ms =
     (if held_ms < 5000 then
        (if level (t + 100) then False else held_low level (t + 100) (held_ms + 100))
      else True)"
  by pat_completeness auto
termination
  by (relation "measure (\<lambda>(level, t, held_ms). 5000 - unat held_ms)") (auto simp: unat_held_step word_less_nat_alt)

declare held_low.simps [simp del]

definition check_factory_reset :: "(nat \<Rightarrow> bool) \<Rightarrow> bool" where
  "check_factory_reset level = (if level 10 then False else held_low level 10 0)"

text \<open>What \<open>start\<close> does after the reset check: \<open>compile_creds\<close> are the two environment
  variables of the build.\<close>

datatype boot_action = BootReset | StaMode credentials | ApMode

definition start ::
  "heapless \<Rightarrow> board \<Rightarrow> 'f nor_flash \<Rightarrow> str option \<Rightarrow> str option \<Rightarrow> (nat \<Rightarrow> bool) \<Rightarrow> 'f \<Rightarrow>
   (boot_action \<times> 'f) exec" where
  "start hl bd fl compile_ssid compile_pass level f =
     (if check_factory_reset level then Ret (BootReset, erase_credentials_flash bd fl f)
      else
        bind_exec
          (case (compile_ssid, compile_pass) of
             (Some ssid, Some pass) \<Rightarrow> Ret (credentials_new hl ssid pass, f)
           | _ \<Rightarrow> load_credentials_flash hl bd fl f)
          (\<lambda>(creds, f').
             case creds of Some c \<Rightarrow> Ret (StaMode c, f') | None \<Rightarrow> Ret (ApMode, f')))"

section \<open>The record, written and read\<close>

definition record_bytes :: "credentials \<Rightarrow> u8 list" where
  "record_bytes c =
     (let s = as_bytes (cr_ssid c); p = as_bytes (cr_password c); h = as_bytes (cr_mqtt_host c) in
      u32_to_le_bytes CRED_MAGIC @ [of_nat (length s), of_nat (length p)] @
      (s @ replicate (32 - length s) 0xFF) @ (p @ replicate (64 - length p) 0xFF) @
      [of_nat (length h)] @ (h @ replicate (64 - length h) 0xFF) @
      u16_to_le_bytes (cr_mqtt_port c))"

lemma length_le_bytes [simp]:
  "length (u32_to_le_bytes w) = 4" "length (u16_to_le_bytes v) = 2"
  by (simp_all add: u32_to_le_bytes_def u16_to_le_bytes_def)

lemma length_record_bytes: "wf_credentials c \<Longrightarrow> length (record_bytes c) = CRED_RECORD_SIZE"
  by (simp add: record_bytes_def CRED_RECORD_SIZE_def wf_credentials_def)

lemma credential_record_eq:
  assumes "wf_credentials c"
  shows "credential_record c = Ret (record_bytes c)"
proof -
  obtain s p h where s: "as_bytes (cr_ssid c) = s" "length s \<le> 32"
    and p: "as_bytes (cr_password c) = p" "length p \<le> 64"
    and h: "as_bytes (cr_mqtt_host c) = h" "length h \<le> 64"
    using assms by (simp add: wf_credentials_def)
  let ?m = "u32_to_le_bytes CRED_MAGIC" and ?FF = "\<lambda>n. replicate n (0xFF :: u8)"
  let ?ls = "of_nat (length s) :: u8" and ?lp = "of_nat (length p) :: u8"
    and ?lh = "of_nat (length h) :: u8"
  have 1: "copy_into (?FF 169) 0 4 ?m = Ret (?m @ ?FF 165)"
    using copy_into_erased [of "[]" 0 ?m 169 "0xFF"] by simp
  have 2: "put_at (?m @ ?FF 165) 4 ?ls = Ret ((?m @ [?ls]) @ ?FF 164)"
    using put_at_erased [of ?m 4 165] by simp
  have 3: "put_at ((?m @ [?ls]) @ ?FF 164) 5 ?lp = Ret ((?m @ [?ls, ?lp]) @ ?FF 163)"
    using put_at_erased [of "?m @ [?ls]" 5 164] by simp
  let ?a = "?m @ [?ls, ?lp] @ s"
  have 4: "copy_into ((?m @ [?ls, ?lp]) @ ?FF 163) 6 (6 + length s) s =
      Ret (?a @ ?FF (163 - length s))"
    using copy_into_erased [of "?m @ [?ls, ?lp]" 6 s 163] s by simp
  let ?b = "?a @ ?FF (32 - length s) @ p"
  have 5: "copy_into (?a @ ?FF (163 - length s)) 38 (38 + length p) p =
      Ret (?b @ ?FF (131 - length p))"
    using copy_into_erased [of ?a 38 p "163 - length s" "0xFF"] s p by simp
  have 6: "put_at (?b @ ?FF (131 - length p)) 102 ?lh =
      Ret ((?b @ ?FF (64 - length p) @ [?lh]) @ ?FF 66)"
    using put_at_erased [of ?b 102 "131 - length p" "0xFF" ?lh] s p by simp
  let ?c = "?b @ ?FF (64 - length p) @ [?lh]"
  have 7: "copy_into (?c @ ?FF 66) 103 (103 + length h) h = Ret ((?c @ h) @ ?FF (66 - length h))"
    using copy_into_erased [of ?c 103 h 66 "0xFF"] s p h by simp
  have 8: "copy_into ((?c @ h) @ ?FF (66 - length h)) 167 169 (u16_to_le_bytes (cr_mqtt_port c)) =
      Ret (record_bytes c)"
    using copy_into_erased [of "?c @ h" 167 "u16_to_le_bytes (cr_mqtt_port c)" "66 - length h" "0xFF"]
      s p h by (simp add: record_bytes_def)
  show ?thesis
    unfolding credential_record_def Let_def CRED_RECORD_SIZE_def s(1) p(1) h(1)
    by (simp only: 1 2 3 4 5 6 7 8 bind_exec.simps)
qed

lemma le_bytes_inverse:
  "u32_from_le_bytes (u32_to_le_bytes CRED_MAGIC ! 0) (u32_to_le_bytes CRED_MAGIC ! 1)
     (u32_to_le_bytes CRED_MAGIC ! 2) (u32_to_le_bytes CRED_MAGIC ! 3) = CRED_MAGIC"
  by code_simp

lemma u16_le_bytes_inverse:
  "u16_from_le_bytes (u16_to_le_bytes w ! 0) (u16_to_le_bytes w ! 1) = w"
  by (rule bit_word_eqI)
    (auto simp: u16_from_le_bytes_def u16_to_le_bytes_def bit_simps numeral_2_eq_2 not_less)

text \<open>The fields of the record as the loader cuts them out.\<close>

lemma utf8_field_at:
  "buf = pre @ xs @ post \<Longrightarrow> length pre = off \<Longrightarrow> len = length xs \<Longrightarrow> utf8_valid xs \<Longrightarrow>
     utf8_field buf off len = Ret (Some (of_bytes xs))"
  by (simp add: utf8_field_def slice_def from_utf8_def)

lemma get_at_append: "buf = pre @ x # post \<Longrightarrow> i = length pre \<Longrightarrow> get_at buf i = Ret x"
  by (simp add: get_at_def)

lemma unat_of_length: "length xs \<le> 64 \<Longrightarrow> unat (of_nat (length xs) :: u8) = length xs"
  by (simp add: unat_of_nat)

lemma record_credentials_record_bytes:
  assumes "heapless_ok hl" "wf_credentials c"
  shows "record_credentials hl (record_bytes c) = Ret (Some c)"
proof -
  obtain s p h where s: "as_bytes (cr_ssid c) = s" "length s \<le> 32" "utf8_valid s"
    and p: "as_bytes (cr_password c) = p" "length p \<le> 64" "utf8_valid p"
    and h: "as_bytes (cr_mqtt_host c) = h" "length h \<le> 64" "utf8_valid h"
    using assms by (simp add: wf_credentials_def)
  have str: "of_bytes s = cr_ssid c" "of_bytes p = cr_password c" "of_bytes h = cr_mqtt_host c"
    by (simp_all flip: s(1) p(1) h(1))
  let ?r = "record_bytes c" and ?m = "u32_to_le_bytes CRED_MAGIC"
    and ?q = "u16_to_le_bytes (cr_mqtt_port c)"
  let ?S = "s @ replicate (32 - length s) 0xFF" and ?P = "p @ replicate (64 - length p) 0xFF"
    and ?H = "h @ replicate (64 - length h) 0xFF"
    and ?ls = "of_nat (length s) :: u8" and ?lp = "of_nat (length p) :: u8"
    and ?lh = "of_nat (length h) :: u8"
  have r: "?r = ?m @ [?ls, ?lp] @ ?S @ ?P @ [?lh] @ ?H @ ?q"
    by (simp add: record_bytes_def s(1) p(1) h(1))
  have q: "?q = [?q ! 0, ?q ! 1]"
    by (simp add: u16_to_le_bytes_def)
  have magic: "slice ?r 0 4 = Ret ?m"
    by (simp add: r slice_def)
  have lens: "get_at ?r 4 = Ret ?ls" "get_at ?r 5 = Ret ?lp" "get_at ?r 102 = Ret ?lh"
    using s p h
    by (auto intro: get_at_append [of _ ?m _ "?lp # ?S @ ?P @ [?lh] @ ?H @ ?q"]
        get_at_append [of _ "?m @ [?ls]" _ "?S @ ?P @ [?lh] @ ?H @ ?q"]
        get_at_append [of _ "?m @ [?ls, ?lp] @ ?S @ ?P" _ "?H @ ?q"] simp: r)
  have port: "get_at ?r 167 = Ret (?q ! 0)" "get_at ?r 168 = Ret (?q ! 1)"
    using s p h q
    by (auto intro: get_at_append [of _ "?m @ [?ls, ?lp] @ ?S @ ?P @ [?lh] @ ?H" _ "[?q ! 1]"]
        get_at_append [of _ "?m @ [?ls, ?lp] @ ?S @ ?P @ [?lh] @ ?H @ [?q ! 0]" _ "[]"] simp: r)
  have fields: "utf8_field ?r 6 (length s) = Ret (Some (cr_ssid c))"
    "utf8_field ?r 38 (length p) = Ret (Some (cr_password c))"
    "utf8_field ?r 103 (length h) = Ret (Some (cr_mqtt_host c))"
    using s p h
      utf8_field_at [of ?r "?m @ [?ls, ?lp]" s "replicate (32 - length s) 0xFF @ ?P @ [?lh] @ ?H @ ?q"]
      utf8_field_at [of ?r "?m @ [?ls, ?lp] @ ?S" p "replicate (64 - length p) 0xFF @ [?lh] @ ?H @ ?q"]
      utf8_field_at [of ?r "?m @ [?ls, ?lp] @ ?S @ ?P @ [?lh]" h
        "replicate (64 - length h) 0xFF @ ?q"]
    by (simp_all add: r str)
  have "credentials_with_mqtt hl (cr_ssid c) (cr_password c) (cr_mqtt_host c) (cr_mqtt_port c) = Some c"
    using assms by (simp add: credentials_with_mqtt_eq wf_credentials_def)
  then show ?thesis
    using s(2) p(2) h(2)
    by (simp add: record_credentials_def magic le_bytes_inverse [unfolded One_nat_def] lens
        port [unfolded One_nat_def] fields unat_of_length u16_le_bytes_inverse [unfolded One_nat_def])
qed

text \<open>Whatever the sector holds, the loader stays in its 169 bytes.\<close>

lemma record_credentials_total:
  assumes "heapless_ok hl" "length buf = CRED_RECORD_SIZE"
  shows "\<exists>c. record_credentials hl buf = Ret c \<and> (\<forall>x. c = Some x \<longrightarrow> wf_credentials x)"
proof -
  have field: "\<exists>o'. utf8_field buf off len = Ret o' \<and>
      (\<forall>t. o' = Some t \<longrightarrow> length t = len \<and> utf8_valid (as_bytes t))"
    if "off + len \<le> 169" for off len
  proof -
    have "slice buf off (off + len) = Ret (take len (drop off buf))"
      "length (take len (drop off buf)) = len"
      using that assms(2) by (simp_all add: slice_def CRED_RECORD_SIZE_def)
    then show ?thesis
      by (simp add: utf8_field_def from_utf8_def)
  qed
  show ?thesis
  proof (cases "unat (buf ! 4) > 32 \<or> unat (buf ! 5) > 64 \<or> unat (buf ! 102) > 64")
    case True
    obtain o1 o2 where "unat (buf ! 4) \<le> 32 \<Longrightarrow> utf8_field buf 6 (unat (buf ! 4)) = Ret o1"
      "unat (buf ! 5) \<le> 64 \<Longrightarrow> utf8_field buf 38 (unat (buf ! 5)) = Ret o2"
      using field [of 6 "unat (buf ! 4)"] field [of 38 "unat (buf ! 5)"] by fastforce
    then show ?thesis
      using assms(2) True
      by (auto simp: record_credentials_def slice_def get_at_def CRED_RECORD_SIZE_def Let_def
          split: option.split)
  next
    case False
    obtain o1 where o1: "utf8_field buf 6 (unat (buf ! 4)) = Ret o1"
      "\<And>t. o1 = Some t \<Longrightarrow> length t = unat (buf ! 4) \<and> utf8_valid (as_bytes t)"
      using field [of 6 "unat (buf ! 4)"] False by auto
    obtain o2 where o2: "utf8_field buf 38 (unat (buf ! 5)) = Ret o2"
      "\<And>t. o2 = Some t \<Longrightarrow> length t = unat (buf ! 5) \<and> utf8_valid (as_bytes t)"
      using field [of 38 "unat (buf ! 5)"] False by auto
    obtain o3 where o3: "utf8_field buf 103 (unat (buf ! 102)) = Ret o3"
      "\<And>t. o3 = Some t \<Longrightarrow> length t = unat (buf ! 102) \<and> utf8_valid (as_bytes t)"
      using field [of 103 "unat (buf ! 102)"] False by auto
    show ?thesis
      using assms False o1 o2 o3
      by (simp add: record_credentials_def slice_def get_at_def CRED_RECORD_SIZE_def Let_def
          credentials_with_mqtt_eq wf_credentials_def split: option.split)
  qed
qed

section \<open>What the driver's contract gives\<close>

lemma nor_flash_okD:
  assumes "nor_flash_ok fl mem"
  shows "fl_read fl off buf f = (r, buf', f') \<Longrightarrow> length buf' = length buf \<and> mem f' = mem f"
    and "fl_read fl off buf f = (Ok (), buf', f') \<Longrightarrow>
           buf' = map (\<lambda>i. mem f (unat off + i)) [0..<length buf]"
    and "fl_erase fl a b f = (Ok (), f') \<Longrightarrow>
           mem f' = (\<lambda>i. if unat a \<le> i \<and> i < unat b then 0xFF else mem f i)"
    and "fl_write fl off bs f = (Ok (), f') \<Longrightarrow> \<forall>i < length bs. mem f (unat off + i) = 0xFF \<Longrightarrow>
           mem f' = (\<lambda>i. if unat off \<le> i \<and> i < unat off + length bs then bs ! (i - unat off)
                        else mem f i)"
  using assms unfolding nor_flash_ok_def by blast+

lemma cred_sector_end: "unat (CRED_FLASH_OFFSET bd + 4096) = unat (CRED_FLASH_OFFSET bd) + 4096"
  by (cases bd) (simp_all add: CRED_FLASH_OFFSET_def CRED_REGION_SIZE_def)

lemma save_credentials_mem:
  assumes "nor_flash_ok fl mem" "wf_credentials c"
    and "save_credentials_flash bd fl c f = Ret (True, f')"
  shows "map (\<lambda>i. mem f' (unat (CRED_FLASH_OFFSET bd) + i)) [0..<CRED_RECORD_SIZE] = record_bytes c"
proof -
  let ?o = "CRED_FLASH_OFFSET bd"
  obtain f1 where f1: "fl_erase fl ?o (?o + 4096) f = (Ok (), f1)"
    and f2: "fl_write fl ?o (record_bytes c) f1 = (Ok (), f')"
    using assms(3) credential_record_eq [OF assms(2)]
    by (auto simp: save_credentials_flash_def split: prod.splits result.splits)
  have len: "length (record_bytes c) = 169"
    using length_record_bytes [OF assms(2)] by (simp add: CRED_RECORD_SIZE_def)
  have "\<forall>i < length (record_bytes c). mem f1 (unat ?o + i) = 0xFF"
    by (simp add: nor_flash_okD(3) [OF assms(1) f1] len cred_sector_end)
  from nor_flash_okD(4) [OF assms(1) f2 this]
  show ?thesis
    by (intro nth_equalityI) (simp_all add: len CRED_RECORD_SIZE_def)
qed

text \<open>A flash as an array of bytes, where a write clears bits, to evaluate instances with.\<close>

definition flash_array :: "(nat \<Rightarrow> u8) nor_flash" where
  "flash_array =
     \<lparr>fl_read = (\<lambda>off buf f. (Ok (), map (\<lambda>i. f (unat off + i)) [0..<length buf], f)),
      fl_erase = (\<lambda>a b f. (Ok (), \<lambda>i. if unat a \<le> i \<and> i < unat b then 0xFF else f i)),
      fl_write = (\<lambda>off bs f.
        (Ok (), \<lambda>i. if unat off \<le> i \<and> i < unat off + length bs
                    then f i AND bs ! (i - unat off) else f i))\<rparr>"

lemma ff_and: "(0xFF :: u8) AND x = x"
proof -
  have "(0xFF :: u8) = - 1" by simp
  then show ?thesis by (simp only: and.left_neutral)
qed

lemma flash_array_ok: "nor_flash_ok flash_array (\<lambda>f. f)"
proof -
  have "(if unat off \<le> i \<and> i < unat off + length bs then f i AND bs ! (i - unat off) else f i) =
      (if unat off \<le> i \<and> i < unat off + length bs then bs ! (i - unat off) else f i)"
    if "\<forall>i < length bs. f (unat off + i) = 0xFF"
    for off :: u32 and bs :: "u8 list" and f :: "nat \<Rightarrow> u8" and i
  proof (cases "unat off \<le> i \<and> i < unat off + length bs")
    case True
    then have "i - unat off < length bs" "unat off + (i - unat off) = i"
      by linarith+
    with that have "f i = 0xFF"
      by metis
    then show ?thesis
      by (simp only: ff_and)
  next
    case False
    then show ?thesis by (simp only: if_False)
  qed
  then have "(\<lambda>i. if unat off \<le> i \<and> i < unat off + length bs then f i AND bs ! (i - unat off) else f i) =
      (\<lambda>i. if unat off \<le> i \<and> i < unat off + length bs then bs ! (i - unat off) else f i)"
    if "\<forall>i < length bs. f (unat off + i) = 0xFF"
    for off :: u32 and bs :: "u8 list" and f :: "nat \<Rightarrow> u8"
    using that by (intro ext) blast
  then show ?thesis
    by (simp add: nor_flash_ok_def flash_array_def)
qed

definition sample_credentials :: credentials where
  "sample_credentials =
     \<lparr>cr_ssid = ''home'', cr_password = ''secret'', cr_mqtt_host = ''10.0.0.7'',
      cr_mqtt_port = 8883\<rparr>"

lemma wf_sample_credentials: "wf_credentials sample_credentials"
  by (simp add: wf_credentials_def sample_credentials_def)

lemma save_flash_array:
  assumes "wf_credentials c"
  shows "\<exists>f'. save_credentials_flash bd flash_array c f = Ret (True, f')"
  by (simp add: save_credentials_flash_def credential_record_eq [OF assms] flash_array_def)

lemma saved_are_loaded:
  assumes "heapless_ok hl" "nor_flash_ok fl mem" "wf_credentials c"
    and "save_credentials_flash bd fl c f = Ret (True, f')"
    and "fl_read fl (CRED_FLASH_OFFSET bd) (replicate CRED_RECORD_SIZE 0) f' = (Ok (), buf, f'')"
  shows "load_credentials_flash hl bd fl f' = Ret (Some c, f'')"
proof -
  have "buf = record_bytes c"
    using nor_flash_okD(2) [OF assms(2,5)] save_credentials_mem [OF assms(2-4)] by simp
  then show ?thesis
    using record_credentials_record_bytes [OF assms(1,3)]
    by (simp add: load_credentials_flash_def assms(5))
qed

text \<open>C29: credentials that were saved are the ones the next boot loads, field by field.\<close>

theorem save_load_roundtrip:
  assumes "heapless_ok hl" "nor_flash_ok fl mem" "wf_credentials c"
    and "save_credentials_flash bd fl c f = Ret (True, f')"
    and "fl_read fl (CRED_FLASH_OFFSET bd) (replicate CRED_RECORD_SIZE 0) f' = (Ok (), buf, f'')"
  shows "load_credentials_flash hl bd fl f' = Ret (Some c, f'')"
  by (rule saved_are_loaded [OF assms])

theorem save_load_roundtrip_witness:
  "\<exists>f'. save_credentials_flash Pico2w flash_array sample_credentials (\<lambda>i. 0) = Ret (True, f') \<and>
     load_credentials_flash heapless_lists Pico2w flash_array f' = Ret (Some sample_credentials, f')"
proof -
  obtain f' where f': "save_credentials_flash Pico2w flash_array sample_credentials (\<lambda>i. 0) = Ret (True, f')"
    using save_flash_array [OF wf_sample_credentials] by blast
  have "fl_read flash_array (CRED_FLASH_OFFSET Pico2w) (replicate CRED_RECORD_SIZE 0) f' =
      (Ok (), map (\<lambda>i. f' (unat (CRED_FLASH_OFFSET Pico2w) + i)) [0..<CRED_RECORD_SIZE], f')"
    by (simp add: flash_array_def)
  from save_load_roundtrip [OF heapless_lists_ok flash_array_ok wf_sample_credentials f' this] f'
  show ?thesis by blast
qed

lemma load_credentials_total:
  assumes "heapless_ok hl" "nor_flash_ok fl mem"
  shows "\<exists>c f'. load_credentials_flash hl bd fl f = Ret (c, f') \<and> mem f' = mem f \<and>
    (\<forall>x. c = Some x \<longrightarrow> wf_credentials x)"
proof -
  obtain r buf f' where rd: "fl_read fl (CRED_FLASH_OFFSET bd) (replicate CRED_RECORD_SIZE 0) f = (r, buf, f')"
    by (cases "fl_read fl (CRED_FLASH_OFFSET bd) (replicate CRED_RECORD_SIZE 0) f")
  then have "length buf = CRED_RECORD_SIZE" "mem f' = mem f"
    using nor_flash_okD(1) [OF assms(2) rd] by simp_all
  with record_credentials_total [OF assms(1), of buf] show ?thesis
    by (cases r) (auto simp: load_credentials_flash_def rd)
qed

text \<open>C30: whatever bytes the credential sector holds, and whether or not the flash can be read, the
  loader returns without a panic and leaves the contents alone, and what it returns fits the
  capacities of \<open>Credentials\<close> and is UTF-8.\<close>

theorem load_credentials_safe:
  assumes "heapless_ok hl" "nor_flash_ok fl mem"
  shows "\<exists>c f'. load_credentials_flash hl bd fl f = Ret (c, f') \<and> mem f' = mem f \<and>
    (\<forall>x. c = Some x \<longrightarrow> wf_credentials x)"
  by (rule load_credentials_total [OF assms])

theorem load_credentials_safe_witness:
  "\<exists>c f'. load_credentials_flash heapless_lists Pico1w flash_array (\<lambda>i. of_nat i) = Ret (c, f') \<and>
     f' = (\<lambda>i. of_nat i) \<and> (\<forall>x. c = Some x \<longrightarrow> wf_credentials x)"
  by (rule load_credentials_safe [OF heapless_lists_ok flash_array_ok])

section \<open>Factory reset\<close>

lemma held_low_eq:
  "k \<le> 50 \<Longrightarrow> held_low level t (of_nat (100 * k)) \<longleftrightarrow> (\<forall>j < 50 - k. \<not> level (t + 100 * Suc j))"
proof (induction "50 - k" arbitrary: k t)
  case 0
  then have "k = 50" by simp
  then show ?case
    by (subst held_low.simps) simp
next
  case (Suc n)
  have "unat (of_nat (100 * k) :: u16) = 100 * k"
    using Suc by (simp only: unat_of_nat) simp
  then have less: "(of_nat (100 * k) :: u16) < 5000"
    using Suc by (simp add: word_less_nat_alt)
  have next_ms: "(of_nat (100 * k) :: u16) + 100 = of_nat (100 * Suc k)"
    by simp
  have "held_low level (t + 100) (of_nat (100 * Suc k)) \<longleftrightarrow>
      (\<forall>j < 50 - Suc k. \<not> level (t + 100 + 100 * Suc j))"
    using Suc.hyps(2) Suc.prems by (intro Suc.hyps(1)) simp_all
  moreover have "(\<forall>j < 50 - k. \<not> level (t + 100 * Suc j)) \<longleftrightarrow>
      \<not> level (t + 100) \<and> (\<forall>j < 50 - Suc k. \<not> level (t + 100 + 100 * Suc j))"
  proof -
    have "50 - k = Suc (50 - Suc k)"
      using Suc by simp
    then show ?thesis
      by (simp only: All_less_Suc2) (simp add: add.assoc)
  qed
  ultimately show ?case
    by (subst held_low.simps) (simp only: less next_ms if_True if_False split: if_split, blast)
qed

text \<open>C32: the factory reset is taken exactly when the pin reads low 10 ms after the pull-up is
  enabled and then at each of the fifty samples 100 ms apart, five seconds in all; a single high
  sample cancels it.\<close>

theorem factory_reset_samples:
  "check_factory_reset level \<longleftrightarrow> \<not> (\<exists>k. k \<le> 50 \<and> level (10 + 100 * k))"
proof -
  have "(\<exists>k. k \<le> 50 \<and> level (10 + 100 * k)) \<longleftrightarrow>
      level 10 \<or> (\<exists>j < 50. level (10 + 100 * Suc j))"
  proof
    assume "\<exists>k. k \<le> 50 \<and> level (10 + 100 * k)"
    then obtain k where k: "k \<le> 50" "level (10 + 100 * k)" by blast
    then show "level 10 \<or> (\<exists>j < 50. level (10 + 100 * Suc j))"
      by (cases k) (simp, metis Suc_le_eq)
  next
    assume "level 10 \<or> (\<exists>j < 50. level (10 + 100 * Suc j))"
    then show "\<exists>k. k \<le> 50 \<and> level (10 + 100 * k)"
    proof
      assume "level 10"
      then show ?thesis by (intro exI [of _ 0]) simp
    qed (metis Suc_leI)
  qed
  then show ?thesis
    using held_low_eq [of 0 level 10] by (auto simp: check_factory_reset_def)
qed

lemma erased_record: "record_credentials hl (replicate CRED_RECORD_SIZE 0xFF) = Ret None"
proof -
  have "u32_from_le_bytes 0xFF 0xFF 0xFF 0xFF \<noteq> CRED_MAGIC"
    by code_simp
  then show ?thesis
    by (simp add: record_credentials_def CRED_RECORD_SIZE_def slice_def)
qed

lemma erased_sector_has_no_credentials:
  assumes "nor_flash_ok fl mem"
    and "fl_erase fl (CRED_FLASH_OFFSET bd) (CRED_FLASH_OFFSET bd + 4096) f = (Ok (), f1)"
  shows "\<exists>f2. load_credentials_flash hl bd fl f1 = Ret (None, f2)"
proof -
  let ?o = "CRED_FLASH_OFFSET bd"
  obtain r buf f2 where rd: "fl_read fl ?o (replicate CRED_RECORD_SIZE 0) f1 = (r, buf, f2)"
    by (cases "fl_read fl ?o (replicate CRED_RECORD_SIZE 0) f1")
  show ?thesis
  proof (cases r)
    case (Ok u)
    have "mem f1 (unat ?o + i) = 0xFF" if "i < CRED_RECORD_SIZE" for i
      using nor_flash_okD(3) [OF assms] that by (simp add: cred_sector_end CRED_RECORD_SIZE_def)
    moreover have "buf = map (\<lambda>i. mem f1 (unat ?o + i)) [0..<CRED_RECORD_SIZE]"
      using nor_flash_okD(2) [OF assms(1), of ?o "replicate CRED_RECORD_SIZE 0" f1 buf f2] rd Ok
      by simp
    ultimately have "buf = replicate CRED_RECORD_SIZE 0xFF"
      by (intro nth_equalityI) simp_all
    then show ?thesis
      by (simp add: load_credentials_flash_def rd Ok erased_record)
  qed (simp add: load_credentials_flash_def rd)
qed

text \<open>C31: a factory reset whose erase succeeds brings the device to provisioning: the boot that takes
  it resets the chip, and the next boot, when the pin is not held and no credentials were compiled
  in, starts the access point whatever was stored before.\<close>

theorem factory_reset_leads_to_provisioning:
  assumes "nor_flash_ok fl mem"
    and "fl_erase fl (CRED_FLASH_OFFSET bd) (CRED_FLASH_OFFSET bd + 4096) f = (Ok (), f1)"
    and "check_factory_reset held" "\<not> check_factory_reset released"
  shows "start hl bd fl ssid pass held f = Ret (BootReset, f1) \<and>
    (\<exists>f2. start hl bd fl None None released f1 = Ret (ApMode, f2))"
proof
  show "start hl bd fl ssid pass held f = Ret (BootReset, f1)"
    by (simp add: start_def assms(2,3) erase_credentials_flash_def)
  show "\<exists>f2. start hl bd fl None None released f1 = Ret (ApMode, f2)"
    using erased_sector_has_no_credentials [OF assms(1,2), of hl] assms(4)
    by (auto simp: start_def)
qed

theorem factory_reset_leads_to_provisioning_witness:
  "\<exists>f1. start heapless_lists Pico2w flash_array None None (\<lambda>t. False) (\<lambda>i. 0) = Ret (BootReset, f1) \<and>
     (\<exists>f2. start heapless_lists Pico2w flash_array None None (\<lambda>t. True) f1 = Ret (ApMode, f2))"
proof -
  obtain f1 where e: "fl_erase flash_array (CRED_FLASH_OFFSET Pico2w) (CRED_FLASH_OFFSET Pico2w + 4096)
      (\<lambda>i. 0) = (Ok (), f1)"
    by (simp add: flash_array_def)
  have "check_factory_reset (\<lambda>t. False)" "\<not> check_factory_reset (\<lambda>t. True)"
    using held_low_eq [of 0 "\<lambda>t. False" 10] by (simp_all add: check_factory_reset_def)
  from factory_reset_leads_to_provisioning [OF flash_array_ok e this] show ?thesis by blast
qed

end
