(* ===== verification/Setup.thy ===== *)
theory Setup
  imports Http Flash
begin

text \<open>
  The captive portal of \<open>src/net.rs\<close>: \<open>portal_server\<close>, \<open>handle_http_request\<close>, \<open>serve_scan_form\<close>
  and \<open>handle_provision\<close>. The radio belongs to the crate \<open>cyw43\<close>: its operations are an argument.
\<close>

section \<open>The radio\<close>

text \<open>A network the scan reports; \<open>ssid\<close> is an array of 32 bytes. \<open>ra_join\<close> is a join with the time
  limit of 15 seconds, which succeeds or not; the radio is there since \<open>start\<close> put it in its mutex.\<close>

record bss_info =
  bss_ssid :: "u8 list"
  bss_ssid_len :: u8

record 'r radio =
  ra_scan :: "'r \<Rightarrow> bss_info list \<times> 'r"
  ra_join :: "str \<Rightarrow> u8 list \<Rightarrow> 'r \<Rightarrow> bool \<times> 'r"
  ra_leave :: "'r \<Rightarrow> 'r"
  ra_close_ap :: "'r \<Rightarrow> 'r"
  ra_start_ap_open :: "str \<Rightarrow> nat \<Rightarrow> 'r \<Rightarrow> 'r"

text \<open>What the portal works on: the socket, the flash, the radio and the LED signals so far.\<close>

record ('s, 'f, 'r) portal_state =
  ps_socket :: 's
  ps_flash :: 'f
  ps_radio :: 'r
  ps_signals :: "led_state list"

definition signal :: "led_state \<Rightarrow> ('s, 'f, 'r) portal_state \<Rightarrow> ('s, 'f, 'r) portal_state" where
  "signal l p = p\<lparr>ps_signals := ps_signals p @ [l]\<rparr>"

section \<open>The setup form\<close>

text \<open>The names of the form: valid UTF-8, not empty, each once, at most 16.\<close>

definition add_ssid :: "heapless \<Rightarrow> str list \<Rightarrow> bss_info \<Rightarrow> str list" where
  "add_ssid hl ssids bss =
     (if bss_ssid_len bss > 0 then
        (case from_utf8 (take (min (unat (bss_ssid_len bss)) 32) (bss_ssid bss)) of
           Ok s \<Rightarrow>
             (let hs = fst (hl_push_str hl 32 '''' s) in
              if hs \<notin> set ssids then fst (hl_push_string hl 16 ssids hs) else ssids)
         | Err _ \<Rightarrow> ssids)
      else ssids)"

definition write_each :: "'s socket \<Rightarrow> u8 list list \<Rightarrow> 's \<Rightarrow> 's" where
  "write_each so texts s = foldl (\<lambda>s t. snd (so_write_all so t s)) s texts"

definition form_head :: "u8 list list" where
  \<open>form_head =
     [as_bytes ''HTTP/1.0 200 OK'' @ CRLF @ as_bytes ''Content-Type: text/html'' @ CRLF @
        as_bytes ''Connection: close'' @ CRLF @ CRLF,
      as_bytes (''<!DOCTYPE html><html><head><meta charset="utf-8">'' @
        ''<title>pico-setup</title></head><body><h1>Wi-Fi Setup</h1>'' @
        ''<form method="POST" action="/connect">'' @
        ''<label>Network:<br><select name="ssid">'')]\<close>

definition form_option :: "str \<Rightarrow> u8 list list" where
  \<open>form_option ssid =
     [as_bytes ''<option value="'', as_bytes ssid, as_bytes ''">'', as_bytes ssid,
      as_bytes ''</option>'']\<close>

definition form_tail :: "u8 list" where
  \<open>form_tail = as_bytes
     (''<option value="">Hidden / other network</option>'' @
      ''</select></label><br>'' @
      ''<label>Manual SSID (leave blank to use selection above):<br>'' @
      ''<input type="text" name="ssid_manual"></label><br>'' @
      ''<label>Password:<br><input type="password" name="password"></label><br>'' @
      ''<hr><h2>MQTT (optional)</h2>'' @
      ''<label>Broker Host:<br><input type="text" name="mqtt_host" '' @
      ''placeholder="e.g. 192.168.1.100"></label><br>'' @
      ''<label>Broker Port:<br><input type="number" name="mqtt_port" '' @
      ''value="1883" min="1" max="65535"></label><br>'' @
      ''<input type="submit" value="Connect">'' @
      ''</form></body></html>'')\<close>

definition serve_scan_form ::
  "heapless \<Rightarrow> 'r radio \<Rightarrow> 's socket \<Rightarrow> ('s, 'f, 'r) portal_state \<Rightarrow> ('s, 'f, 'r) portal_state" where
  "serve_scan_form hl ra so p =
     (let p = signal Scanning p;
          (found, r) = ra_scan ra (ps_radio p);
          ssids = foldl (add_ssid hl) [] found;
          p = signal Provisioning (p\<lparr>ps_radio := r\<rparr>)
      in p\<lparr>ps_socket := write_each so (form_head @ concat (map form_option ssids) @ [form_tail])
             (ps_socket p)\<rparr>)"

section \<open>Provisioning\<close>

text \<open>The result is whether the watchdog resets the device, which is then never left.\<close>

definition handle_provision ::
  "heapless \<Rightarrow> board \<Rightarrow> 'f nor_flash \<Rightarrow> 'r radio \<Rightarrow> str \<Rightarrow> str \<Rightarrow> str \<Rightarrow> u16 \<Rightarrow>
   ('s, 'f, 'r) portal_state \<Rightarrow> (bool \<times> ('s, 'f, 'r) portal_state) exec" where
  "handle_provision hl bd fl ra ssid password mqtt_host mqtt_port p =
     (let p = signal Connecting p;
          (joined, r) = ra_join ra ssid (as_bytes password) (ra_close_ap ra (ps_radio p));
          p = p\<lparr>ps_radio := r\<rparr>
      in
      bind_exec
        (if joined then
           (case credentials_with_mqtt hl ssid password mqtt_host mqtt_port of
              None \<Rightarrow> Ret (False, p)
            | Some creds \<Rightarrow>
                bind_exec (save_credentials_flash bd fl creds (ps_flash p)) (\<lambda>(ok, f).
                  Ret (ok, p\<lparr>ps_flash := f\<rparr>)))
         else Ret (False, p))
        (\<lambda>(saved, p).
           if saved then Ret (True, signal Saving p)
           else Ret (False, signal Provisioning
             (p\<lparr>ps_radio := ra_start_ap_open ra ''pico-setup'' 6 (ra_leave ra (ps_radio p))\<rparr>))))"

section \<open>One request\<close>

definition AP_IP_STR :: "u8 list" where "AP_IP_STR = as_bytes ''192.168.4.1''"
definition AP_IP_URL :: "u8 list" where "AP_IP_URL = as_bytes ''http://192.168.4.1/''"

definition STATUS_PAGE :: "u8 list" where
  \<open>STATUS_PAGE = as_bytes ''{"ssid":"","connected":false}''\<close>

definition TESTING_PAGE :: "u8 list" where
  \<open>TESTING_PAGE =
     as_bytes (''<!DOCTYPE html><html><head>'' @
       ''<meta http-equiv="refresh" content="20;url=/">'' @
       ''</head><body><h1>Testing connection'') @ [0xE2, 0x80, 0xA6] @
     as_bytes (''</h1>'' @ ''<p>Connecting to Wi-Fi. Page refreshes in 20'') @ [0xC2, 0xA0] @
     as_bytes (''s.</p>'' @ ''</body></html>'')\<close>

definition MISSING_FIELDS_PAGE :: "u8 list" where
  \<open>MISSING_FIELDS_PAGE =
     as_bytes (''<!DOCTYPE html><html><body>'' @ ''<h1>Missing Fields</h1>'' @
       ''<p>Both SSID and password are required.</p>'' @
       ''<a href="/">Try again</a></body></html>'')\<close>

definition send_page ::
  "'s socket \<Rightarrow> u8 list \<Rightarrow> u8 list \<Rightarrow> ('s, 'f, 'r) portal_state \<Rightarrow> ('s, 'f, 'r) portal_state exec" where
  "send_page so status body p =
     bind_exec (send_http so status body (ps_socket p)) (\<lambda>s. Ret (p\<lparr>ps_socket := s\<rparr>))"

text \<open>A \<open>usize\<close> has 32 bits on the target.\<close>

definition body_length :: "u8 list option \<Rightarrow> nat" where
  "body_length v =
     min (unwrap_or 0
       (case v of
          None \<Rightarrow> None
        | Some v \<Rightarrow> (case from_utf8 v of Ok s \<Rightarrow> parse_uint (2 ^ 32) (trim s) | Err _ \<Rightarrow> None))) 256"

function read_body ::
  "'s socket \<Rightarrow> nat \<Rightarrow> u8 list \<Rightarrow> nat \<Rightarrow> 's \<Rightarrow> (u8 list \<times> nat \<times> 's) exec" where
  "read_body so cl body_buf pos s =
     (if pos < cl then
        (case read_some so (cl - pos) s of
           ([], s') \<Rightarrow> Ret (body_buf, pos, s')
         | (b # bs, s') \<Rightarrow>
             bind_exec (copy_into body_buf pos (pos + length (b # bs)) (b # bs)) (\<lambda>body_buf'.
               read_body so cl body_buf' (pos + length (b # bs)) s'))
      else Ret (body_buf, pos, s))"
  by pat_completeness auto
termination
  by (relation "measure (\<lambda>(so, cl, body_buf, pos, s). cl - pos)") auto

declare read_body.simps [simp del]

text \<open>The two pages that answer a form, and the provisioning after the first.\<close>

definition submit_form ::
  "heapless \<Rightarrow> board \<Rightarrow> 'f nor_flash \<Rightarrow> 'r radio \<Rightarrow> 's socket \<Rightarrow> connect_form option \<Rightarrow>
   ('s, 'f, 'r) portal_state \<Rightarrow> (bool \<times> ('s, 'f, 'r) portal_state) exec" where
  "submit_form hl bd fl ra so result p =
     (case result of
        Some form \<Rightarrow>
          (let ssid = fst (hl_push_str hl 32 '''' (cf_ssid form));
               pwd = fst (hl_push_str hl 64 '''' (cf_password form));
               host = fst (hl_push_str hl 64 '''' (cf_mqtt_host form))
           in
           bind_exec (send_page so (as_bytes ''200 OK'') TESTING_PAGE p) (\<lambda>p.
             handle_provision hl bd fl ra ssid pwd host (cf_mqtt_port form)
               (p\<lparr>ps_socket := so_flush so (ps_socket p)\<rparr>)))
      | None \<Rightarrow>
          bind_exec (send_page so (as_bytes ''400 Bad Request'') MISSING_FIELDS_PAGE p)
            (\<lambda>p. Ret (False, p)))"

definition handle_connect ::
  "heapless \<Rightarrow> board \<Rightarrow> 'f nor_flash \<Rightarrow> 'r radio \<Rightarrow> 's socket \<Rightarrow> u8 list \<Rightarrow>
   ('s, 'f, 'r) portal_state \<Rightarrow> (bool \<times> ('s, 'f, 'r) portal_state) exec" where
  "handle_connect hl bd fl ra so headers p =
     bind_exec (extract_header headers (as_bytes ''Content-Length'')) (\<lambda>v.
     bind_exec (read_body so (body_length v) (replicate 256 0) 0 (ps_socket p)) (\<lambda>(body_buf, pos, s).
     bind_exec (slice body_buf 0 pos) (\<lambda>body.
     bind_exec (form_of_body body (replicate 128 0)) (\<lambda>result.
       submit_form hl bd fl ra so result (p\<lparr>ps_socket := s\<rparr>)))))"

text \<open>The request once its headers are read.\<close>

definition answer_request ::
  "heapless \<Rightarrow> board \<Rightarrow> 'f nor_flash \<Rightarrow> 'r radio \<Rightarrow> 's socket \<Rightarrow> u8 list \<Rightarrow> request_line \<Rightarrow>
   u8 list option \<Rightarrow> ('s, 'f, 'r) portal_state \<Rightarrow> (bool \<times> ('s, 'f, 'r) portal_state) exec" where
  "answer_request hl bd fl ra so headers req host p =
     (if (case host of Some h \<Rightarrow> \<not> starts_with AP_IP_STR h | None \<Rightarrow> False) then
        bind_exec (send_redirect so AP_IP_URL (ps_socket p)) (\<lambda>s. Ret (False, p\<lparr>ps_socket := s\<rparr>))
      else if rl_method req = Get \<and> (rl_path req = ''/'' \<or> rl_path req = ''/index.html'') then
        Ret (False, serve_scan_form hl ra so p)
      else if rl_method req = Get \<and> rl_path req = ''/status'' then
        bind_exec (send_page so (as_bytes ''200 OK'') STATUS_PAGE p) (\<lambda>p. Ret (False, p))
      else if rl_method req = Post \<and> rl_path req = ''/connect'' then
        handle_connect hl bd fl ra so headers p
      else
        bind_exec (send_page so (as_bytes ''404 Not Found'') (as_bytes ''Not Found'') p)
          (\<lambda>p. Ret (False, p)))"

definition handle_http_request ::
  "heapless \<Rightarrow> board \<Rightarrow> 'f nor_flash \<Rightarrow> 'r radio \<Rightarrow> 's socket \<Rightarrow>
   ('s, 'f, 'r) portal_state \<Rightarrow> (bool \<times> ('s, 'f, 'r) portal_state) exec" where
  "handle_http_request hl bd fl ra so p =
     bind_exec (read_http_headers so (replicate 512 0) (ps_socket p)) (\<lambda>(n, hdr_buf, s).
     let p = p\<lparr>ps_socket := s\<rparr> in
     if n = 0 then Ret (False, p)
     else
     bind_exec (slice hdr_buf 0 n) (\<lambda>headers.
     bind_exec (slice headers 0 (min (unwrap_or n (find_subsequence headers CRLF)) n)) (\<lambda>line.
     case parse_request_line line of
       Err _ \<Rightarrow>
         bind_exec (send_page so (as_bytes ''400 Bad Request'') (as_bytes ''Bad Request'') p)
           (\<lambda>p. Ret (False, p))
     | Ok req \<Rightarrow>
         bind_exec (extract_header headers (as_bytes ''Host'')) (\<lambda>host.
           answer_request hl bd fl ra so headers req host p))))"

section \<open>The server\<close>

partial_function (option) portal_server ::
  "heapless \<Rightarrow> board \<Rightarrow> 'f nor_flash \<Rightarrow> 'r radio \<Rightarrow> 's socket \<Rightarrow>
   ('s, 'f, 'r) portal_state \<Rightarrow> ('s, 'f, 'r) portal_state exec option" where
  "portal_server hl bd fl ra so p =
     (case so_accept so 80 (ps_socket p) of
        (Err _, s) \<Rightarrow> portal_server hl bd fl ra so (p\<lparr>ps_socket := s\<rparr>)
      | (Ok _, s) \<Rightarrow>
          bind_io (Some (handle_http_request hl bd fl ra so (p\<lparr>ps_socket := s\<rparr>))) (\<lambda>(resets, p').
            if resets then Some (Ret p')
            else portal_server hl bd fl ra so (p'\<lparr>ps_socket := so_abort so (ps_socket p')\<rparr>)))"

section \<open>Texts stay texts\<close>

lemma splitn_two: "splitn 2 c s = (if c \<in> set s then [takeWhile (\<lambda>x. x \<noteq> c) s, tl (dropWhile (\<lambda>x. x \<noteq> c) s)] else [s])"
proof (cases "c \<in> set s")
  case True
  then obtain l r where "s = l @ c # r" "c \<notin> set l"
    by (metis split_list_first)
  then show ?thesis
    using splitn_append_sep [of c l 0 r] by (simp add: numeral_2_eq_2 takeWhile_append dropWhile_append)
qed (use splitn_no_sep [of c s 1] in \<open>simp add: numeral_2_eq_2\<close>)

lemma splitn_utf8:
  assumes "(of_char c :: u8) < 0x80" "utf8_valid (as_bytes s)" "t \<in> set (splitn 2 c s)"
  shows "utf8_valid (as_bytes t)"
proof (cases "c \<in> set s")
  case True
  then obtain l r where "s = l @ c # r" "c \<notin> set l"
    by (metis split_list_first)
  then show ?thesis
    using assms splitn_append_sep [of c l 0 r] utf8_valid_cut [OF assms(1), of "as_bytes l" "as_bytes r"]
    by (auto simp: numeral_2_eq_2)
qed (use assms splitn_no_sep [of c s 1] in \<open>simp add: numeral_2_eq_2\<close>)

definition field_valid :: "str option \<Rightarrow> bool" where
  "field_valid f = (case f of None \<Rightarrow> True | Some v \<Rightarrow> utf8_valid (as_bytes v))"

lemma connect_fields_valid:
  assumes "\<forall>s \<in> set pairs. utf8_valid (as_bytes s)" "field_valid ssid" "field_valid password"
    and "utf8_valid (as_bytes host)"
    and "connect_fields pairs (ssid, password, host, port) = Ok (ssid', password', host', port')"
  shows "field_valid ssid' \<and> field_valid password' \<and> utf8_valid (as_bytes host')"
  using assms
proof (induction pairs "(ssid, password, host, port)" arbitrary: ssid password host port
    rule: connect_fields.induct)
  case (2 pair pairs ssid password host port)
  obtain key rest where s: "splitn 2 (CHR ''='') pair = key # rest"
    using splitn_two [of "CHR ''=''" pair] by (auto split: if_splits)
  let ?val = "case rest of [] \<Rightarrow> '''' | v # _ \<Rightarrow> v"
  have "utf8_valid (as_bytes ?val)"
    using splitn_utf8 [of "CHR ''=''" pair] "2.prems"(1) s by (cases rest) auto
  then show ?case
    using "2.prems" "2.hyps" [OF s refl] s
    by (auto simp: Let_def field_valid_def split: if_splits)
qed simp

lemma parse_connect_form_valid:
  assumes "utf8_valid (as_bytes d)" "parse_connect_form d = Ok form"
  shows "utf8_valid (as_bytes (cf_ssid form)) \<and> utf8_valid (as_bytes (cf_password form)) \<and>
     utf8_valid (as_bytes (cf_mqtt_host form))"
proof -
  obtain ssid password host port where
    f: "connect_fields (split_on (CHR ''&'') d) (None, None, '''', 1883) = Ok (ssid, password, host, port)"
    and form: "ssid = Some (cf_ssid form)" "password = Some (cf_password form)" "host = cf_mqtt_host form"
    using assms(2) by (auto simp: parse_connect_form_def bind_result_eq_Ok elim!: ok_or.elims)
  have "\<forall>s \<in> set (split_on (CHR ''&'') d). utf8_valid (as_bytes s)"
    using split_on_utf8 [of "CHR ''&''" d] assms(1) by simp
  from connect_fields_valid [OF this _ _ _ f] show ?thesis
    by (simp add: field_valid_def form)
qed

lemma decode_url_encoded_valid:
  assumes "decode_url_encoded body dec_buf = Ret (r, buf)" "result_ok r = Some d"
  shows "utf8_valid (as_bytes d)"
proof -
  have r: "r = Ok d"
    using assms(2) by (cases r) simp_all
  obtain res out' where l: "decode_loop body dec_buf 0 0 = Ret (res, out')"
    using assms(1) by (auto simp: decode_url_encoded_def bind_exec_eq_Ret)
  obtain n where n: "res = Ok n"
    using assms(1) r l by (cases res) (simp_all add: decode_url_encoded_def)
  obtain bs where "slice out' 0 n = Ret bs"
    using assms(1) l n by (auto simp: decode_url_encoded_def bind_exec_eq_Ret)
  then show ?thesis
    using assms(1) r l n by (auto simp: decode_url_encoded_def from_utf8_def split: if_splits)
qed

lemma form_of_body_valid:
  assumes "form_of_body body dec_buf = Ret (Some form)"
  shows "utf8_valid (as_bytes (cf_ssid form)) \<and> utf8_valid (as_bytes (cf_password form)) \<and>
     utf8_valid (as_bytes (cf_mqtt_host form))"
proof -
  obtain r buf where r: "decode_url_encoded body dec_buf = Ret (r, buf)"
    using assms by (auto simp: form_of_body_def bind_exec_eq_Ret)
  obtain d where d: "result_ok r = Some d"
    using assms r by (cases "result_ok r") (simp_all add: form_of_body_def)
  have "parse_connect_form d = Ok form"
    using assms r d by (cases "parse_connect_form d") (simp_all add: form_of_body_def)
  then show ?thesis
    using parse_connect_form_valid [OF decode_url_encoded_valid [OF r d]] by blast
qed

section \<open>What a request does\<close>

lemma pushed:
  "heapless_ok hl \<Longrightarrow> fst (hl_push_str hl n '''' s) = (if length s \<le> n then s else '''')"
  using appends_fits [OF heapless_okD(1), of hl "''''" s n] appends_full [OF heapless_okD(1), of hl n "''''" s]
  by auto

text \<open>The flash of \<open>p\<close> is what saving credentials left, and these had joined the network.\<close>

definition saved_by :: "board \<Rightarrow> 'f nor_flash \<Rightarrow> 'r radio \<Rightarrow> 'f \<Rightarrow> credentials \<Rightarrow> bool" where
  "saved_by bd fl ra f' c \<longleftrightarrow>
     wf_credentials c \<and> (\<exists>r. fst (ra_join ra (cr_ssid c) (as_bytes (cr_password c)) r)) \<and>
     (\<exists>f. save_credentials_flash bd fl c f = Ret (True, f'))"

text \<open>If a computation returns, it does so with a result in \<open>P\<close>.\<close>

definition rets :: "('a \<Rightarrow> bool) \<Rightarrow> 'a exec \<Rightarrow> bool" where
  "rets P m \<longleftrightarrow> (\<forall>x. m = Ret x \<longrightarrow> P x)"

lemma rets_simps [simp]: "rets P (Ret x) = P x" "rets P Panic"
  by (simp_all add: rets_def)

lemma rets_bind:
  "(\<And>x y z. m3 = Ret (x, y, z) \<Longrightarrow> rets P (f3 x y z)) \<Longrightarrow> rets P (bind_exec m3 (\<lambda>(x, y, z). f3 x y z))"
  "(\<And>x y. m2 = Ret (x, y) \<Longrightarrow> rets P (f2 x y)) \<Longrightarrow> rets P (bind_exec m2 (\<lambda>(x, y). f2 x y))"
  "(\<And>x. m = Ret x \<Longrightarrow> rets P (f x)) \<Longrightarrow> rets P (bind_exec m f)"
  subgoal by (cases m3) auto
  subgoal by (cases m2) auto
  subgoal by (cases m) auto
  done

definition saving :: "board \<Rightarrow> 'f nor_flash \<Rightarrow> 'r radio \<Rightarrow> bool \<times> ('s, 'f, 'r) portal_state \<Rightarrow> bool" where
  "saving bd fl ra = (\<lambda>(resets, p). resets \<longrightarrow> (\<exists>c. saved_by bd fl ra (ps_flash p) c))"

lemma saving_simps [simp]: "saving bd fl ra (False, p)"
  "saving bd fl ra (True, p) \<longleftrightarrow> (\<exists>c. saved_by bd fl ra (ps_flash p) c)"
  by (simp_all add: saving_def)

lemma handle_provision_saves:
  assumes "heapless_ok hl" "utf8_valid (as_bytes s)" "utf8_valid (as_bytes pw)" "utf8_valid (as_bytes h)"
  shows "rets (saving bd fl ra) (handle_provision hl bd fl ra s pw h port p)"
proof -
  obtain joined r where j: "ra_join ra s (as_bytes pw) (ra_close_ap ra (ps_radio p)) = (joined, r)"
    by (cases "ra_join ra s (as_bytes pw) (ra_close_ap ra (ps_radio p))")
  show ?thesis
  proof (cases "joined \<and> length s \<le> 32 \<and> length pw \<le> 64 \<and> length h \<le> 64")
    case True
    obtain c where c: "credentials_with_mqtt hl s pw h port = Some c" "wf_credentials c"
      "cr_ssid c = s" "cr_password c = pw"
      using True assms(2-4) by (simp add: credentials_with_mqtt_eq [OF assms(1)] wf_credentials_def)
    have "\<exists>r. fst (ra_join ra (cr_ssid c) (as_bytes (cr_password c)) r)"
      using j True c(3,4) by (metis fst_conv)
    then have "save_credentials_flash bd fl c (ps_flash p) = Ret (True, f) \<Longrightarrow> saved_by bd fl ra f c" for f
      using c(2) by (auto simp: saved_by_def)
    then show ?thesis
      using j True c(1) by (cases "save_credentials_flash bd fl c (ps_flash p)")
        (auto simp: handle_provision_def signal_def, metis)
  next
    case False
    then show ?thesis
      using j by (auto simp: handle_provision_def signal_def credentials_with_mqtt_eq [OF assms(1)] Let_def)
  qed
qed

lemma submit_form_saves:
  assumes "heapless_ok hl" "form_of_body body dec_buf = Ret form"
  shows "rets (saving bd fl ra) (submit_form hl bd fl ra so form p)"
proof (cases form)
  case (Some x)
  then have "utf8_valid (as_bytes (fst (hl_push_str hl 32 '''' (cf_ssid x))))"
    "utf8_valid (as_bytes (fst (hl_push_str hl 64 '''' (cf_password x))))"
    "utf8_valid (as_bytes (fst (hl_push_str hl 64 '''' (cf_mqtt_host x))))"
    using form_of_body_valid [of body dec_buf x] assms(2) by (simp_all add: pushed [OF assms(1)])
  then show ?thesis
    unfolding submit_form_def Let_def Some option.case
    by (intro rets_bind handle_provision_saves [OF assms(1)])
qed (auto simp: submit_form_def intro!: rets_bind simp del: as_bytes_Cons)

lemma handle_connect_saves:
  "heapless_ok hl \<Longrightarrow> rets (saving bd fl ra) (handle_connect hl bd fl ra so headers p)"
  unfolding handle_connect_def by (intro rets_bind submit_form_saves)

lemma answer_request_saves:
  "heapless_ok hl \<Longrightarrow> rets (saving bd fl ra) (answer_request hl bd fl ra so headers req host p)"
  unfolding answer_request_def
  by (auto intro!: rets_bind handle_connect_saves simp del: as_bytes_Cons)

lemma handle_http_request_saves:
  "heapless_ok hl \<Longrightarrow> rets (saving bd fl ra) (handle_http_request hl bd fl ra so p)"
  unfolding handle_http_request_def Let_def
  by (auto intro!: rets_bind answer_request_saves split: result.split simp del: as_bytes_Cons)

lemma portal_server_saves:
  assumes "portal_server hl bd fl ra so p = Some r" "heapless_ok hl"
  shows "rets (\<lambda>p'. \<exists>c. saved_by bd fl ra (ps_flash p') c) r"
  using assms(2)
proof (induction rule: portal_server.raw_induct [OF _ assms(1), consumes 0, case_names step])
  case (step loop hl bd fl ra so p r)
  obtain res s where acc: "so_accept so 80 (ps_socket p) = (res, s)"
    by (cases "so_accept so 80 (ps_socket p)")
  show ?case
  proof (cases res)
    case (Err e)
    then show ?thesis
      using step(1) [of hl bd fl ra so "p\<lparr>ps_socket := s\<rparr>" r] step(2,3) acc by simp
  next
    case (Ok u)
    note req = handle_http_request_saves [OF step(3), of bd fl ra so "p\<lparr>ps_socket := s\<rparr>"]
    have "bind_io (Some (handle_http_request hl bd fl ra so (p\<lparr>ps_socket := s\<rparr>))) (\<lambda>(resets, p').
        if resets then Some (Ret p')
        else loop hl bd fl ra so (p'\<lparr>ps_socket := so_abort so (ps_socket p')\<rparr>)) = Some r"
      using step(2) acc Ok by simp
    then show ?thesis
    proof (cases rule: bind_io_cases)
      case (2 y)
      then show ?thesis
        using req step(1) [OF _ step(3)] by (cases y) (auto simp: rets_def split: if_splits)
    qed simp
  qed
qed

section \<open>Requests of a well-behaved client\<close>

lemma read_body_stream:
  assumes "stream_socket so input output" "pos \<le> cl" "cl \<le> length buf"
  shows "\<exists>buf' s'. read_body so cl buf pos s =
       Ret (buf', pos + min (cl - pos) (length (input s)), s') \<and> length buf' = length buf \<and>
     take (pos + min (cl - pos) (length (input s))) buf' = take pos buf @ take (cl - pos) (input s) \<and>
     output s' = output s"
  using assms(2,3)
proof (induction "cl - pos" arbitrary: pos buf s rule: less_induct)
  case less
  show ?case
  proof (cases "pos < cl")
    case False
    then show ?thesis
      using less.prems by (subst read_body.simps) simp
  next
    case True
    obtain c s1 where c: "read_some so (cl - pos) s = (c, s1)" "length c \<le> cl - pos"
      "c = [] \<longleftrightarrow> input s = []" "input s = c @ input s1" "output s1 = output s"
      using read_some_stream [OF assms(1), of "cl - pos" s] True by auto
    show ?thesis
    proof (cases c)
      case Nil
      have "input s = []"
        using c(3) Nil by blast
      moreover have "read_body so cl buf pos s = Ret (buf, pos, s1)"
        by (subst read_body.simps) (simp only: True if_True c(1) Nil prod.case list.case)
      ultimately show ?thesis
        using c(5) by simp
    next
      case (Cons b bs)
      let ?buf = "take pos buf @ c @ drop (pos + length c) buf"
      have fits: "pos + length c \<le> cl" "0 < length c"
        using c(2) True Cons by simp_all
      have copy: "copy_into buf pos (pos + length c) c = Ret ?buf"
        using fits less.prems by (simp add: copy_into_def)
      have step: "read_body so cl buf pos s = read_body so cl ?buf (pos + length c) s1"
        using copy unfolding Cons by (subst read_body.simps) (simp only: True if_True c(1) Cons prod.case list.case bind_exec.simps)
      have len: "length ?buf = length buf"
        using fits less.prems by simp
      have shrinks: "cl - (pos + length c) < cl - pos"
        using fits by arith
      have "cl \<le> length ?buf"
        using less.prems len by simp
      from less.hyps [OF shrinks fits(1) this, of s1] obtain buf' s' where r:
        "read_body so cl ?buf (pos + length c) s1 =
           Ret (buf', pos + length c + min (cl - (pos + length c)) (length (input s1)), s')"
        "length buf' = length ?buf"
        "take (pos + length c + min (cl - (pos + length c)) (length (input s1))) buf' =
           take (pos + length c) ?buf @ take (cl - (pos + length c)) (input s1)"
        "output s' = output s1"
        by blast
      have n: "pos + length c + min (cl - (pos + length c)) (length (input s1)) =
          pos + min (cl - pos) (length (input s))"
        unfolding c(4) using fits by simp
      have "take (pos + length c) ?buf @ take (cl - (pos + length c)) (input s1) =
          take pos buf @ take (cl - pos) (input s)"
        unfolding c(4) using fits less.prems by simp
      then show ?thesis
        using r step c(5) len unfolding n by auto
    qed
  qed
qed

definition request_line_of :: "u8 list \<Rightarrow> u8 list" where
  "request_line_of h = take (unwrap_or (length h) (find_subsequence h CRLF)) h"

lemma find_subsequence_bound: "find_subsequence h sub = Some n \<Longrightarrow> n \<le> length h"
  by (induction h arbitrary: n) (auto split: if_splits)

lemma request_line_slice:
  "slice h 0 (min (unwrap_or (length h) (find_subsequence h CRLF)) (length h)) = Ret (request_line_of h)"
  by (cases "find_subsequence h CRLF")
    (auto simp: slice_def request_line_of_def min_def dest: find_subsequence_bound)

lemma handle_request_complete:
  assumes "stream_socket so input output" "complete_request h" "input (ps_socket p) = h @ rest"
    and "parse_request_line (request_line_of h) = Ok req"
    and "header_in (as_bytes ''Host'') (tl (split_on 10 h)) = Ret host"
  shows "\<exists>s. handle_http_request hl bd fl ra so p = answer_request hl bd fl ra so h req host (p\<lparr>ps_socket := s\<rparr>) \<and>
     input s = rest \<and> output s = output (ps_socket p)"
proof -
  note h = complete_request_block [OF assms(2)]
  obtain s where s: "read_http_headers so (replicate 512 0) (ps_socket p) =
      Ret (length h, h @ replicate (512 - length h) 0, s)" "input s = rest" "output s = output (ps_socket p)"
    using read_http_headers_stream [OF assms(1), of 512 "ps_socket p"] assms(3) h(1) by auto
  have "slice (h @ replicate (512 - length h) 0) 0 (length h) = Ret h"
    by (simp add: slice_def)
  then have "handle_http_request hl bd fl ra so p = answer_request hl bd fl ra so h req host (p\<lparr>ps_socket := s\<rparr>)"
    using h(2) assms(4,5)
    by (simp add: handle_http_request_def s(1) request_line_slice extract_header_eq Let_def del: as_bytes_Cons)
  then show ?thesis
    using s(2,3) by blast
qed

lemma page_lengths:
  "length TESTING_PAGE < 10 ^ 10" "length MISSING_FIELDS_PAGE < 10 ^ 10" "length STATUS_PAGE < 10 ^ 10"
  "length (as_bytes ''Bad Request'') < 10 ^ 10" "length (as_bytes ''Not Found'') < 10 ^ 10"
  by (simp_all add: TESTING_PAGE_def MISSING_FIELDS_PAGE_def STATUS_PAGE_def)

lemma send_page_Ret: "length body < 10 ^ 10 \<Longrightarrow> \<exists>s. send_page so status body p = Ret (p\<lparr>ps_socket := s\<rparr>)"
  by (auto simp: send_page_def send_http_eq)

lemma handle_request_refused:
  assumes "stream_socket so input output" "complete_request h" "input (ps_socket p) = h @ rest"
    and "parse_request_line (request_line_of h) = Err e"
  shows "\<exists>s. handle_http_request hl bd fl ra so p = Ret (False, p\<lparr>ps_socket := s\<rparr>)"
proof -
  note h = complete_request_block [OF assms(2)]
  obtain s where s: "read_http_headers so (replicate 512 0) (ps_socket p) =
      Ret (length h, h @ replicate (512 - length h) 0, s)"
    using read_http_headers_stream [OF assms(1), of 512 "ps_socket p"] assms(3) h(1) by auto
  have "slice (h @ replicate (512 - length h) 0) 0 (length h) = Ret h"
    by (simp add: slice_def)
  moreover obtain s' where "send_page so (as_bytes ''400 Bad Request'') (as_bytes ''Bad Request'')
      (p\<lparr>ps_socket := s\<rparr>) = Ret (p\<lparr>ps_socket := s'\<rparr>)"
    using send_page_Ret [OF page_lengths(4), of so "as_bytes ''400 Bad Request''" "p\<lparr>ps_socket := s\<rparr>"] by auto
  ultimately show ?thesis
    using h(2) assms(4)
    by (simp add: handle_http_request_def s request_line_slice Let_def del: as_bytes_Cons) blast
qed

lemma save_credentials_Ret: "wf_credentials c \<Longrightarrow> \<exists>ok f'. save_credentials_flash bd fl c f = Ret (ok, f')"
  by (auto simp: save_credentials_flash_def credential_record_eq split: prod.split result.split)

lemma handle_provision_total:
  assumes "heapless_ok hl" "utf8_valid (as_bytes s)" "utf8_valid (as_bytes pw)" "utf8_valid (as_bytes h)"
  shows "handle_provision hl bd fl ra s pw h port p \<noteq> Panic"
proof -
  obtain joined r where j: "ra_join ra s (as_bytes pw) (ra_close_ap ra (ps_radio p)) = (joined, r)"
    by (cases "ra_join ra s (as_bytes pw) (ra_close_ap ra (ps_radio p))")
  show ?thesis
  proof (cases "credentials_with_mqtt hl s pw h port")
    case (Some c)
    then have "wf_credentials c"
      using assms(2-4) by (auto simp: credentials_with_mqtt_eq [OF assms(1)] wf_credentials_def split: if_splits)
    then obtain ok f' where "save_credentials_flash bd fl c (ps_flash p) = Ret (ok, f')"
      using save_credentials_Ret [of c bd fl "ps_flash p"] by blast
    then show ?thesis
      using j Some by (simp add: handle_provision_def signal_def Let_def)
  qed (use j in \<open>simp add: handle_provision_def signal_def Let_def\<close>)
qed

lemma submit_form_total:
  assumes "heapless_ok hl" "form_of_body body dec_buf = Ret form"
  shows "submit_form hl bd fl ra so form p \<noteq> Panic"
proof (cases form)
  case None
  then show ?thesis
    using send_page_Ret [OF page_lengths(2), of so "as_bytes ''400 Bad Request''" p]
    by (auto simp: submit_form_def simp del: as_bytes_Cons)
next
  case (Some x)
  then have "utf8_valid (as_bytes (fst (hl_push_str hl 32 '''' (cf_ssid x))))"
    "utf8_valid (as_bytes (fst (hl_push_str hl 64 '''' (cf_password x))))"
    "utf8_valid (as_bytes (fst (hl_push_str hl 64 '''' (cf_mqtt_host x))))"
    using form_of_body_valid [of body dec_buf x] assms(2) by (simp_all add: pushed [OF assms(1)])
  note provision = handle_provision_total [OF assms(1) this]
  obtain s where "send_page so (as_bytes ''200 OK'') TESTING_PAGE p = Ret (p\<lparr>ps_socket := s\<rparr>)"
    using send_page_Ret [OF page_lengths(1), of so "as_bytes ''200 OK''" p] by blast
  then show ?thesis
    using provision [of bd fl ra "cf_mqtt_port x" "p\<lparr>ps_socket := so_flush so s\<rparr>"] Some
    by (simp add: submit_form_def Let_def del: as_bytes_Cons)
qed

lemma form_of_body_total: "\<exists>form. form_of_body body (replicate 128 0) = Ret form"
  using decode_url_encoded_eq [of "replicate 128 0" body] by (auto simp: form_of_body_def)

lemma body_length_bound: "body_length v \<le> 256"
  by (simp add: body_length_def)

lemma handle_connect_eq:
  assumes "stream_socket so input output" "header_in (as_bytes ''Content-Length'') (tl (split_on 10 h)) = Ret v"
  shows "\<exists>form s. form_of_body (take (body_length v) (input (ps_socket p))) (replicate 128 0) = Ret form \<and>
     handle_connect hl bd fl ra so h p = submit_form hl bd fl ra so form (p\<lparr>ps_socket := s\<rparr>) \<and>
     output s = output (ps_socket p)"
proof -
  let ?n = "min (body_length v) (length (input (ps_socket p)))"
  obtain buf s where b: "read_body so (body_length v) (replicate 256 0) 0 (ps_socket p) = Ret (buf, ?n, s)"
    "length buf = 256" "take ?n buf = take (body_length v) (input (ps_socket p))" "output s = output (ps_socket p)"
    using read_body_stream [OF assms(1), of 0 "body_length v" "replicate 256 0" "ps_socket p"] body_length_bound [of v]
    by auto
  have "slice buf 0 ?n = Ret (take (body_length v) (input (ps_socket p)))"
    using b(2,3) body_length_bound [of v] by (simp add: slice_def)
  moreover obtain form where "form_of_body (take (body_length v) (input (ps_socket p))) (replicate 128 0) = Ret form"
    using form_of_body_total by blast
  ultimately show ?thesis
    using b(1,4) assms(2) by (auto simp: handle_connect_def extract_header_eq simp del: as_bytes_Cons)
qed

lemma answer_request_total:
  assumes "stream_socket so input output" "heapless_ok hl" "h \<noteq> []" "last h = 10"
  shows "answer_request hl bd fl ra so h req host p \<noteq> Panic"
proof -
  obtain v where v: "header_in (as_bytes ''Content-Length'') (tl (split_on 10 h)) = Ret v"
    using header_in_ended [OF assms(3,4)] by blast
  have "handle_connect hl bd fl ra so h p \<noteq> Panic"
    using handle_connect_eq [OF assms(1) v] submit_form_total [OF assms(2)] by metis
  then show ?thesis
    using send_page_Ret [OF page_lengths(3), of so "as_bytes ''200 OK''" p]
      send_page_Ret [OF page_lengths(5), of so "as_bytes ''404 Not Found''" p]
    by (auto simp: answer_request_def send_redirect_eq simp del: as_bytes_Cons)
qed

text \<open>The path of a form that provisions the device.\<close>

definition form_credentials :: "connect_form \<Rightarrow> credentials" where
  "form_credentials form =
     \<lparr>cr_ssid = cf_ssid form, cr_password = cf_password form, cr_mqtt_host = cf_mqtt_host form,
      cr_mqtt_port = cf_mqtt_port form\<rparr>"

definition flash_works :: "'f nor_flash \<Rightarrow> bool" where
  "flash_works fl \<longleftrightarrow>
     (\<forall>a b f. fst (fl_erase fl a b f) = Ok ()) \<and> (\<forall>off bs f. fst (fl_write fl off bs f) = Ok ())"

lemma save_credentials_works:
  assumes "flash_works fl" "wf_credentials c"
  shows "\<exists>f'. save_credentials_flash bd fl c f = Ret (True, f')"
proof -
  obtain f1 where f1: "fl_erase fl (CRED_FLASH_OFFSET bd) (CRED_FLASH_OFFSET bd + 4096) f = (Ok (), f1)"
    using assms(1) unfolding flash_works_def by (metis prod.collapse)
  obtain f2 where "fl_write fl (CRED_FLASH_OFFSET bd) (record_bytes c) f1 = (Ok (), f2)"
    using assms(1) unfolding flash_works_def by (metis prod.collapse)
  then show ?thesis
    using f1 by (simp add: save_credentials_flash_def credential_record_eq [OF assms(2)])
qed

lemma handle_provision_works:
  assumes "heapless_ok hl" "flash_works fl" "wf_credentials c"
    and "\<And>r. fst (ra_join ra (cr_ssid c) (as_bytes (cr_password c)) r)"
  shows "\<exists>f p'. handle_provision hl bd fl ra (cr_ssid c) (cr_password c) (cr_mqtt_host c) (cr_mqtt_port c) p =
       Ret (True, p') \<and> save_credentials_flash bd fl c f = Ret (True, ps_flash p')"
proof -
  obtain r where r: "ra_join ra (cr_ssid c) (as_bytes (cr_password c)) (ra_close_ap ra (ps_radio p)) = (True, r)"
    using assms(4) by (metis (full_types) prod.collapse)
  obtain f' where f': "save_credentials_flash bd fl c (ps_flash p) = Ret (True, f')"
    using save_credentials_works [OF assms(2,3)] by blast
  have "credentials_with_mqtt hl (cr_ssid c) (cr_password c) (cr_mqtt_host c) (cr_mqtt_port c) = Some c"
    using assms(3) by (simp add: credentials_with_mqtt_eq [OF assms(1)] wf_credentials_def)
  then show ?thesis
    using r f' by (auto simp: handle_provision_def signal_def Let_def)
qed

lemma portal_provisions:
  assumes "stream_socket so input output" "heapless_ok hl" "flash_works fl" "complete_request h"
    and "input (ps_socket p) = h @ body"
    and "parse_request_line (request_line_of h) = Ok \<lparr>rl_method = Post, rl_path = ''/connect''\<rparr>"
    and "header_in (as_bytes ''Host'') (tl (split_on 10 h)) = Ret (Some host)" "starts_with AP_IP_STR host"
    and "header_in (as_bytes ''Content-Length'') (tl (split_on 10 h)) = Ret v" "body_length v = length body"
    and "form_of_body body (replicate 128 0) = Ret (Some form)" "wf_credentials (form_credentials form)"
    and "\<And>r. fst (ra_join ra (cf_ssid form) (as_bytes (cf_password form)) r)"
  shows "\<exists>f p'. handle_http_request hl bd fl ra so p = Ret (True, p') \<and>
     save_credentials_flash bd fl (form_credentials form) f = Ret (True, ps_flash p')"
proof -
  obtain s where s: "handle_http_request hl bd fl ra so p =
      answer_request hl bd fl ra so h \<lparr>rl_method = Post, rl_path = ''/connect''\<rparr> (Some host) (p\<lparr>ps_socket := s\<rparr>)"
    "input s = body"
    using handle_request_complete [OF assms(1,4,5,6,7), of hl bd fl ra] by auto
  obtain form' s' where s': "form_of_body (take (body_length v) (input s)) (replicate 128 0) = Ret form'"
    "handle_connect hl bd fl ra so h (p\<lparr>ps_socket := s\<rparr>) = submit_form hl bd fl ra so form' (p\<lparr>ps_socket := s'\<rparr>)"
    using handle_connect_eq [OF assms(1,9), of "p\<lparr>ps_socket := s\<rparr>" hl bd fl ra] by auto
  have form': "form' = Some form"
    using s'(1) s(2) assms(10,11) by simp
  have "handle_http_request hl bd fl ra so p = submit_form hl bd fl ra so (Some form) (p\<lparr>ps_socket := s'\<rparr>)"
    using s(1) s'(2) form' assms(8) by (simp add: answer_request_def)
  moreover obtain s'' where "send_page so (as_bytes ''200 OK'') TESTING_PAGE (p\<lparr>ps_socket := s'\<rparr>) = Ret (p\<lparr>ps_socket := s''\<rparr>)"
    using send_page_Ret [OF page_lengths(1), of so "as_bytes ''200 OK''" "p\<lparr>ps_socket := s'\<rparr>"] by auto
  moreover have "fst (hl_push_str hl 32 '''' (cf_ssid form)) = cf_ssid form"
    "fst (hl_push_str hl 64 '''' (cf_password form)) = cf_password form"
    "fst (hl_push_str hl 64 '''' (cf_mqtt_host form)) = cf_mqtt_host form"
    using assms(12) by (simp_all add: pushed [OF assms(2)] wf_credentials_def form_credentials_def)
  moreover obtain f p' where "handle_provision hl bd fl ra (cf_ssid form) (cf_password form) (cf_mqtt_host form)
      (cf_mqtt_port form) (p\<lparr>ps_socket := so_flush so s''\<rparr>) = Ret (True, p')"
    "save_credentials_flash bd fl (form_credentials form) f = Ret (True, ps_flash p')"
    using handle_provision_works [OF assms(2,3,12), of ra bd "p\<lparr>ps_socket := so_flush so s''\<rparr>"] assms(13)
    by (auto simp: form_credentials_def)
  ultimately show ?thesis
    by (auto simp: submit_form_def Let_def simp del: as_bytes_Cons)
qed

section \<open>The names in the form\<close>

definition ssid_name :: "bss_info \<Rightarrow> str option" where
  "ssid_name bss =
     (if bss_ssid_len bss = 0 then None
      else result_ok (from_utf8 (take (min (unat (bss_ssid_len bss)) 32) (bss_ssid bss))))"

definition first_occurrences :: "'a list \<Rightarrow> 'a list" where
  "first_occurrences xs = rev (remdups (rev xs))"

lemma first_occurrences_snoc:
  "first_occurrences (xs @ [x]) = (if x \<in> set xs then first_occurrences xs else first_occurrences xs @ [x])"
  by (simp add: first_occurrences_def)

lemma set_first_occurrences [simp]: "set (first_occurrences xs) = set xs"
  by (simp add: first_occurrences_def)

lemma add_ssid_name:
  assumes "heapless_ok hl"
  shows "add_ssid hl (take 16 (first_occurrences names)) bss =
     take 16 (first_occurrences (names @ (case ssid_name bss of Some s \<Rightarrow> [s] | None \<Rightarrow> [])))"
proof (cases "ssid_name bss")
  case None
  then show ?thesis
    by (auto simp: add_ssid_def ssid_name_def word_neq_0_conv split: result.splits if_splits)
next
  case (Some s)
  let ?acc = "first_occurrences names"
  have b: "bss_ssid_len bss > 0" "from_utf8 (take (min (unat (bss_ssid_len bss)) 32) (bss_ssid bss)) = Ok s"
    using Some by (auto simp: ssid_name_def word_neq_0_conv split: if_splits elim!: result_ok.elims)
  have "length s \<le> 32"
    using b(2) by (auto simp: from_utf8_def of_bytes_def split: if_splits)
  then have hs: "fst (hl_push_str hl 32 '''' s) = s"
    by (simp add: pushed [OF assms])
  have push: "fst (hl_push_string hl 16 xs s) = (if length xs < 16 then xs @ [s] else xs)" for xs
    using appends_fits [OF heapless_okD(8) [OF assms], of xs s 16]
      appends_full [OF heapless_okD(8) [OF assms], of 16 xs s] by auto
  show ?thesis
  proof (cases "length ?acc < 16")
    case True
    then show ?thesis
      using b Some by (simp add: add_ssid_def hs push first_occurrences_snoc)
  next
    case False
    then show ?thesis
      using b Some by (simp add: add_ssid_def hs push first_occurrences_snoc min_absorb2)
  qed
qed

lemma scan_names:
  assumes "heapless_ok hl"
  shows "foldl (add_ssid hl) (take 16 (first_occurrences names)) found =
     take 16 (first_occurrences (names @ List.map_filter ssid_name found))"
proof (induction found arbitrary: names)
  case (Cons b found)
  show ?case
    using Cons.IH [of "names @ (case ssid_name b of Some s \<Rightarrow> [s] | None \<Rightarrow> [])"]
    by (simp add: add_ssid_name [OF assms] List.map_filter_simps split: option.split_asm option.split)
qed (simp add: List.map_filter_simps)

section \<open>Properties\<close>

text \<open>C21: A request whose header block is complete within 512 bytes is answered without a panic,
  whatever it asks and whatever body follows, and when the answer is a reset of the device, the flash
  holds well-formed credentials that had just joined their network.\<close>

theorem portal_request_safe:
  assumes "stream_socket so input output" "heapless_ok hl" "complete_request h"
    and "input (ps_socket p) = h @ rest"
  shows "\<exists>resets p'. handle_http_request hl bd fl ra so p = Ret (resets, p') \<and>
     (resets \<longrightarrow> (\<exists>c. saved_by bd fl ra (ps_flash p') c))"
proof -
  note h = complete_request_block [OF assms(3)]
  obtain host where host: "header_in (as_bytes ''Host'') (tl (split_on 10 h)) = Ret host"
    using header_in_ended [OF h(2,3)] by blast
  have "handle_http_request hl bd fl ra so p \<noteq> Panic"
  proof (cases "parse_request_line (request_line_of h)")
    case (Ok req)
    then show ?thesis
      using handle_request_complete [OF assms(1,3,4) Ok host] answer_request_total [OF assms(1,2) h(2,3)]
      by metis
  next
    case (Err e)
    then show ?thesis
      using handle_request_refused [OF assms(1,3,4) Err, of hl bd fl ra] by auto
  qed
  then obtain x where "handle_http_request hl bd fl ra so p = Ret x"
    by (cases "handle_http_request hl bd fl ra so p") auto
  then show ?thesis
    using handle_http_request_saves [OF assms(2), of bd fl ra so p] by (cases x) (auto simp: rets_def)
qed

text \<open>A radio to evaluate instances with: it sees one network, and joins the one called \<open>home\<close>.\<close>

definition sample_radio :: "unit radio" where
  "sample_radio =
     \<lparr>ra_scan = (\<lambda>r. ([\<lparr>bss_ssid = as_bytes ''home'' @ replicate 28 0, bss_ssid_len = 4\<rparr>], r)),
      ra_join = (\<lambda>ssid password r. (ssid = ''home'', r)),
      ra_leave = (\<lambda>r. r), ra_close_ap = (\<lambda>r. r), ra_start_ap_open = (\<lambda>ssid channel r. r)\<rparr>"

definition sample_get :: "u8 list" where
  "sample_get = as_bytes ''GET /x HTTP/1.1'' @ CRLF @ as_bytes ''Host: a.b'' @ CRLF @ CRLF"

lemma sample_get_facts:
  "complete_request sample_get" "sample_get \<noteq> []"
  "parse_request_line (request_line_of sample_get) = Ok \<lparr>rl_method = Get, rl_path = ''/x''\<rparr>"
  "header_in (as_bytes ''Host'') (tl (split_on 10 sample_get)) = Ret (Some (as_bytes ''a.b''))"
  "\<not> starts_with AP_IP_STR (as_bytes ''a.b'')"
  unfolding complete_request_def by code_simp+

definition sample_portal :: "u8 list \<Rightarrow> (u8 list \<times> u8 list, nat \<Rightarrow> u8, unit) portal_state" where
  "sample_portal sent =
     \<lparr>ps_socket = (sent, []), ps_flash = (\<lambda>i. 0), ps_radio = (), ps_signals = []\<rparr>"

theorem portal_request_safe_witness:
  "\<exists>resets p'. handle_http_request heapless_lists Pico2w flash_array sample_radio (chunk_socket 7)
       (sample_portal sample_get) = Ret (resets, p') \<and>
     (resets \<longrightarrow> (\<exists>c. saved_by Pico2w flash_array sample_radio (ps_flash p') c))"
  by (rule portal_request_safe [OF chunk_socket_stream heapless_lists_ok sample_get_facts(1), where rest = "[]"])
    (simp add: sample_portal_def)

text \<open>C22: A request for another host than the gateway is answered with the redirection to the setup
  page, whole, and nothing but the socket changes: this is what opens the portal on a phone.\<close>

theorem portal_redirects:
  assumes "stream_socket so input output" "complete_request h" "input (ps_socket p) = h @ rest"
    and "parse_request_line (request_line_of h) = Ok req"
    and "header_in (as_bytes ''Host'') (tl (split_on 10 h)) = Ret (Some host)"
    and "\<not> starts_with AP_IP_STR host"
  shows "\<exists>s. handle_http_request hl bd fl ra so p = Ret (False, p\<lparr>ps_socket := s\<rparr>) \<and>
     output s = output (ps_socket p) @ redirect_head AP_IP_URL"
proof -
  have "take 200 (redirect_head AP_IP_URL) = redirect_head AP_IP_URL"
    by (simp add: redirect_head_def AP_IP_URL_def CRLF_def)
  then show ?thesis
    using handle_request_complete [OF assms(1-5), of hl bd fl ra] assms(6) write_stream(2) [OF assms(1)]
    by (fastforce simp: answer_request_def send_redirect_eq)
qed

theorem portal_redirects_witness:
  "\<exists>s. handle_http_request heapless_lists Pico2w flash_array sample_radio (chunk_socket 7)
       (sample_portal sample_get) = Ret (False, (sample_portal sample_get)\<lparr>ps_socket := s\<rparr>) \<and>
     snd s = redirect_head AP_IP_URL"
  using portal_redirects [OF chunk_socket_stream sample_get_facts(1) _ sample_get_facts(3-5),
      of "sample_portal sample_get" "[]" heapless_lists Pico2w flash_array sample_radio 7]
  by (simp add: sample_portal_def)

text \<open>The setup form lists the names of the scan that are not empty and valid UTF-8, each once, in
  the order they were first seen, at most 16.\<close>

theorem scan_form_names:
  assumes "heapless_ok hl"
  shows "foldl (add_ssid hl) [] found = take 16 (first_occurrences (List.map_filter ssid_name found))"
  using scan_names [OF assms, of "[]" found] by (simp add: first_occurrences_def)

theorem scan_form_names_witness:
  "foldl (add_ssid heapless_lists) [] (fst (ra_scan sample_radio ())) = [''home'']"
  using scan_form_names [OF heapless_lists_ok, of "fst (ra_scan sample_radio ())"]
    from_utf8_as_bytes [of "''home''"]
  by (simp add: sample_radio_def first_occurrences_def List.map_filter_def ssid_name_def)

end
