(* ===== verification/Handshake.thy ===== *)
theory Handshake
  imports Http
begin

text \<open>
  The WebSocket handshake of \<open>src/net.rs\<close>, \<open>ws_handshake\<close>, and its specification on the header
  block the client sends.
\<close>

section \<open>The handshake\<close>

definition ws_handshake :: "'s socket \<Rightarrow> 's \<Rightarrow> ((unit, transport_error) result \<times> 's) exec" where
  "ws_handshake so s =
     bind_exec (read_http_headers so (replicate 512 0) s) (\<lambda>(n, hdr_buf, s').
     if n = 0 then Ret (Err Disconnected, s')
     else
     bind_exec (slice hdr_buf 0 n) (\<lambda>headers.
     bind_exec (extract_header headers (as_bytes ''Upgrade'')) (\<lambda>upgrade.
     if \<not> (case upgrade of Some v \<Rightarrow> eq_ignore_ascii_case v (as_bytes ''websocket'') | None \<Rightarrow> False)
     then Ret (Err (ProtocolError ERROR_WEBSOCKET_HANDSHAKE), s')
     else
     bind_exec (extract_header headers (as_bytes ''Sec-WebSocket-Key'')) (\<lambda>key.
     case key of
       None \<Rightarrow> Ret (Err (ProtocolError ERROR_WEBSOCKET_HANDSHAKE), s')
     | Some key \<Rightarrow>
         (let key = unwrap_or key (strip_suffix [13] key);
              key = unwrap_or key (strip_suffix [byte (CHR '' '')] key)
          in
          bind_exec (compute_accept_key key (replicate 28 0)) (\<lambda>(accept_len, accept).
          bind_exec (slice accept 0 accept_len) (\<lambda>acc.
          bind_exec (push_pieces (replicate 160 0) 0
              [as_bytes ''HTTP/1.1 101 Switching Protocols'' @ CRLF,
               as_bytes ''Upgrade: websocket'' @ CRLF,
               as_bytes ''Connection: Upgrade'' @ CRLF,
               as_bytes ''Sec-WebSocket-Accept: '', acc, CRLF @ CRLF]) (\<lambda>(resp, pos).
          bind_exec (slice resp 0 pos) (\<lambda>r.
            case so_write_all so r s' of
              (Err _, s'') \<Rightarrow> Ret (Err Disconnected, s'')
            | (Ok _, s'') \<Rightarrow> Ret (Ok (), s''))))))))))"

section \<open>The specification\<close>

definition trim_key :: "u8 list \<Rightarrow> u8 list" where
  "trim_key key =
     (let key = unwrap_or key (strip_suffix [13] key)
      in unwrap_or key (strip_suffix [byte (CHR '' '')] key))"

text \<open>The accept value of RFC 6455, for a key of at most 64 bytes, and the answer that carries it.\<close>

definition accept_value :: "u8 list \<Rightarrow> u8 list" where
  "accept_value key = b64_text (sha1_digest (take 64 key @ WS_GUID))"

definition switching_protocols :: "u8 list \<Rightarrow> u8 list" where
  "switching_protocols acc =
     concat [as_bytes ''HTTP/1.1 101 Switching Protocols'' @ CRLF,
       as_bytes ''Upgrade: websocket'' @ CRLF,
       as_bytes ''Connection: Upgrade'' @ CRLF,
       as_bytes ''Sec-WebSocket-Accept: '', acc, CRLF @ CRLF]"

definition handshake_reply :: "u8 list \<Rightarrow> (u8 list, transport_error) result exec" where
  "handshake_reply block =
     (let lookup = (\<lambda>name. header_in (as_bytes name) (tl (split_on 10 block)));
          refuse = Ret (Err (ProtocolError ERROR_WEBSOCKET_HANDSHAKE))
      in
      if block = [] then Ret (Err Disconnected)
      else bind_exec (lookup ''Upgrade'') (\<lambda>upgrade.
        case upgrade of
          None \<Rightarrow> refuse
        | Some v \<Rightarrow>
            if eq_ignore_ascii_case v (as_bytes ''websocket'') then
              bind_exec (lookup ''Sec-WebSocket-Key'') (\<lambda>key.
                case key of
                  None \<Rightarrow> refuse
                | Some k \<Rightarrow> Ret (Ok (switching_protocols (accept_value (trim_key k)))))
            else refuse))"

lemma length_accept_value: "length (accept_value key) = 28"
  by (simp add: accept_value_def length_b64_text sha1_digest_def)

lemma length_switching_protocols: "length (switching_protocols (accept_value key)) = 129"
  by (simp add: switching_protocols_def length_accept_value CRLF_def)

definition sends :: "'s socket \<Rightarrow> (u8 list, transport_error) result exec \<Rightarrow> 's \<Rightarrow>
    ((unit, transport_error) result \<times> 's) exec" where
  "sends so reply s =
     bind_exec reply (\<lambda>r. case r of
       Ok text \<Rightarrow> Ret (case so_write_all so text s of (Err _, s') \<Rightarrow> (Err Disconnected, s') | (Ok _, s') \<Rightarrow> (Ok (), s'))
     | Err e \<Rightarrow> Ret (Err e, s))"

lemma ws_handshake_eq:
  assumes "read_http_headers so (replicate 512 0) s = Ret (length block, block @ pad, s')"
  shows "ws_handshake so s = sends so (handshake_reply block) s'"
proof (cases "block = []")
  case True
  then show ?thesis
    using assms by (simp add: ws_handshake_def sends_def handshake_reply_def)
next
  case False
  have sl: "slice (block @ pad) 0 (length block) = Ret block"
    by (simp add: slice_def)
  have acc: "compute_accept_key k (replicate 28 0) = Ret (28, accept_value k)"
      "slice (accept_value k) 0 28 = Ret (accept_value k)" for k
    using length_accept_value [of k] by (simp_all add: compute_accept_key_eq accept_value_def slice_def)
  have whole: "take 160 (switching_protocols (accept_value k)) = switching_protocols (accept_value k)" for k
    using length_switching_protocols [of k] by simp
  have push: "bind_exec (push_pieces (replicate 160 0) 0
         [as_bytes ''HTTP/1.1 101 Switching Protocols'' @ CRLF,
          as_bytes ''Upgrade: websocket'' @ CRLF,
          as_bytes ''Connection: Upgrade'' @ CRLF,
          as_bytes ''Sec-WebSocket-Accept: '', accept_value k, CRLF @ CRLF])
       (\<lambda>(resp, pos). bind_exec (slice resp 0 pos) f) = f (switching_protocols (accept_value k))"
    for k and f :: "u8 list \<Rightarrow> ((unit, transport_error) result \<times> 'a) exec"
    unfolding push_pieces_text unfolding switching_protocols_def [symmetric] whole ..
  let ?ls = "tl (split_on 10 block)"
  show ?thesis
  proof (cases "header_in (as_bytes ''Upgrade'') ?ls")
    case (Ret up)
    show ?thesis
    proof (cases "\<exists>v. up = Some v \<and> eq_ignore_ascii_case v (as_bytes ''websocket'')")
      case True
      then show ?thesis
        using assms False Ret
        by (cases "header_in (as_bytes ''Sec-WebSocket-Key'') ?ls"; cases "\<exists>k. header_in (as_bytes ''Sec-WebSocket-Key'') ?ls = Ret (Some k)")
          (auto simp: ws_handshake_def sends_def handshake_reply_def sl acc push extract_header_eq Let_def
            trim_key_def split: option.splits prod.split result.split simp del: as_bytes_Cons push_pieces.simps)
    next
      case refused: False
      then show ?thesis
        using assms False Ret
        by (auto simp: ws_handshake_def sends_def handshake_reply_def sl extract_header_eq Let_def
            split: option.splits simp del: as_bytes_Cons)
    qed
  next
    case Panic
    then show ?thesis
      using assms False
      by (simp add: ws_handshake_def sends_def handshake_reply_def sl extract_header_eq Let_def del: as_bytes_Cons)
  qed
qed

section \<open>Properties\<close>

lemma handshake_reply_Ret: "h \<noteq> [] \<Longrightarrow> last h = 10 \<Longrightarrow> \<exists>r. handshake_reply h = Ret r"
  using header_in_ended [of h "as_bytes ''Upgrade''"]
    header_in_ended [of h "as_bytes ''Sec-WebSocket-Key''"]
  by (auto simp: handshake_reply_def Let_def simp del: as_bytes_Cons split: option.split)

lemma sends_stream:
  assumes "stream_socket so input output"
  shows "sends so (Ret r) s = (case r of
      Ok reply \<Rightarrow> Ret (Ok (), snd (so_write_all so reply s)) | Err e \<Rightarrow> Ret (Err e, s))"
proof (cases r)
  case (Ok reply)
  then show ?thesis
    using write_stream(3) [OF assms, of reply s]
    by (cases "so_write_all so reply s") (simp add: sends_def)
qed (simp add: sends_def)

text \<open>A whole request on a connection, answered as \<open>handshake_reply\<close> says.\<close>

lemma handshake_stream:
  assumes "stream_socket so input output" "complete_request h" "input s = h @ rest"
  shows "\<exists>r s'. handshake_reply h = Ret r \<and> input s' = rest \<and>
     ws_handshake so s = Ret (case r of Ok _ \<Rightarrow> Ok () | Err e \<Rightarrow> Err e, s') \<and>
     output s' = output s @ (case r of Ok text \<Rightarrow> text | Err _ \<Rightarrow> [])"
proof -
  note h = complete_request_block [OF assms(2)]
  obtain s1 where s1: "read_http_headers so (replicate 512 0) s =
      Ret (length h, h @ replicate (512 - length h) 0, s1)" "input s1 = rest" "output s1 = output s"
    using read_http_headers_stream [OF assms(1), of 512 s] assms(3) h(1) by auto
  obtain r where r: "handshake_reply h = Ret r"
    using handshake_reply_Ret [OF h(2,3)] by blast
  show ?thesis
    using ws_handshake_eq [OF s1(1)] r s1(2,3) sends_stream [OF assms(1), of r s1]
      write_stream(1,2) [OF assms(1)] by (cases r) auto
qed


definition sample_request :: "u8 list" where
  "sample_request =
     as_bytes ''GET / HTTP/1.1'' @ CRLF @ as_bytes ''Upgrade: WebSocket'' @ CRLF @
     as_bytes ''Sec-WebSocket-Key: dGhlIHNhbXBsZSBub25jZQ=='' @ CRLF @ CRLF"

lemma sample_request_complete: "complete_request sample_request"
  unfolding complete_request_def by code_simp

lemma sample_request_reply:
  "handshake_reply sample_request =
     Ret (Ok (switching_protocols (accept_value (as_bytes ''dGhlIHNhbXBsZSBub25jZQ==''))))"
proof -
  have "header_in (as_bytes ''Upgrade'') (tl (split_on 10 sample_request)) = Ret (Some (as_bytes ''WebSocket''))"
    "header_in (as_bytes ''Sec-WebSocket-Key'') (tl (split_on 10 sample_request)) =
       Ret (Some (as_bytes ''dGhlIHNhbXBsZSBub25jZQ==''))"
    "eq_ignore_ascii_case (as_bytes ''WebSocket'') (as_bytes ''websocket'')"
    "trim_key (as_bytes ''dGhlIHNhbXBsZSBub25jZQ=='') = as_bytes ''dGhlIHNhbXBsZSBub25jZQ==''"
    "sample_request \<noteq> []"
    by code_simp+
  then show ?thesis
    by (simp add: handshake_reply_def Let_def del: as_bytes_Cons)
qed


text \<open>C19: A client can make the firmware panic before the WebSocket session: when it closes after
  some bytes without a newline, or sends 512 bytes without one, the header lookup runs past the
  block.\<close>

theorem handshake_panics:
  assumes "stream_socket so input output" "input s \<noteq> []" "10 \<notin> set (input s)"
  shows "ws_handshake so s = Panic"
proof -
  have "\<not> block_ends (take k (input s))" for k
    using assms(3) block_ends_last in_set_takeD last_in_set by metis
  then have block: "take_block 512 [] (input s) = take 512 (input s)"
    using take_block_open [of "input s" "[]" 512] by simp
  let ?h = "take 512 (input s)"
  have h: "split_on 10 ?h = [?h]" "?h \<noteq> []"
    using assms(2,3) by (auto intro!: split_on_no_sep dest: in_set_takeD)
  then have "handshake_reply ?h = Panic"
    by (simp add: handshake_reply_def Let_def)
  then show ?thesis
    using read_http_headers_stream [OF assms(1), of 512 s] ws_handshake_eq [of so s ?h]
    by (auto simp: block sends_def)
qed

theorem handshake_panics_witness:
  "ws_handshake (chunk_socket 0) (as_bytes ''GET / HTTP/1.1'', []) = Panic"
  by (rule handshake_panics [OF chunk_socket_stream]) simp_all

end
