(* ===== verification/Server.thy ===== *)
theory Server
  imports Client Handshake Led Board
begin

text \<open>
  The accept loops of \<open>src/net.rs\<close>, \<open>tcp_server\<close> and \<open>ws_server\<close>: one client at a time, waiting
  longer and longer after a failed accept, and SOS for good when too much time was lost.
\<close>

section \<open>Waiting\<close>

definition MAX_RECONNECT_SECS :: u16 where "MAX_RECONNECT_SECS = 600"

definition backoff_duration :: "u8 \<Rightarrow> nat" where
  "backoff_duration attempt =
     (if attempt = 0 then 5 else if attempt = 1 then 10 else if attempt = 2 then 20
      else if attempt = 3 then 40 else 60)"

text \<open>\<open>saturating_add\<close>.\<close>

definition saturating_add :: "'a::len word \<Rightarrow> 'a word \<Rightarrow> 'a word" where
  "saturating_add x y = (if unat x + unat y < 2 ^ LENGTH('a) then x + y else - 1)"

lemma unat_saturating_add:
  "unat (saturating_add x (y :: 'a::len word)) = min (unat x + unat y) (2 ^ LENGTH('a) - 1)"
  by (simp add: saturating_add_def unat_word_ariths unsigned_minus_1_eq_mask mask_eq_exp_minus_1)

text \<open>What a server does besides the sockets: LED signals, the power management of the radio and
  the seconds it waits.\<close>

datatype server_event = Signal led_state | PowerSave bool | WaitSecs nat

record retry =
  re_attempt :: u8
  re_offline :: u16

definition retry_start :: retry where
  "retry_start = \<lparr>re_attempt = 0, re_offline = 0\<rparr>"

text \<open>A failed accept: what happens and the next counters, none when the server gives up.\<close>

definition accept_failed :: "retry \<Rightarrow> server_event list \<times> retry option" where
  "accept_failed re =
     (let secs = backoff_duration (re_attempt re);
          offline = saturating_add (re_offline re) (of_nat secs)
      in
      if offline \<ge> MAX_RECONNECT_SECS then ([Signal Error], None)
      else ([Signal Reconnecting, WaitSecs secs],
            Some \<lparr>re_attempt = saturating_add (re_attempt re) 1, re_offline = offline\<rparr>))"

section \<open>The loop\<close>

text \<open>How a server ends: blinking SOS for ever, or in the USB bootloader.\<close>

datatype server_end = SosForever | UsbBootloader

text \<open>The loop both servers run, with \<open>session\<close> for what they do with a client; \<open>past\<close> is what has
  happened so far.\<close>

partial_function (option) accept_loop ::
  "'s socket \<Rightarrow> nat \<Rightarrow> ('s \<Rightarrow> (client_end \<times> 's) exec option) \<Rightarrow> retry \<Rightarrow> server_event list \<Rightarrow> 's \<Rightarrow>
   (server_end \<times> server_event list \<times> 's) exec option" where
  "accept_loop so port session re past s =
     (case so_accept so port s of
        (Ok _, s1) \<Rightarrow>
          bind_io (session s1) (\<lambda>(e, s2).
            case e of
              ResetToUsbBoot \<Rightarrow> Some (Ret (UsbBootloader, past @ [Signal Connected, PowerSave False], s2))
            | ClientGone \<Rightarrow>
                accept_loop so port session retry_start
                  (past @ [Signal Connected, PowerSave False, PowerSave True]) s2)
      | (Err _, s1) \<Rightarrow>
          (case accept_failed re of
             (events, None) \<Rightarrow> Some (Ret (SosForever, past @ Signal Connected # events, so_abort so s1))
           | (events, Some re') \<Rightarrow>
               accept_loop so port session re' (past @ Signal Connected # events) (so_abort so s1)))"

definition tcp_session ::
  "heapless \<Rightarrow> from_slice \<Rightarrow> to_slice \<Rightarrow> 's socket \<Rightarrow> str \<Rightarrow> str \<Rightarrow> 's \<Rightarrow> (client_end \<times> 's) exec option" where
  "tcp_session hl from_slice to_slice so config_ssid config_ip s =
     bind_io (handle_client hl from_slice to_slice (tcp_transport so) config_ssid config_ip
         (tcp_transport_new s))
       (\<lambda>(e, st, t). Some (Ret (e, tt_socket t)))"

definition tcp_server ::
  "heapless \<Rightarrow> from_slice \<Rightarrow> to_slice \<Rightarrow> 's socket \<Rightarrow> str \<Rightarrow> str \<Rightarrow> 's \<Rightarrow>
   (server_end \<times> server_event list \<times> 's) exec option" where
  "tcp_server hl from_slice to_slice so config_ssid config_ip s =
     accept_loop so (unat TCP_PORT) (tcp_session hl from_slice to_slice so config_ssid config_ip)
       retry_start [] s"

definition ws_session ::
  "heapless \<Rightarrow> from_slice \<Rightarrow> to_slice \<Rightarrow> 's socket \<Rightarrow> str \<Rightarrow> str \<Rightarrow> 's \<Rightarrow> (client_end \<times> 's) exec option" where
  "ws_session hl from_slice to_slice so config_ssid config_ip s =
     bind_io (Some (ws_handshake so s)) (\<lambda>(r, s1).
       bind_io
         (case r of
            Ok _ \<Rightarrow>
              bind_io (handle_client hl from_slice to_slice (ws_transport so) config_ssid config_ip s1)
                (\<lambda>(e, st, s2). Some (Ret (e, s2)))
          | Err _ \<Rightarrow> Some (Ret (ClientGone, s1)))
         (\<lambda>(e, s2).
            case e of
              ClientGone \<Rightarrow> Some (Ret (ClientGone, so_abort so s2))
            | ResetToUsbBoot \<Rightarrow> Some (Ret (ResetToUsbBoot, s2))))"

definition ws_server ::
  "heapless \<Rightarrow> from_slice \<Rightarrow> to_slice \<Rightarrow> 's socket \<Rightarrow> str \<Rightarrow> str \<Rightarrow> 's \<Rightarrow>
   (server_end \<times> server_event list \<times> 's) exec option" where
  "ws_server hl from_slice to_slice so config_ssid config_ip s =
     accept_loop so (unat WS_PORT) (ws_session hl from_slice to_slice so config_ssid config_ip)
       retry_start [] s"

section \<open>Giving up\<close>

text \<open>The counters after \<open>k\<close> failures in a row.\<close>

fun failures :: "nat \<Rightarrow> retry \<Rightarrow> server_event list \<times> retry option" where
  "failures 0 re = ([], Some re)"
| "failures (Suc k) re =
     (case accept_failed re of
        (events, None) \<Rightarrow> (Signal Connected # events, None)
      | (events, Some re') \<Rightarrow>
          (case failures k re' of (es, r) \<Rightarrow> (Signal Connected # events @ es, r)))"

fun waited :: "server_event list \<Rightarrow> nat" where
  "waited [] = 0"
| "waited (WaitSecs n # es) = n + waited es"
| "waited (_ # es) = waited es"

lemma accept_loop_failures:
  assumes "\<And>s. fst (so_accept so port s) = Err ()" "failures k re = (es, None)"
  shows "\<exists>s'. accept_loop so port session re past s = Some (Ret (SosForever, past @ es, s'))"
  using assms(2)
proof (induction k arbitrary: re es past s)
  case (Suc k)
  obtain s1 where s1: "so_accept so port s = (Err (), s1)"
    using assms(1) [of s] by (cases "so_accept so port s") simp
  obtain events re' where f: "accept_failed re = (events, re')"
    by (cases "accept_failed re")
  show ?case
  proof (cases re')
    case None
    then show ?thesis
      using Suc.prems s1 f by (subst accept_loop.simps) simp
  next
    case (Some r)
    then obtain es' where es': "failures k r = (es', None)" "es = Signal Connected # events @ es'"
      using Suc.prems f by (auto split: prod.splits)
    have "accept_loop so port session re past s =
        accept_loop so port session r (past @ Signal Connected # events) (so_abort so s1)"
      by (subst accept_loop.simps) (simp add: s1 f Some)
    then show ?thesis
      using Suc.IH [OF es'(1), of "past @ Signal Connected # events" "so_abort so s1"] es'(2) by simp
  qed
qed simp

lemma failures_numeral:
  "failures (numeral n) re =
     (case accept_failed re of
        (events, None) \<Rightarrow> (Signal Connected # events, None)
      | (events, Some re') \<Rightarrow>
          (case failures (pred_numeral n) re' of (es, r) \<Rightarrow> (Signal Connected # events @ es, r)))"
  by (simp add: numeral_eq_Suc)

text \<open>The failures one by one.\<close>

lemma accept_failed_steps:
  "accept_failed \<lparr>re_attempt = 0, re_offline = 0\<rparr> = ([Signal Reconnecting, WaitSecs 5], Some \<lparr>re_attempt = 1, re_offline = 5\<rparr>)"
  "accept_failed \<lparr>re_attempt = 1, re_offline = 5\<rparr> = ([Signal Reconnecting, WaitSecs 10], Some \<lparr>re_attempt = 2, re_offline = 15\<rparr>)"
  "accept_failed \<lparr>re_attempt = 2, re_offline = 15\<rparr> = ([Signal Reconnecting, WaitSecs 20], Some \<lparr>re_attempt = 3, re_offline = 35\<rparr>)"
  "accept_failed \<lparr>re_attempt = 3, re_offline = 35\<rparr> = ([Signal Reconnecting, WaitSecs 40], Some \<lparr>re_attempt = 4, re_offline = 75\<rparr>)"
  "accept_failed \<lparr>re_attempt = 4, re_offline = 75\<rparr> = ([Signal Reconnecting, WaitSecs 60], Some \<lparr>re_attempt = 5, re_offline = 135\<rparr>)"
  "accept_failed \<lparr>re_attempt = 5, re_offline = 135\<rparr> = ([Signal Reconnecting, WaitSecs 60], Some \<lparr>re_attempt = 6, re_offline = 195\<rparr>)"
  "accept_failed \<lparr>re_attempt = 6, re_offline = 195\<rparr> = ([Signal Reconnecting, WaitSecs 60], Some \<lparr>re_attempt = 7, re_offline = 255\<rparr>)"
  "accept_failed \<lparr>re_attempt = 7, re_offline = 255\<rparr> = ([Signal Reconnecting, WaitSecs 60], Some \<lparr>re_attempt = 8, re_offline = 315\<rparr>)"
  "accept_failed \<lparr>re_attempt = 8, re_offline = 315\<rparr> = ([Signal Reconnecting, WaitSecs 60], Some \<lparr>re_attempt = 9, re_offline = 375\<rparr>)"
  "accept_failed \<lparr>re_attempt = 9, re_offline = 375\<rparr> = ([Signal Reconnecting, WaitSecs 60], Some \<lparr>re_attempt = 10, re_offline = 435\<rparr>)"
  "accept_failed \<lparr>re_attempt = 10, re_offline = 435\<rparr> = ([Signal Reconnecting, WaitSecs 60], Some \<lparr>re_attempt = 11, re_offline = 495\<rparr>)"
  "accept_failed \<lparr>re_attempt = 11, re_offline = 495\<rparr> = ([Signal Reconnecting, WaitSecs 60], Some \<lparr>re_attempt = 12, re_offline = 555\<rparr>)"
  "accept_failed \<lparr>re_attempt = 12, re_offline = 555\<rparr> = ([Signal Error], None)"
  by (simp_all add: accept_failed_def backoff_duration_def saturating_add_def MAX_RECONNECT_SECS_def)

lemma thirteen_failures:
  "snd (failures 12 retry_start) \<noteq> None" "snd (failures 13 retry_start) = None"
  "waited (fst (failures 13 retry_start)) = 555" "last (fst (failures 13 retry_start)) = Signal Error"
  by (simp_all add: failures_numeral retry_start_def accept_failed_steps)

text \<open>C24: When no client can be accepted any more, a server gives up, at the thirteenth failure in a
  row and not before, after waiting 555 seconds in all, and its last signal is the SOS pattern.\<close>

theorem server_gives_up:
  assumes "\<And>s. fst (so_accept so (unat TCP_PORT) s) = Err ()"
  shows "\<exists>events s'. tcp_server hl from_slice to_slice so ssid ip s = Some (Ret (SosForever, events, s')) \<and>
     events = fst (failures 13 retry_start) \<and> snd (failures 12 retry_start) \<noteq> None \<and>
     waited events = 555 \<and> last events = Signal Error"
proof -
  have "failures 13 retry_start = (fst (failures 13 retry_start), None)"
    using thirteen_failures(2) by (metis prod.collapse)
  from accept_loop_failures [OF assms this, of "tcp_session hl from_slice to_slice so ssid ip" "[]" s]
  show ?thesis
    using thirteen_failures by (auto simp: tcp_server_def)
qed

theorem server_gives_up_witness:
  "\<exists>events s'. tcp_server heapless_lists sample_from_slice sample_to_slice
       ((chunk_socket 0)\<lparr>so_accept := \<lambda>port s. (Err (), s)\<rparr>) ''home'' ''10.0.0.7'' ([], []) =
       Some (Ret (SosForever, events, s')) \<and> waited events = 555"
  using server_gives_up [of "(chunk_socket 0)\<lparr>so_accept := \<lambda>port s. (Err (), s)\<rparr>" heapless_lists
      sample_from_slice sample_to_slice "''home''" "''10.0.0.7''" "([], [])"]
  by auto

text \<open>C3: A whole WebSocket connection, from the request to the end. When a client sends a complete upgrade
  request and then any sequence of frames of at most 1024 bytes, however both are cut into reads, the server
  writes the 101 answer of the request and then, on a session of its own, exactly what the specification of
  the frames says: nothing is lost between the handshake and the first frame. The session ends as the
  specification ends, a reset of the device included.\<close>

theorem ws_session_served:
  assumes "stream_socket so input output" "heapless_ok hl" "to_slice_ok json to_slice"
    and "complete_request h" "handshake_reply h = Ret (Ok upgraded)"
    and "input s = h @ concat (map frame_wire fs)" "list_all frame_ok fs"
  shows "\<exists>m. ws_session hl from_slice to_slice so ssid ip s = Some m \<and>
     (case serve hl from_slice json server_frame (fst (ws_script [] fs)) (snd (ws_script [] fs))
             (client_state ssid ip) of
        Panic \<Rightarrow> m = Panic
      | Ret (bs, e, st) \<Rightarrow> \<exists>s'. m = Ret (e, s') \<and> output s' = output s @ upgraded @ bs)"
proof -
  obtain s1 where s1: "ws_handshake so s = Ret (Ok (), s1)" "input s1 = concat (map frame_wire fs)"
    "output s1 = output s @ upgraded"
    using handshake_stream [OF assms(1,4,6)] assms(5) by auto
  have "ws_delivers so input output s1 (fst (ws_script [] fs)) (snd (ws_script [] fs))"
    using assms(1,7) s1(2) by (auto simp: ws_delivers_def)
  then obtain m where m: "handle_client hl from_slice to_slice (ws_transport so) ssid ip s1 = Some m"
    "outcome_is (output s1) output m (serve hl from_slice json server_frame (fst (ws_script [] fs))
       (snd (ws_script [] fs)) (client_state ssid ip))"
    unfolding handle_client_def
    using ws_source.client_loop_serves [OF assms(2,3), of so "input" "output"] by (metis length_replicate)
  show ?thesis
  proof (cases m)
    case Panic
    then show ?thesis
      using m s1(1) by (auto simp: ws_session_def outcome_is_def split: exec.splits)
  next
    case (Ret x)
    obtain e st s2 where x: "x = (e, st, s2)"
      by (cases x)
    obtain bs where "serve hl from_slice json server_frame (fst (ws_script [] fs)) (snd (ws_script [] fs))
        (client_state ssid ip) = Ret (bs, e, st)" "output s2 = output s1 @ bs"
      using m(2) Ret x by (auto simp: outcome_is_def split: exec.splits)
    then show ?thesis
      using m(1) Ret x s1(1,3) stream_socketD(3) [OF assms(1)]
      by (cases e) (simp_all add: ws_session_def)
  qed
qed

theorem ws_session_served_witness:
  "\<exists>s'. ws_session heapless_lists sample_from_slice sample_to_slice (chunk_socket 2) ''home'' ''10.0.0.7''
       (sample_request @ frame_wire (0x89, [5, 6, 7, 8], [9]) @ frame_wire (0x88, [0, 0, 0, 0], []), []) =
       Some (Ret (ClientGone, s')) \<and>
     snd s' = switching_protocols (accept_value (as_bytes ''dGhlIHNhbXBsZSBub25jZQ=='')) @ [0x8A, 1, 9, 0x88, 0x00]"
proof -
  let ?fs = "[(0x89, [5, 6, 7, 8], [9]), (0x88, [0, 0, 0, 0], [])] :: ws_frame list"
  have "list_all frame_ok ?fs"
    by (simp add: limit_defs)
  moreover have "ws_script [] ?fs = ([], [0x8A, 1, 9, 0x88, 0x00])"
    by (simp add: opcode_defs pong_of_def)
  ultimately show ?thesis
    using ws_session_served [OF chunk_socket_stream heapless_lists_ok sample_to_slice_ok sample_request_complete
        sample_request_reply, of "(sample_request @ concat (map frame_wire ?fs), [])" ?fs sample_from_slice 2
        "''home''" "''10.0.0.7''"]
    by (auto simp del: frame_wire.simps ws_script.simps as_bytes_Cons)
qed

end
