(* ===== verification/Mqtt.thy ===== *)
theory Mqtt
  imports Server Portal
begin

text \<open>
  \<open>src/mqtt.rs\<close> and \<open>mqtt_client\<close> of \<open>src/net.rs\<close>. The MQTT protocol belongs to the crate
  \<open>rust_mqtt\<close>: the broker's operations are an argument.
\<close>

section \<open>Names (mqtt.rs)\<close>

text \<open>\<open>mac\<close> is an array of six bytes.\<close>

definition cmd_topic :: "heapless \<Rightarrow> u8 list \<Rightarrow> str" where
  "cmd_topic hl mac =
     fst (write_pieces hl 32 '''' [''pico/'', fmt_02x False (mac ! 4), fmt_02x False (mac ! 5), ''/cmd''])"

definition resp_topic :: "heapless \<Rightarrow> u8 list \<Rightarrow> str" where
  "resp_topic hl mac =
     fst (write_pieces hl 32 '''' [''pico/'', fmt_02x False (mac ! 4), fmt_02x False (mac ! 5), ''/resp''])"

definition client_id :: "heapless \<Rightarrow> u8 list \<Rightarrow> str" where
  "client_id hl mac =
     fst (write_pieces hl 16 '''' [''pico-'', fmt_02x False (mac ! 4), fmt_02x False (mac ! 5)])"

definition backoff_secs :: "u8 \<Rightarrow> u16" where
  "backoff_secs attempt =
     (if attempt = 0 then 5 else if attempt = 1 then 10 else if attempt = 2 then 20
      else if attempt = 3 then 40 else 60)"

section \<open>Addresses\<close>

text \<open>\<open>s.parse::<Ipv4Addr>()\<close>: four decimal numbers of at most three digits below 256, without a
  leading zero, separated by dots.\<close>

definition parse_octet :: "str \<Rightarrow> u8 option" where
  "parse_octet s =
     (if s = [] \<or> length s > 3 \<or> (length s > 1 \<and> hd s = CHR ''0'') then None
      else map_option of_nat (parse_digits 256 0 s))"

definition parse_ipv4 :: "str \<Rightarrow> u8 list option" where
  "parse_ipv4 s =
     (case map parse_octet (split_on (CHR ''.'') s) of
        [Some a, Some b, Some c, Some d] \<Rightarrow> Some [a, b, c, d]
      | _ \<Rightarrow> None)"

section \<open>The broker\<close>

datatype mqtt_event = Publish "u8 list" | Suback | Pingresp | OtherEvent

text \<open>\<open>mb_open\<close> is the TCP connection, \<open>mb_connect\<close> the CONNECT of a client.\<close>

record 'm broker =
  mb_open :: "u8 list \<Rightarrow> u16 \<Rightarrow> 'm \<Rightarrow> (unit, unit) result \<times> 'm"
  mb_connect :: "str \<Rightarrow> 'm \<Rightarrow> (unit, unit) result \<times> 'm"
  mb_subscribe :: "str \<Rightarrow> 'm \<Rightarrow> (unit, unit) result \<times> 'm"
  mb_poll :: "'m \<Rightarrow> (mqtt_event, unit) result \<times> 'm"
  mb_publish :: "str \<Rightarrow> u8 list \<Rightarrow> 'm \<Rightarrow> (unit, unit) result \<times> 'm"

section \<open>The message loop\<close>

text \<open>Serialise into a fresh buffer and publish; whether the loop goes on.\<close>

definition publish_response ::
  "to_slice \<Rightarrow> 'm broker \<Rightarrow> str \<Rightarrow> response \<Rightarrow> 'm \<Rightarrow> (bool \<times> 'm) exec" where
  "publish_response to_slice mb topic resp m =
     bind_exec (serialize_response to_slice resp (replicate MAX_MSG_LEN 0)) (\<lambda>(r, resp_buf).
       case r of
         Err _ \<Rightarrow> Ret (True, m)
       | Ok n \<Rightarrow>
           bind_exec (slice resp_buf 0 n) (\<lambda>line.
             Ret (case mb_publish mb topic line m of (Ok _, m') \<Rightarrow> (True, m') | (Err _, m') \<Rightarrow> (False, m'))))"

partial_function (option) mqtt_messages ::
  "heapless \<Rightarrow> from_slice \<Rightarrow> to_slice \<Rightarrow> 'm broker \<Rightarrow> str \<Rightarrow> device_state \<Rightarrow> 'm \<Rightarrow>
   (device_state \<times> 'm) exec option" where
  "mqtt_messages hl from_slice to_slice mb topic st m =
     (case mb_poll mb m of
        (Err _, m1) \<Rightarrow> Some (Ret (st, m1))
      | (Ok event, m1) \<Rightarrow>
          (case event of
             Publish payload \<Rightarrow>
               bind_io (Some (answer_frame hl from_slice payload st)) (\<lambda>(resp, st').
               bind_io (Some (publish_response to_slice mb topic resp m1)) (\<lambda>(more_messages, m2).
                 if \<not> more_messages then Some (Ret (st', m2))
                 else if ds_pending_reboot st' then Some (Ret (st', m2))
                 else mqtt_messages hl from_slice to_slice mb topic st' m2))
           | Suback \<Rightarrow> mqtt_messages hl from_slice to_slice mb topic st m1
           | Pingresp \<Rightarrow> mqtt_messages hl from_slice to_slice mb topic st m1
           | OtherEvent \<Rightarrow> mqtt_messages hl from_slice to_slice mb topic st m1))"

definition mqtt_state :: "heapless \<Rightarrow> credentials \<Rightarrow> str \<Rightarrow> device_state" where
  "mqtt_state hl creds config_ip =
     (let st = device_state_default True in
      st\<lparr>ds_config_ssid := fst (hl_push_str hl 32 (ds_config_ssid st) (cr_ssid creds)),
         ds_config_ip := fst (hl_push_str hl 16 (ds_config_ip st) config_ip),
         ds_config_connected := True,
         ds_config_mqtt := Some (fst (hl_push_str hl 64 '''' (cr_mqtt_host creds)), cr_mqtt_port creds)\<rparr>)"

section \<open>The connection loop\<close>

text \<open>One round: the number of failed attempts for the next one, and what happened.\<close>

definition mqtt_backoff :: "u8 \<Rightarrow> server_event list \<Rightarrow> 'm \<Rightarrow> (u8 \<times> server_event list \<times> 'm) exec option" where
  "mqtt_backoff attempt events m =
     Some (Ret (saturating_add attempt 1,
       events @ [Signal Reconnecting, WaitSecs (unat (backoff_secs attempt))], m))"

definition mqtt_round ::
  "heapless \<Rightarrow> from_slice \<Rightarrow> to_slice \<Rightarrow> 'm broker \<Rightarrow> u8 list \<Rightarrow> credentials \<Rightarrow> str \<Rightarrow> u8 \<Rightarrow> 'm \<Rightarrow>
   (u8 \<times> server_event list \<times> 'm) exec option" where
  "mqtt_round hl from_slice to_slice mb mac creds config_ip attempt m =
     (case parse_ipv4 (cr_mqtt_host creds) of
        None \<Rightarrow> Some (Ret (attempt, [Signal MqttConnecting, Signal Error, WaitSecs 60], m))
      | Some addr \<Rightarrow>
     (case mb_open mb addr (cr_mqtt_port creds) m of
        (Err _, m1) \<Rightarrow> mqtt_backoff attempt [Signal MqttConnecting] m1
      | (Ok _, m1) \<Rightarrow>
     (case mb_connect mb (client_id hl mac) m1 of
        (Err _, m2) \<Rightarrow> mqtt_backoff attempt [Signal MqttConnecting] m2
      | (Ok _, m2) \<Rightarrow>
     (case mb_subscribe mb (cmd_topic hl mac) m2 of
        (Err _, m3) \<Rightarrow> mqtt_backoff attempt [Signal MqttConnecting] m3
      | (Ok _, m3) \<Rightarrow>
     (case mb_poll mb m3 of
        (Ok Suback, m4) \<Rightarrow>
          bind_io (mqtt_messages hl from_slice to_slice mb (resp_topic hl mac)
              (mqtt_state hl creds config_ip) m4)
            (\<lambda>(st, m5). Some (Ret (0, [Signal MqttConnecting, Signal MqttConnected], m5)))
      | (_, m4) \<Rightarrow> Some (Ret (attempt, [Signal MqttConnecting], m4)))))))"

text \<open>The task does not return: it runs round after round, and with no broker it only waits.\<close>

partial_function (option) mqtt_rounds ::
  "(u8 \<Rightarrow> 'm \<Rightarrow> (u8 \<times> server_event list \<times> 'm) exec option) \<Rightarrow> u8 \<Rightarrow> 'm \<Rightarrow> unit exec option" where
  "mqtt_rounds round_of attempt m =
     bind_io (round_of attempt m) (\<lambda>(attempt', events, m'). mqtt_rounds round_of attempt' m')"

definition mqtt_client ::
  "heapless \<Rightarrow> from_slice \<Rightarrow> to_slice \<Rightarrow> 'm broker \<Rightarrow> u8 list \<Rightarrow> credentials \<Rightarrow> str \<Rightarrow> 'm \<Rightarrow>
   unit exec option" where
  "mqtt_client hl from_slice to_slice mb mac creds config_ip m =
     (if cr_mqtt_host creds = '''' then None
      else mqtt_rounds (mqtt_round hl from_slice to_slice mb mac creds config_ip) 0 m)"

section \<open>The specification\<close>

text \<open>
  A broker connection with \<open>events m\<close> still to come and then an error, which takes what is
  published; \<open>published m\<close> is what was published so far.
\<close>

definition stream_broker :: "'m broker \<Rightarrow> ('m \<Rightarrow> mqtt_event list) \<Rightarrow> ('m \<Rightarrow> u8 list) \<Rightarrow> bool" where
  "stream_broker mb events published \<longleftrightarrow>
     (\<forall>m. \<exists>m'. published m' = published m \<and>
        (case events m of
           [] \<Rightarrow> mb_poll mb m = (Err (), m')
         | e # es \<Rightarrow> mb_poll mb m = (Ok e, m') \<and> events m' = es)) \<and>
     (\<forall>topic bs m. \<exists>m'. mb_publish mb topic bs m = (Ok (), m') \<and> events m' = events m \<and>
        published m' = published m @ bs)"

lemma stream_brokerD:
  assumes "stream_broker mb events published"
  shows "events m = [] \<Longrightarrow> \<exists>m'. mb_poll mb m = (Err (), m') \<and> published m' = published m"
    and "events m = e # es \<Longrightarrow>
           \<exists>m'. mb_poll mb m = (Ok e, m') \<and> events m' = es \<and> published m' = published m"
    and "\<exists>m'. mb_publish mb topic bs m = (Ok (), m') \<and> events m' = events m \<and>
           published m' = published m @ bs"
proof -
  have poll: "\<exists>m'. published m' = published m \<and>
        (case events m of
           [] \<Rightarrow> mb_poll mb m = (Err (), m')
         | e # es \<Rightarrow> mb_poll mb m = (Ok e, m') \<and> events m' = es)"
    using assms unfolding stream_broker_def by blast
  show "events m = [] \<Longrightarrow> \<exists>m'. mb_poll mb m = (Err (), m') \<and> published m' = published m"
    using poll by auto
  show "events m = e # es \<Longrightarrow>
      \<exists>m'. mb_poll mb m = (Ok e, m') \<and> events m' = es \<and> published m' = published m"
    using poll by auto
  show "\<exists>m'. mb_publish mb topic bs m = (Ok (), m') \<and> events m' = events m \<and> published m' = published m @ bs"
    using assms unfolding stream_broker_def by blast
qed

fun commands_of :: "mqtt_event list \<Rightarrow> delivery list" where
  "commands_of [] = []"
| "commands_of (Publish payload # es) = ([], Ok payload) # commands_of es"
| "commands_of (_ # es) = commands_of es"

lemma publish_response_stream:
  assumes "stream_broker mb events published" "to_slice_ok json to_slice" "response_fits r"
  shows "\<exists>m'. publish_response to_slice mb topic r m = Ret (True, m') \<and> events m' = events m \<and>
     published m' = published m @ put_line (\<lambda>l. l) (reply json r)"
proof -
  obtain res buf where s: "serialize_response to_slice r (replicate MAX_MSG_LEN 0) = Ret (res, buf)"
    "length buf = MAX_MSG_LEN"
    "case reply json r of
       Some line \<Rightarrow> res = Ok (length line) \<and> length line \<le> MAX_MSG_LEN \<and> take (length line) buf = line
     | None \<Rightarrow> \<exists>e. res = Err e"
    using serialize_reply [OF assms(2,3), of "replicate MAX_MSG_LEN 0"] by auto
  show ?thesis
  proof (cases "reply json r")
    case None
    then show ?thesis
      using s by (auto simp: publish_response_def put_line_def)
  next
    case (Some line)
    obtain m' where "mb_publish mb topic line m = (Ok (), m')" "events m' = events m"
      "published m' = published m @ line"
      using stream_brokerD(3) [OF assms(1)] by blast
    then show ?thesis
      using s Some by (simp add: publish_response_def put_line_def slice_def)
  qed
qed

text \<open>An outcome of the message loop that is the specified one.\<close>

definition messages_are ::
  "u8 list \<Rightarrow> ('m \<Rightarrow> u8 list) \<Rightarrow> (device_state \<times> 'm) exec \<Rightarrow> (u8 list \<times> client_end \<times> device_state) exec \<Rightarrow> bool"
where
  "messages_are o0 published r spec \<longleftrightarrow>
     (case (r, spec) of
        (Ret (st, m), Ret (bs, e, st')) \<Rightarrow> st = st' \<and> published m = o0 @ bs
      | (Panic, Panic) \<Rightarrow> True
      | _ \<Rightarrow> False)"

lemma messages_are_simps [simp]:
  "messages_are o0 published (Ret (st, m)) (Ret (bs, e, st')) \<longleftrightarrow> st = st' \<and> published m = o0 @ bs"
  "messages_are o0 published Panic Panic" "\<not> messages_are o0 published Panic (Ret x)"
  by (simp_all add: messages_are_def)

lemma messages_are_prepend:
  "messages_are (o0 @ bs) published r spec \<Longrightarrow> messages_are o0 published r (prepend bs spec)"
  by (cases r; cases spec) (auto simp: messages_are_def prepend_def split: prod.splits)

lemma mqtt_messages_serve:
  assumes "stream_broker mb events published" "heapless_ok hl" "to_slice_ok json to_slice"
  shows "\<exists>r. mqtt_messages hl from_slice to_slice mb topic st m = Some r \<and>
     messages_are (published m) published r
       (serve hl from_slice json (\<lambda>l. l) (commands_of (events m)) [] st)"
proof (induction "events m" arbitrary: m st)
  case Nil
  obtain m' where "mb_poll mb m = (Err (), m')" "published m' = published m"
    using stream_brokerD(1) [OF assms(1)] Nil by metis
  then show ?case
    using Nil by (subst mqtt_messages.simps) (simp flip: Nil)
next
  case (Cons e es)
  obtain m1 where m1: "mb_poll mb m = (Ok e, m1)" "events m1 = es" "published m1 = published m"
    using stream_brokerD(2) [OF assms(1) Cons.hyps(2) [symmetric]] by blast
  show ?case
  proof (cases e)
    case (Publish payload)
    show ?thesis
    proof (cases "answer_frame hl from_slice payload st")
      case Panic
      then show ?thesis
        using m1(1) Publish by (subst mqtt_messages.simps) (simp flip: Cons.hyps(2))
    next
      case (Ret a)
      then obtain resp st' where a: "answer_frame hl from_slice payload st = Ret (resp, st')"
        by (cases a) auto
      obtain m2 where m2: "publish_response to_slice mb topic resp m1 = Ret (True, m2)"
        "events m2 = es" "published m2 = published m @ put_line (\<lambda>l. l) (reply json resp)"
        using publish_response_stream [OF assms(1,3) answer_frame_fits [OF assms(2) a]] m1 by metis
      have loop: "mqtt_messages hl from_slice to_slice mb topic st m =
          (if ds_pending_reboot st' then Some (Ret (st', m2))
           else mqtt_messages hl from_slice to_slice mb topic st' m2)"
        by (subst mqtt_messages.simps) (simp add: m1(1) Publish a m2(1))
      show ?thesis
        using Cons.hyps(1) [of m2 st'] m2 loop Publish a
        by (auto simp flip: Cons.hyps(2) intro!: messages_are_prepend)
    qed
  qed (use m1 Cons.hyps(1) [of m1 st] in
      \<open>subst mqtt_messages.simps, simp flip: Cons.hyps(2)\<close>)+
qed

section \<open>Names of two devices\<close>

lemma hex_digit_inject: "m < 16 \<Longrightarrow> n < 16 \<Longrightarrow> hex_digit False m = hex_digit False n \<longleftrightarrow> m = n"
proof -
  have "(of_char (hex_digit False k) :: nat) = (if k < 10 then 48 + k else 87 + k)" if "k < 16" for k
    using that by (simp add: hex_digit_def)
  note code = this
  assume b: "m < 16" "n < 16"
  show ?thesis
  proof
    assume "hex_digit False m = hex_digit False n"
    then have "(if m < 10 then 48 + m else 87 + m) = (if n < 10 then 48 + n else 87 + n)"
      using code [OF b(1)] code [OF b(2)] by simp
    then show "m = n"
      by (simp split: if_splits)
  qed simp
qed

lemma fmt_02x_inject: "fmt_02x False a = fmt_02x False b \<longleftrightarrow> a = b"
proof -
  have "unat x div 16 < 16" for x :: u8
    using unat_u8_less [of x] by (simp add: div_less_iff_less_mult)
  then have "fmt_02x False a = fmt_02x False b \<longleftrightarrow>
      unat a div 16 = unat b div 16 \<and> unat a mod 16 = unat b mod 16"
    by (simp add: fmt_02x_def hex_digit_inject)
  also have "\<dots> \<longleftrightarrow> unat a = unat b"
    by (metis div_mult_mod_eq)
  finally show ?thesis
    by (simp add: word_unat_eq_iff)
qed

lemma topic_eqs:
  assumes "heapless_ok hl"
  shows "cmd_topic hl mac = ''pico/'' @ fmt_02x False (mac ! 4) @ fmt_02x False (mac ! 5) @ ''/cmd''"
    and "resp_topic hl mac = ''pico/'' @ fmt_02x False (mac ! 4) @ fmt_02x False (mac ! 5) @ ''/resp''"
    and "client_id hl mac = ''pico-'' @ fmt_02x False (mac ! 4) @ fmt_02x False (mac ! 5)"
  using assms
  by (simp_all add: cmd_topic_def resp_topic_def client_id_def write_pieces_fits del: write_pieces.simps)

section \<open>Properties\<close>

text \<open>Two devices share a command topic, a response topic or a client identifier exactly when the
  last two bytes of their addresses agree, and no device listens where another answers.\<close>

theorem mqtt_names_distinguish:
  assumes "heapless_ok hl"
  shows "(cmd_topic hl mac = cmd_topic hl mac' \<longleftrightarrow> mac ! 4 = mac' ! 4 \<and> mac ! 5 = mac' ! 5) \<and>
     (resp_topic hl mac = resp_topic hl mac' \<longleftrightarrow> mac ! 4 = mac' ! 4 \<and> mac ! 5 = mac' ! 5) \<and>
     (client_id hl mac = client_id hl mac' \<longleftrightarrow> mac ! 4 = mac' ! 4 \<and> mac ! 5 = mac' ! 5) \<and>
     cmd_topic hl mac \<noteq> resp_topic hl mac'"
  by (simp add: topic_eqs [OF assms] fmt_02x_inject)

theorem mqtt_names_distinguish_witness:
  "cmd_topic heapless_lists [0, 1, 2, 3, 0xAB, 5] \<noteq> cmd_topic heapless_lists [0, 1, 2, 3, 0xAB, 6]"
  using mqtt_names_distinguish [OF heapless_lists_ok, of "[0, 1, 2, 3, 0xAB, 5]" "[0, 1, 2, 3, 0xAB, 6]"]
  by simp

text \<open>C25: The message loop ends when the connection does, and what it has published is the specification
  of the messages that came: each is answered once and in order, on one session, other events are
  skipped, and after a \<open>reboot_to_bootloader\<close> the loop ends with the answer already published.\<close>

theorem mqtt_session_served:
  assumes "stream_broker mb events published" "heapless_ok hl" "to_slice_ok json to_slice"
  shows "\<exists>r. mqtt_messages hl from_slice to_slice mb topic st m = Some r \<and>
     messages_are (published m) published r
       (serve hl from_slice json (\<lambda>l. l) (commands_of (events m)) [] st)"
  by (rule mqtt_messages_serve [OF assms])

text \<open>A broker as the events to come and the bytes published.\<close>

definition list_broker :: "(mqtt_event list \<times> u8 list) broker" where
  "list_broker =
     \<lparr>mb_open = (\<lambda>addr port m. (Ok (), m)), mb_connect = (\<lambda>name m. (Ok (), m)),
      mb_subscribe = (\<lambda>topic m. (Ok (), m)),
      mb_poll = (\<lambda>(es, out). case es of [] \<Rightarrow> (Err (), (es, out)) | e # r \<Rightarrow> (Ok e, (r, out))),
      mb_publish = (\<lambda>topic bs (es, out). (Ok (), (es, out @ bs)))\<rparr>"

lemma list_broker_stream: "stream_broker list_broker fst snd"
proof -
  have "\<exists>m'. snd m' = snd m \<and>
      (case fst m of
         [] \<Rightarrow> mb_poll list_broker m = (Err (), m')
       | e # es \<Rightarrow> mb_poll list_broker m = (Ok e, m') \<and> fst m' = es)" for m
    by (cases m; cases "fst m") (simp_all add: list_broker_def)
  then show ?thesis
    by (auto simp: stream_broker_def) (auto simp: list_broker_def)
qed

theorem mqtt_session_served_witness:
  "\<exists>st m. mqtt_messages heapless_lists sample_from_slice sample_to_slice list_broker ''t''
       (device_state_default True) ([Pingresp, Publish [33], Publish [82], Publish [82]], []) =
       Some (Ret (st, m)) \<and> ds_pending_reboot st"
proof -
  obtain r where r: "mqtt_messages heapless_lists sample_from_slice sample_to_slice list_broker ''t''
       (device_state_default True) ([Pingresp, Publish [33], Publish [82], Publish [82]], []) = Some r"
    "messages_are [] snd r
       (serve heapless_lists sample_from_slice (\<lambda>v. as_bytes (json_value v)) (\<lambda>l. l)
         [([], Ok [33]), ([], Ok [82]), ([], Ok [82])] [] (device_state_default True))"
    using mqtt_session_served [OF list_broker_stream heapless_lists_ok sample_to_slice_ok,
        of sample_from_slice "''t''" "device_state_default True"
          "([Pingresp, Publish [33], Publish [82], Publish [82]], [])"]
    by (auto simp del: serve.simps)
  then show ?thesis
    by (cases r) (auto simp: sample_reboot_answer prepend_def device_state_default_def)
qed

text \<open>C26: While the broker cannot be reached, the \<open>k\<close>-th attempt in a row waits 5, 10, 20, 40 and
  then always 60 seconds, and the counter of attempts stops at 255 instead of wrapping to a short
  wait.\<close>

theorem mqtt_unreachable_backoff:
  assumes "parse_ipv4 (cr_mqtt_host creds) = Some addr"
    and "mb_open mb addr (cr_mqtt_port creds) m = (Err (), m')"
  shows "mqtt_round hl from_slice to_slice mb mac creds config_ip (of_nat (min k 255)) m =
     Some (Ret (of_nat (min (Suc k) 255),
       [Signal MqttConnecting, Signal Reconnecting, WaitSecs (if k < 4 then 5 * 2 ^ k else 60)], m'))"
proof -
  let ?a = "of_nat (min k 255) :: u8"
  have a': "unat (of_nat (min j 255) :: u8) = min j 255" for j
    by (simp add: unat_of_nat)
  note a = a' [of k]
  have "unat (saturating_add ?a 1) = min (Suc k) 255"
    by (simp add: unat_saturating_add a)
  then have next_attempt: "saturating_add ?a 1 = of_nat (min (Suc k) 255)"
    using a' [of "Suc k"] by (simp only: word_unat_eq_iff)
  have "k = 0 \<or> k = 1 \<or> k = 2 \<or> k = 3 \<or> (4 \<le> k \<and> ?a \<noteq> 0 \<and> ?a \<noteq> 1 \<and> ?a \<noteq> 2 \<and> ?a \<noteq> 3)"
    using a by (auto simp: word_unat_eq_iff)
  then have "unat (backoff_secs ?a) = (if k < 4 then 5 * 2 ^ k else 60)"
    by (elim disjE) (simp_all add: backoff_secs_def)
  then show ?thesis
    using next_attempt by (simp add: mqtt_round_def assms mqtt_backoff_def)
qed

theorem mqtt_unreachable_backoff_witness:
  "mqtt_round heapless_lists sample_from_slice sample_to_slice
       (list_broker\<lparr>mb_open := \<lambda>addr port m. (Err (), m)\<rparr>) [0, 1, 2, 3, 4, 5]
       \<lparr>cr_ssid = ''home'', cr_password = ''secret'', cr_mqtt_host = ''10.0.0.7'', cr_mqtt_port = 1883\<rparr>
       ''10.0.0.9'' 255 ([], []) =
     Some (Ret (255, [Signal MqttConnecting, Signal Reconnecting, WaitSecs 60], ([], [])))"
proof -
  have "parse_ipv4 ''10.0.0.7'' = Some [10, 0, 0, 7]"
    by code_simp
  then show ?thesis
    using mqtt_unreachable_backoff [where k = 300 and m = "([], [])" and m' = "([], [])"
        and creds = "\<lparr>cr_ssid = ''home'', cr_password = ''secret'', cr_mqtt_host = ''10.0.0.7'',
          cr_mqtt_port = 1883\<rparr>" and mb = "list_broker\<lparr>mb_open := \<lambda>addr port m. (Err (), m)\<rparr>"]
    by simp
qed

end
