(* ===== verification/Build.thy ===== *)
theory Build
  imports Board
begin

text \<open>
  The feature flags of the build: the guards of \<open>src/lib.rs\<close>, the build script \<open>build.rs\<close>, and what
  the flags select in \<open>src/net.rs\<close>.
\<close>

section \<open>Flags\<close>

record features =
  fe_embedded :: bool
  fe_pico2w :: bool
  fe_pico1w :: bool
  fe_tcp :: bool
  fe_websocket :: bool
  fe_mqtt :: bool

text \<open>The \<open>compile_error!\<close> messages of the library, in their order.\<close>

definition compile_errors :: "features \<Rightarrow> str list" where
  "compile_errors f = map snd (filter fst
     [(fe_pico2w f \<and> fe_pico1w f, ''features `pico2w` and `pico1w` are mutually exclusive''),
      (fe_embedded f \<and> \<not> fe_pico2w f \<and> \<not> fe_pico1w f,
        ''embedded builds require exactly one of `pico2w` or `pico1w`''),
      (fe_tcp f \<and> fe_websocket f,
        ''transport features `transport-tcp` and `transport-websocket` are mutually exclusive''),
      (fe_tcp f \<and> fe_mqtt f,
        ''transport features `transport-tcp` and `transport-mqtt` are mutually exclusive''),
      (fe_websocket f \<and> fe_mqtt f,
        ''transport features `transport-websocket` and `transport-mqtt` are mutually exclusive''),
      (fe_embedded f \<and> \<not> fe_tcp f \<and> \<not> fe_websocket f \<and> \<not> fe_mqtt f,
        ''embedded builds require exactly one of: transport-tcp, transport-websocket, transport-mqtt'')])"

text \<open>The build script: the memory layout an embedded build is linked with; its assertions panic.\<close>

definition build_script :: "features \<Rightarrow> str option exec" where
  "build_script f =
     (if fe_embedded f then
        (if fe_pico2w f \<and> fe_pico1w f then Panic
         else if \<not> (fe_pico2w f \<or> fe_pico1w f) then Panic
         else Ret (Some (if fe_pico2w f then ''memory-pico2w.x'' else ''memory-pico1w.x'')))
      else Ret None)"

text \<open>The servers \<open>sta_mode\<close> was compiled with, in the order of its blocks.\<close>

datatype transport_kind = TcpKind | WebSocketKind | MqttKind

definition servers :: "features \<Rightarrow> transport_kind list" where
  "servers f =
     (if fe_tcp f then [TcpKind] else []) @ (if fe_websocket f then [WebSocketKind] else []) @
     (if fe_mqtt f then [MqttKind] else [])"

text \<open>The boards whose constants (\<open>src/board.rs\<close>) are compiled in.\<close>

definition boards :: "features \<Rightarrow> board list" where
  "boards f = (if fe_pico2w f then [Pico2w] else []) @ (if fe_pico1w f then [Pico1w] else [])"

definition memory_file :: "board \<Rightarrow> str" where
  "memory_file bd = (case bd of Pico2w \<Rightarrow> ''memory-pico2w.x'' | Pico1w \<Rightarrow> ''memory-pico1w.x'')"

text \<open>An embedded build that compiles has one board, its memory layout, and one transport.\<close>

lemma embedded_build:
  assumes "compile_errors f = []" "fe_embedded f"
  shows "\<exists>bd t. boards f = [bd] \<and> servers f = [t] \<and> build_script f = Ret (Some (memory_file bd))"
  using assms by (auto simp: compile_errors_def boards_def servers_def build_script_def memory_file_def split: if_splits)

text \<open>The two sources of the guard agree: the build script stops exactly the builds the first two guards
  of the library stop, as far as they are embedded.\<close>

lemma build_script_agrees:
  "build_script f = Panic \<longleftrightarrow> fe_embedded f \<and> (fe_pico2w f = fe_pico1w f)"
  by (auto simp: build_script_def)

end
