(* ===== verification/Modes.thy ===== *)
theory Modes
  imports Setup Mqtt Build
begin

text \<open>
  The two modes of \<open>src/net.rs\<close>, \<open>sta_mode\<close> and \<open>ap_mode\<close>, and \<open>start\<close>, which checks the chip and
  chooses between them. The network is an argument.
\<close>

section \<open>The network\<close>

text \<open>One world \<open>'w\<close> holds the radio, the sockets and the broker: \<open>nw_join\<close> is a join without a time
  limit, \<open>nw_address\<close> waits for the address and gives its text.\<close>

record 'w network =
  nw_join :: "str \<Rightarrow> u8 list \<Rightarrow> 'w \<Rightarrow> bool \<times> 'w"
  nw_address :: "'w \<Rightarrow> str option \<times> 'w"
  nw_mac :: "'w \<Rightarrow> u8 list"
  nw_socket :: "'w socket"
  nw_broker :: "'w broker"

section \<open>Station mode\<close>

text \<open>The loop of joins, 3 seconds apart; \<open>past\<close> is what has happened so far.\<close>

partial_function (option) join_network ::
  "'w network \<Rightarrow> credentials \<Rightarrow> server_event list \<Rightarrow> 'w \<Rightarrow> (server_event list \<times> 'w) exec option" where
  "join_network nw creds past w =
     (case nw_join nw (cr_ssid creds) (as_bytes (cr_password creds)) w of
        (ok, w') \<Rightarrow>
          (if ok then Some (Ret (past @ [Signal Connecting], w'))
           else join_network nw creds (past @ [Signal Connecting, WaitSecs 3]) w'))"

definition config_ip :: "heapless \<Rightarrow> str option \<Rightarrow> str" where
  "config_ip hl addr = (case addr of None \<Rightarrow> '''' | Some a \<Rightarrow> fst (hl_write_str hl 16 '''' a))"

text \<open>The server the build has: none of them returns; \<open>Some e\<close> is the endless state it ends in.\<close>

definition run_server ::
  "heapless \<Rightarrow> from_slice \<Rightarrow> to_slice \<Rightarrow> transport_kind \<Rightarrow> 'w network \<Rightarrow> credentials \<Rightarrow> str \<Rightarrow> 'w \<Rightarrow>
   (server_end option \<times> server_event list \<times> 'w) exec option" where
  "run_server hl from_slice to_slice t nw creds ip w =
     (case t of
        TcpKind \<Rightarrow>
          bind_io (tcp_server hl from_slice to_slice (nw_socket nw) (cr_ssid creds) ip w)
            (\<lambda>(e, events, w'). Some (Ret (Some e, events, w')))
      | WebSocketKind \<Rightarrow>
          bind_io (ws_server hl from_slice to_slice (nw_socket nw) (cr_ssid creds) ip w)
            (\<lambda>(e, events, w'). Some (Ret (Some e, events, w')))
      | MqttKind \<Rightarrow>
          bind_io (mqtt_client hl from_slice to_slice (nw_broker nw) (nw_mac nw w) creds ip w)
            (\<lambda>_. Some (Ret (None, [], w))))"

definition sta_mode ::
  "heapless \<Rightarrow> from_slice \<Rightarrow> to_slice \<Rightarrow> features \<Rightarrow> 'w network \<Rightarrow> credentials \<Rightarrow> 'w \<Rightarrow>
   (server_end option \<times> server_event list \<times> 'w) exec option" where
  "sta_mode hl from_slice to_slice f nw creds w =
     bind_io (join_network nw creds [] w) (\<lambda>(past, w1).
       case nw_address nw w1 of
         (addr, w2) \<Rightarrow>
           (case servers f of
              [] \<Rightarrow> Some (Ret (None, past @ [PowerSave True], w2))
            | t # _ \<Rightarrow>
                bind_io (run_server hl from_slice to_slice t nw creds (config_ip hl addr) w2)
                  (\<lambda>(e, events, w3). Some (Ret (e, past @ [PowerSave True] @ events, w3)))))"

section \<open>Access point mode\<close>

text \<open>The DHCP server and the portal run until one of them ends: the portal with a reset of the device,
  the DHCP server at once when its port cannot be bound. \<open>mac\<close> is the address of the radio.\<close>

definition ap_mode ::
  "heapless \<Rightarrow> board \<Rightarrow> 'f nor_flash \<Rightarrow> 'r radio \<Rightarrow> 's socket \<Rightarrow> u8 list \<Rightarrow> bool \<Rightarrow>
   ('s, 'f, 'r) portal_state \<Rightarrow> (bool \<times> ('s, 'f, 'r) portal_state) exec option" where
  "ap_mode hl bd fl ra so mac dhcp_bound p =
     (let ap_ssid = make_ap_ssid hl mac;
          p = signal Provisioning (p\<lparr>ps_radio := ra_start_ap_open ra ap_ssid 6 (ps_radio p)\<rparr>)
      in
      if \<not> dhcp_bound then Some (Ret (False, p))
      else bind_io (portal_server hl bd fl ra so p) (\<lambda>p'. Some (Ret (True, p'))))"

section \<open>A boot\<close>

definition validate_platform :: "board \<Rightarrow> u16 \<Rightarrow> unit exec" where
  "validate_platform bd part = (case validate_chip_part bd part of Ok _ \<Rightarrow> Ret () | Err _ \<Rightarrow> Panic)"

text \<open>How a boot ends: the watchdog resets the device, a server never returns, or nothing runs any more.\<close>

datatype boot_end = WatchdogReset | Serving "server_end option" | IdleForever

text \<open>\<open>part\<close> is the chip, \<open>level\<close> the button over time; the last argument is the flash.\<close>

record ('s, 'f, 'r, 'w) device =
  dv_hl :: heapless
  dv_from_slice :: from_slice
  dv_to_slice :: to_slice
  dv_board :: board
  dv_features :: features
  dv_part :: u16
  dv_flash :: "'f nor_flash"
  dv_radio :: "'r radio"
  dv_portal_socket :: "'s socket"
  dv_mac :: "u8 list"
  dv_dhcp_bound :: bool
  dv_network :: "'w network"

definition boot ::
  "('s, 'f, 'r, 'w) device \<Rightarrow> str option \<Rightarrow> str option \<Rightarrow> (nat \<Rightarrow> bool) \<Rightarrow> 's \<Rightarrow> 'r \<Rightarrow> 'w \<Rightarrow> 'f \<Rightarrow>
   (boot_end \<times> 'f) exec option" where
  "boot dv compile_ssid compile_pass level s r w f =
     bind_io (Some (validate_platform (dv_board dv) (dv_part dv))) (\<lambda>_.
     bind_io (Some (start (dv_hl dv) (dv_board dv) (dv_flash dv) compile_ssid compile_pass level f))
       (\<lambda>(mode, f').
          case mode of
            BootReset \<Rightarrow> Some (Ret (WatchdogReset, f'))
          | StaMode creds \<Rightarrow>
              bind_io (sta_mode (dv_hl dv) (dv_from_slice dv) (dv_to_slice dv) (dv_features dv)
                  (dv_network dv) creds w)
                (\<lambda>(e, events, w'). Some (Ret (Serving e, f')))
          | ApMode \<Rightarrow>
              bind_io (ap_mode (dv_hl dv) (dv_board dv) (dv_flash dv) (dv_radio dv) (dv_portal_socket dv)
                  (dv_mac dv) (dv_dhcp_bound dv)
                  \<lparr>ps_socket = s, ps_flash = f', ps_radio = r, ps_signals = [Booting]\<rparr>)
                (\<lambda>(resets, p). Some (Ret (if resets then WatchdogReset else IdleForever, ps_flash p)))))"

section \<open>Joining\<close>

text \<open>The world after \<open>k\<close> joins.\<close>

fun after_joins :: "'w network \<Rightarrow> credentials \<Rightarrow> nat \<Rightarrow> 'w \<Rightarrow> 'w" where
  "after_joins nw creds 0 w = w"
| "after_joins nw creds (Suc k) w =
     after_joins nw creds k (snd (nw_join nw (cr_ssid creds) (as_bytes (cr_password creds)) w))"

definition joins_at :: "'w network \<Rightarrow> credentials \<Rightarrow> nat \<Rightarrow> 'w \<Rightarrow> bool" where
  "joins_at nw creds k w \<longleftrightarrow>
     fst (nw_join nw (cr_ssid creds) (as_bytes (cr_password creds)) (after_joins nw creds k w))"

lemma joins_at_simps:
  "joins_at nw creds 0 w \<longleftrightarrow> fst (nw_join nw (cr_ssid creds) (as_bytes (cr_password creds)) w)"
  "joins_at nw creds (Suc k) w \<longleftrightarrow>
     joins_at nw creds k (snd (nw_join nw (cr_ssid creds) (as_bytes (cr_password creds)) w))"
  by (simp_all add: joins_at_def)

definition join_events :: "nat \<Rightarrow> server_event list" where
  "join_events k = concat (replicate k [Signal Connecting, WaitSecs 3]) @ [Signal Connecting]"

lemma join_network_joins:
  assumes "joins_at nw creds k w" "\<forall>j < k. \<not> joins_at nw creds j w"
  shows "join_network nw creds past w = Some (Ret (past @ join_events k, after_joins nw creds (Suc k) w))"
  using assms
proof (induction k arbitrary: past w)
  case 0
  then show ?case
    by (subst join_network.simps) (auto simp: joins_at_simps join_events_def split: prod.splits)
next
  case (Suc k)
  let ?w = "snd (nw_join nw (cr_ssid creds) (as_bytes (cr_password creds)) w)"
  have "\<not> fst (nw_join nw (cr_ssid creds) (as_bytes (cr_password creds)) w)"
    using Suc.prems(2) by (auto simp: joins_at_simps)
  moreover have "join_network nw creds (past @ [Signal Connecting, WaitSecs 3]) ?w =
      Some (Ret ((past @ [Signal Connecting, WaitSecs 3]) @ join_events k, after_joins nw creds (Suc k) ?w))"
    using Suc.prems by (intro Suc.IH) (auto simp: joins_at_simps)
  ultimately show ?case
    by (subst join_network.simps) (simp add: join_events_def split_beta)
qed

lemma join_network_returns:
  assumes "join_network nw creds past w = Some r"
  shows "\<exists>k. joins_at nw creds k w"
proof (induction rule: join_network.raw_induct [OF _ assms, consumes 0, case_names step])
  case (step loop nw creds past w r)
  show ?case
  proof (cases "nw_join nw (cr_ssid creds) (as_bytes (cr_password creds)) w")
    case (Pair ok w')
    show ?thesis
    proof (cases ok)
      case True
      then show ?thesis
        using Pair joins_at_simps(1) [of nw creds w] by auto
    next
      case False
      then have "loop nw creds (past @ [Signal Connecting, WaitSecs 3]) w' = Some r"
        using step(2) Pair by simp
      from step(1) [OF this] obtain k where "joins_at nw creds k w'"
        by blast
      then show ?thesis
        using Pair joins_at_simps(2) [of nw creds k w] by auto
    qed
  qed
qed

section \<open>Properties\<close>

lemma sta_mode_joins:
  assumes "joins_at nw creds k w" "\<forall>j < k. \<not> joins_at nw creds j w"
    and "nw_address nw (after_joins nw creds (Suc k) w) = (addr, w2)" "servers f = [t]"
  shows "sta_mode hl from_slice to_slice f nw creds w =
     bind_io (run_server hl from_slice to_slice t nw creds (config_ip hl addr) w2)
       (\<lambda>(e, events, w3). Some (Ret (e, join_events k @ [PowerSave True] @ events, w3)))"
  using join_network_joins [OF assms(1,2), of "[]"] assms(3,4) by (simp add: sta_mode_def)

lemma sta_mode_never:
  assumes "\<And>k. \<not> joins_at nw creds k w"
  shows "sta_mode hl from_slice to_slice f nw creds w = None"
proof -
  have "join_network nw creds [] w = None"
    using join_network_returns [of nw creds "[]" w] assms by (cases "join_network nw creds [] w") blast+
  then show ?thesis
    by (simp add: sta_mode_def)
qed

lemma waited_join_events: "waited (join_events k) = 3 * k"
  by (induction k) (simp_all add: join_events_def)

text \<open>C6: The station mode never gives up. On a firmware that builds, whenever the network takes the
  credentials for the first time, at the attempt \<open>k\<close> for any \<open>k\<close>, the one server of the build starts, with the
  address the network gave, after \<open>k\<close> waits of three seconds; and on a network that never takes them the
  device tries for ever and no server starts.\<close>

theorem station_serves_after_joining:
  assumes "compile_errors f = []" "fe_embedded f"
  shows "\<exists>t. servers f = [t] \<and>
     (\<forall>k addr w2. joins_at nw creds k w \<and> (\<forall>j < k. \<not> joins_at nw creds j w) \<and>
        nw_address nw (after_joins nw creds (Suc k) w) = (addr, w2) \<longrightarrow>
        sta_mode hl from_slice to_slice f nw creds w =
          bind_io (run_server hl from_slice to_slice t nw creds (config_ip hl addr) w2)
            (\<lambda>(e, events, w3). Some (Ret (e, join_events k @ [PowerSave True] @ events, w3))) \<and>
        waited (join_events k) = 3 * k) \<and>
     ((\<forall>k. \<not> joins_at nw creds k w) \<longrightarrow> sta_mode hl from_slice to_slice f nw creds w = None)"
proof -
  obtain t where "servers f = [t]"
    using embedded_build [OF assms] by blast
  then show ?thesis
    using sta_mode_joins [of nw creds _ w _ _ f t hl from_slice to_slice] sta_mode_never [of nw creds w]
    by (simp add: waited_join_events)
qed

text \<open>A network to evaluate instances with: it counts the joins and takes the third; no client connects.\<close>

definition sample_network :: "nat network" where
  "sample_network =
     \<lparr>nw_join = (\<lambda>ssid password w. (2 \<le> w, w + 1)), nw_address = (\<lambda>w. (Some ''10.0.0.9'', w)),
      nw_mac = (\<lambda>w. [0, 1, 2, 3, 4, 5]),
      nw_socket = \<lparr>so_read = (\<lambda>n w. (ReadBytes [], w)), so_write_all = (\<lambda>bs w. (Ok (), w)),
        so_abort = (\<lambda>w. w), so_flush = (\<lambda>w. w), so_accept = (\<lambda>port w. (Err (), w))\<rparr>,
      nw_broker = \<lparr>mb_open = (\<lambda>a p w. (Err (), w)), mb_connect = (\<lambda>i w. (Err (), w)),
        mb_subscribe = (\<lambda>t w. (Err (), w)), mb_poll = (\<lambda>w. (Err (), w)), mb_publish = (\<lambda>t bs w. (Err (), w))\<rparr>\<rparr>"

definition sample_features :: features where
  "sample_features = \<lparr>fe_embedded = True, fe_pico2w = True, fe_pico1w = False,
     fe_tcp = True, fe_websocket = False, fe_mqtt = False\<rparr>"

lemma sample_joins: "joins_at sample_network creds k w \<longleftrightarrow> 2 \<le> k + w"
  by (induction k arbitrary: w) (simp_all add: joins_at_simps sample_network_def)

lemma sample_build: "compile_errors sample_features = []" "fe_embedded sample_features"
  by (simp_all add: compile_errors_def sample_features_def)

theorem station_serves_after_joining_witness:
  "sta_mode heapless_lists sample_from_slice sample_to_slice sample_features sample_network sample_credentials 0 =
     bind_io (run_server heapless_lists sample_from_slice sample_to_slice TcpKind sample_network sample_credentials
         ''10.0.0.9'' 3)
       (\<lambda>(e, events, w3). Some (Ret (e,
          [Signal Connecting, WaitSecs 3, Signal Connecting, WaitSecs 3, Signal Connecting, PowerSave True] @ events, w3)))"
proof -
  have "servers sample_features = [TcpKind]"
    by (simp add: servers_def sample_features_def)
  moreover have "nw_address sample_network (after_joins sample_network sample_credentials (Suc 2) 0) = (Some ''10.0.0.9'', 3)"
    by (simp add: sample_network_def eval_nat_numeral)
  moreover have "config_ip heapless_lists (Some ''10.0.0.9'') = ''10.0.0.9''"
    by code_simp
  moreover have "join_events 2 = [Signal Connecting, WaitSecs 3, Signal Connecting, WaitSecs 3, Signal Connecting]"
    by (simp add: join_events_def eval_nat_numeral)
  ultimately show ?thesis
    using station_serves_after_joining [OF sample_build, of sample_network sample_credentials 0
        heapless_lists sample_from_slice sample_to_slice]
    by (auto simp: sample_joins simp del: after_joins.simps dest: spec [where x = 2])
qed

end
