(* ===== verification/Spec2Isabelle.thy ===== *)
theory Spec2Isabelle
  imports Session Codec Dhcp Conduit Modes
begin

text \<open>
  A model of \<^verbatim>\<open>pico-conduit\<close>: the firmware that puts the peripherals of a Raspberry Pi Pico W on the
  network as a line protocol of JSON commands, and the Rust library a host talks to it with.

  \<^bold>\<open>The program and how its parts interact.\<close> A boot (\<open>src/net.rs\<close>, \<open>start\<close>) checks the chip and the factory
  reset button, loads the Wi-Fi credentials from flash and enters one of two modes. Without credentials it is
  an access point with a DHCP server and a captive portal; a form that is posted there is tried on the
  network, saved, and ends in a reset. With credentials it joins the network and runs the one server the
  build selected: TCP, WebSocket or MQTT. A server takes one client at a time and gives it a session with
  the router: frames are read, parsed, routed by interface and action, run by a peripheral handler and
  answered, until the client goes or asks for a reset into the bootloader. The LED task plays the pattern
  of the last signal any of them sent.

  \<^bold>\<open>Theories and sources.\<close>
  \<^item> \<open>Prelude\<close>, \<open>Rust_Std\<close>, \<open>Heapless\<close>, \<open>F32\<close>: machine integers, \<open>Result\<close>, panics as the value \<open>Panic\<close>
    of the type \<open>exec\<close>, checked slices; the functions of the standard library on byte strings; the
    containers of the crate \<open>heapless\<close> as a record of operations with their documented behaviour
    (\<open>heapless_ok\<close>); IEEE single precision.
  \<^item> \<open>Base64\<close> (\<open>src/base64.rs\<close>), \<open>Protocol\<close> (\<open>src/protocol.rs\<close>), \<open>Interfaces\<close> (\<open>src/interfaces/\<close>),
    \<open>Router\<close> (\<open>src/router.rs\<close>), \<open>Codec\<close> (\<open>src/codec.rs\<close>), \<open>Ws\<close> and \<open>Sha1\<close> (\<open>src/ws.rs\<close>), \<open>Led\<close>
    (\<open>src/led.rs\<close> and \<open>led_task\<close>), \<open>Portal\<close> (\<open>src/provisioning/\<close>), \<open>Board\<close> (\<open>src/board.rs\<close>), \<open>Build\<close> (the
    guards of \<open>src/lib.rs\<close> and \<open>build.rs\<close>): the hardware-free modules, one definition per function,
    under the function's name.
  \<^item> \<open>src/net.rs\<close> in the order of its parts: \<open>Transport\<close> (the trait of \<open>src/transport.rs\<close> and its two
    instances), \<open>Client\<close> (\<open>handle_client\<close>), \<open>Http\<close> and \<open>Handshake\<close> (\<open>ws_handshake\<close>), \<open>Server\<close> (\<open>tcp_server\<close>,
    \<open>ws_server\<close>), \<open>Mqtt\<close> (\<open>mqtt_client\<close>, with \<open>src/mqtt.rs\<close>), \<open>Flash\<close> (the credential record, the button,
    \<open>start\<close>), \<open>Dhcp\<close> (\<open>dhcp_server\<close>), \<open>Setup\<close> (\<open>portal_server\<close>), \<open>Modes\<close> (\<open>sta_mode\<close>, \<open>ap_mode\<close>, a whole boot).
  \<^item> \<open>Conduit\<close> (\<open>client/src/lib.rs\<close>): every call of \<open>PicoConduit\<close>, and the library in front of the device.
  \<^item> \<open>Session\<close> and \<open>Peers\<close> hold specifications: the abstract session the router refines, and the peers
    a transport is given.

  \<^bold>\<open>State.\<close> \<open>device_state\<close> is \<open>DeviceState\<close> field by field; \<open>frame_reader\<close>, \<open>tcp_state\<close>, \<open>credentials\<close>,
  \<open>connect_form\<close>, \<open>raw_response\<close> and the messages are the structs of the same names. What is not under
  \<open>src/\<close> is an argument with a state of its own: the pins, the socket (\<open>socket\<close>), the flash driver
  (\<open>nor_flash\<close>), the radio (\<open>radio\<close>, \<open>network\<close>), the broker (\<open>broker\<close>), the serializers (\<open>from_slice\<close>,
  \<open>to_slice\<close>, \<open>serde_json\<close>). Theorems either hold for any of them, or name what they use of the
  documentation: \<open>heapless_ok\<close>, \<open>nor_flash_ok\<close>, \<open>stream_socket\<close>, \<open>stream_broker\<close>, \<open>to_slice_ok\<close>, \<open>talks_to\<close>; each
  has an instance that is evaluated in the witnesses.

  \<^bold>\<open>Effects.\<close> A function that can panic (an index or a slice out of range) returns \<open>exec\<close>; an \<open>Err\<close> is the
  \<open>Err\<close> of \<open>result\<close>. A loop that may run for ever is a \<open>partial_function\<close> into \<open>option\<close>, where \<open>None\<close> is not
  returning, so that \<open>Some (Ret x)\<close> says that it returns, and without a panic; no fuel is used. Awaits
  happen in the order of the source; what an observer sees of them (LED signals, power management, waits)
  is a list of events.

  \<^bold>\<open>Interfaces as locales.\<close> \<open>frame_transport\<close> and \<open>frame_source\<close> are what \<open>handle_client\<close> needs of a
  transport, each interpreted on TCP and on WebSocket; \<open>write_handler\<close> and \<open>configure_handler\<close> are what
  UART, SPI and I2C share; \<open>codec\<close> is the trait \<open>Codec\<close>, interpreted on the JSON and the postcard codec.

  \<^bold>\<open>What the lemmas show.\<close>
  \<^item> Sessions: over TCP (any byte stream) and WebSocket (any frames, from the upgrade request on) the
    client loop ends and writes exactly the specified answers; over MQTT it publishes them. The router
    refines the abstract session, keeps its invariant, answers batches as single commands in order, and
    panics only on payloads over 512 bytes; that panic is real and shown.
  \<^item> Library: which command each call of the host library is for the device, and that a call in front of
    the device returns the device's answer.
  \<^item> Provisioning: from the posted form, through the flash record, to the credentials of the next boot; a
    boot that ends in a reset was provisioned; the station mode keeps joining and then serves; factory
    reset; the portal's redirection and safety; the DHCP replies; the setup form's names.
  \<^item> Algorithms: base64 round trip, the frame reader against splitting at newlines, SHA-1 against RFC
    3174, the header lookup against a lookup on lines, frame headers and masks, form decoding, the
    temperature formula against the exact one.
  \<^item> Recovery: the waits of the servers and of the MQTT client and where they end.

  \<^bold>\<open>Bounds.\<close> The limits of the code are kept as they are: 1024 bytes a frame, 512 a payload, eight
  subscriptions, sixteen commands a batch, 512 bytes of headers, 256 of a form, 128 of its text.

  \<^bold>\<open>Not modelled.\<close> The bring-up of the radio and of the network stack and the tasks that only run a driver
  (\<open>cyw43_task\<close>, \<open>net_task\<close>, \<open>set_led\<close>, the static cells and interrupt bindings): they are calls of crates with no logic of their
  own. \<open>main\<close> sets the clock and starts the LED task and \<open>start\<close>. The text of \<open>serde_json\<close> and
  \<open>serde_json_core\<close> belongs to those crates: a message is modelled up to the calls of the serializer. The
  macro \<open>require_env\<close> rewrites test functions; the tests are not part of the program. Single precision
  leaves out overflow and subnormal numbers, which no value of the firmware reaches.
\<close>

section \<open>From the setup page to the station mode\<close>

lemma saved_are_booted:
  assumes "heapless_ok hl" "nor_flash_ok fl mem" "wf_credentials c"
    and "save_credentials_flash bd fl c f = Ret (True, f')" "\<not> check_factory_reset level"
    and "fl_read fl (CRED_FLASH_OFFSET bd) (replicate CRED_RECORD_SIZE 0) f' = (Ok (), buf, f'')"
  shows "start hl bd fl None None level f' = Ret (StaMode c, f'')"
  using saved_are_loaded [OF assms(1-4,6)] assms(5) by (simp add: start_def)

lemma form_provisions:
  assumes "stream_socket so input output" "heapless_ok hl" "nor_flash_ok fl mem" "flash_works fl"
    and "complete_request h" "input (ps_socket p) = h @ form_body ssid manual password host port"
    and "parse_request_line (request_line_of h) = Ok \<lparr>rl_method = Post, rl_path = ''/connect''\<rparr>"
    and "header_in (as_bytes ''Host'') (tl (split_on 10 h)) = Ret (Some gateway)"
    and "starts_with AP_IP_STR gateway"
    and "header_in (as_bytes ''Content-Length'') (tl (split_on 10 h)) = Ret v"
    and "body_length v = length (form_body ssid manual password host port)"
    and "\<forall>x \<in> {ssid, manual, password, host}. CHR ''&'' \<notin> set x \<and> utf8_valid (as_bytes x)"
    and "length (form_text ssid manual password host port) \<le> 128" "port < 65536"
    and "length ssid \<le> 32" "length password \<le> 64" "length host \<le> 64"
    and "\<And>r. fst (ra_join ra ssid (as_bytes password) r)"
  shows "\<exists>p'. handle_http_request hl bd fl ra so p = Ret (True, p') \<and>
     (\<forall>level buf f. \<not> check_factory_reset level \<longrightarrow>
        fl_read fl (CRED_FLASH_OFFSET bd) (replicate CRED_RECORD_SIZE 0) (ps_flash p') = (Ok (), buf, f) \<longrightarrow>
        start hl bd fl None None level (ps_flash p') =
          Ret (StaMode \<lparr>cr_ssid = ssid, cr_password = password, cr_mqtt_host = host,
            cr_mqtt_port = of_nat port\<rparr>, f))"
proof -
  let ?form = "\<lparr>cf_ssid = ssid, cf_password = password, cf_mqtt_host = host, cf_mqtt_port = of_nat port\<rparr>"
  have wf: "wf_credentials (form_credentials ?form)"
    using assms(12,15-17) by (simp add: wf_credentials_def form_credentials_def)
  have "form_of_body (form_body ssid manual password host port) (replicate 128 0) = Ret (Some ?form)"
    using form_of_form_body [OF assms(12,14), of "replicate 128 0"] assms(13) by simp
  from portal_provisions [OF assms(1,2,4-11) this wf, of ra bd]
  obtain f p' where "handle_http_request hl bd fl ra so p = Ret (True, p')"
    "save_credentials_flash bd fl (form_credentials ?form) f = Ret (True, ps_flash p')"
    using assms(18) by auto
  then show ?thesis
    using saved_are_booted [OF assms(2,3) wf] by (auto simp: form_credentials_def)
qed

text \<open>C4: The life of a device from the form to the network. A browser posts the setup form to the
  gateway, with a name and a password the radio joins with and a flash that works: the request ends in a
  reset of the device, and the boot after it, with the button not held, reads the very fields that were
  typed and starts the station mode with them.\<close>

theorem provisioning_end_to_end:
  assumes "stream_socket so input output" "heapless_ok hl" "nor_flash_ok fl mem" "flash_works fl"
    and "complete_request h" "input (ps_socket p) = h @ form_body ssid manual password host port"
    and "parse_request_line (request_line_of h) = Ok \<lparr>rl_method = Post, rl_path = ''/connect''\<rparr>"
    and "header_in (as_bytes ''Host'') (tl (split_on 10 h)) = Ret (Some gateway)"
    and "starts_with AP_IP_STR gateway"
    and "header_in (as_bytes ''Content-Length'') (tl (split_on 10 h)) = Ret v"
    and "body_length v = length (form_body ssid manual password host port)"
    and "\<forall>x \<in> {ssid, manual, password, host}. CHR ''&'' \<notin> set x \<and> utf8_valid (as_bytes x)"
    and "length (form_text ssid manual password host port) \<le> 128" "port < 65536"
    and "length ssid \<le> 32" "length password \<le> 64" "length host \<le> 64"
    and "\<And>r. fst (ra_join ra ssid (as_bytes password) r)"
    and "\<not> check_factory_reset level"
  shows "\<exists>p'. handle_http_request hl bd fl ra so p = Ret (True, p') \<and>
     (\<forall>buf f. fl_read fl (CRED_FLASH_OFFSET bd) (replicate CRED_RECORD_SIZE 0) (ps_flash p') = (Ok (), buf, f) \<longrightarrow>
        start hl bd fl None None level (ps_flash p') =
          Ret (StaMode \<lparr>cr_ssid = ssid, cr_password = password, cr_mqtt_host = host,
            cr_mqtt_port = of_nat port\<rparr>, f))"
  using form_provisions [OF assms(1-18), of bd] assms(19) by blast

definition sample_post :: "u8 list" where
  "sample_post = as_bytes ''POST /connect HTTP/1.1'' @ CRLF @ as_bytes ''Host: 192.168.4.1'' @ CRLF @
     as_bytes ''Content-Length: 77'' @ CRLF @ CRLF"

lemma sample_post_facts:
  shows "complete_request sample_post"
    and "parse_request_line (request_line_of sample_post) = Ok \<lparr>rl_method = Post, rl_path = ''/connect''\<rparr>"
    and "header_in (as_bytes ''Host'') (tl (split_on 10 sample_post)) = Ret (Some (as_bytes ''192.168.4.1''))"
    and "starts_with AP_IP_STR (as_bytes ''192.168.4.1'')"
    and "header_in (as_bytes ''Content-Length'') (tl (split_on 10 sample_post)) = Ret (Some (as_bytes ''77''))"
  subgoal unfolding complete_request_def by code_simp
  subgoal by code_simp
  subgoal by code_simp
  subgoal by code_simp
  subgoal by code_simp
  done

lemma sample_length:
  "body_length (Some (as_bytes ''77'')) = length (form_body ''home'' '''' ''s=cret%'' ''10.0.0.7'' 8883)"
proof -
  have "find (\<lambda>w. w \<noteq> [] \<and> starts_with w ''77'') whitespace_encodings = None"
    "find (\<lambda>w. w \<noteq> [] \<and> starts_with w ''77'') (map rev whitespace_encodings) = None"
    by (simp_all add: whitespace_encodings_def of_bytes_def upt_rec starts_with_def char_of_def)
  then have "trim ''77'' = ''77''"
    by (simp add: trim_def trim_front.simps)
  moreover have "parse_digits 4294967296 0 ''77'' = Some 77"
    by (simp add: ascii_digit_def)
  ultimately have "body_length (Some (as_bytes ''77'')) = 77"
    using from_utf8_as_bytes [of "''77''"] by (simp add: body_length_def parse_uint_def del: parse_digits.simps)
  moreover have "length (form_body ''home'' '''' ''s=cret%'' ''10.0.0.7'' 8883) = 77"
    by (simp add: form_body_def fmt_dec.simps form_encode_def form_encode_byte_def form_plain_def)
  ultimately show ?thesis by simp
qed

lemma sample_fields:
  "\<forall>x \<in> {''home'', '''', ''s=cret%'', ''10.0.0.7''}. CHR ''&'' \<notin> set x \<and> utf8_valid (as_bytes x)"
  "length (form_text ''home'' '''' ''s=cret%'' ''10.0.0.7'' 8883) \<le> 128"
  subgoal by (simp only: ball_simps insert_iff empty_iff simp_thms) (simp add: utf8_valid_ascii)
  subgoal by (simp add: form_text_def fmt_dec.simps)
  done

lemma released: "\<not> check_factory_reset (\<lambda>t. True)"
  by (simp add: check_factory_reset_def)

lemma flash_array_works: "flash_works flash_array"
  by (simp add: flash_works_def flash_array_def)

theorem provisioning_end_to_end_witness:
  "\<exists>p'. handle_http_request heapless_lists Pico2w flash_array sample_radio (chunk_socket 7)
       (sample_portal (sample_post @ form_body ''home'' '''' ''s=cret%'' ''10.0.0.7'' 8883)) = Ret (True, p') \<and>
     start heapless_lists Pico2w flash_array None None (\<lambda>t. True) (ps_flash p') =
       Ret (StaMode \<lparr>cr_ssid = ''home'', cr_password = ''s=cret%'', cr_mqtt_host = ''10.0.0.7'',
         cr_mqtt_port = of_nat 8883\<rparr>, ps_flash p')"
proof -
  from provisioning_end_to_end [OF chunk_socket_stream [of 7] heapless_lists_ok flash_array_ok flash_array_works
      sample_post_facts(1) _ sample_post_facts(2-5) sample_length sample_fields,
      where p = "sample_portal (sample_post @ form_body ''home'' '''' ''s=cret%'' ''10.0.0.7'' 8883)"
        and ra = sample_radio and level = "\<lambda>t. True" and bd = Pico2w]
  show ?thesis
    by (simp add: sample_portal_def sample_radio_def released flash_array_def)
qed

text \<open>Whatever arrives at the portal, from any socket and however often: if the server ends without
  a panic, credentials that had joined their network are in the flash, and the next boot, with the button
  not held, starts the station mode with them.\<close>

theorem portal_ends_provisioned:
  assumes "heapless_ok hl" "nor_flash_ok fl mem" "\<not> check_factory_reset level"
    and "portal_server hl bd fl ra so p = Some (Ret p')"
    and "fl_read fl (CRED_FLASH_OFFSET bd) (replicate CRED_RECORD_SIZE 0) (ps_flash p') = (Ok (), buf, f)"
  shows "\<exists>c r. start hl bd fl None None level (ps_flash p') = Ret (StaMode c, f) \<and>
     fst (ra_join ra (cr_ssid c) (as_bytes (cr_password c)) r)"
proof -
  obtain c where "saved_by bd fl ra (ps_flash p') c"
    using portal_server_saves [OF assms(4,1)] by auto
  then show ?thesis
    using saved_are_booted [OF assms(1,2) _ _ assms(3,5)] by (auto simp: saved_by_def)
qed

theorem portal_ends_provisioned_witness:
  "\<exists>p' c r. portal_server heapless_lists Pico2w flash_array sample_radio (chunk_socket 7)
       (sample_portal (sample_post @ form_body ''home'' '''' ''s=cret%'' ''10.0.0.7'' 8883)) = Some (Ret p') \<and>
     start heapless_lists Pico2w flash_array None None (\<lambda>t. True) (ps_flash p') = Ret (StaMode c, ps_flash p') \<and>
     fst (ra_join sample_radio (cr_ssid c) (as_bytes (cr_password c)) r)"
proof -
  let ?p = "sample_portal (sample_post @ form_body ''home'' '''' ''s=cret%'' ''10.0.0.7'' 8883)"
  obtain p' where "handle_http_request heapless_lists Pico2w flash_array sample_radio (chunk_socket 7) ?p = Ret (True, p')"
    using form_provisions [OF chunk_socket_stream [of 7] heapless_lists_ok flash_array_ok flash_array_works
      sample_post_facts(1) _ sample_post_facts(2-5) sample_length sample_fields,
      where p = ?p and ra = sample_radio and bd = Pico2w]
    by (auto simp: sample_portal_def sample_radio_def)
  then have "portal_server heapless_lists Pico2w flash_array sample_radio (chunk_socket 7) ?p = Some (Ret p')"
    by (subst portal_server.simps) (simp add: chunk_socket_def sample_portal_def)
  from portal_ends_provisioned [OF heapless_lists_ok flash_array_ok released this] this show ?thesis
    by (fastforce simp: flash_array_def)
qed

section \<open>Two boots\<close>

text \<open>A boot that runs in provisioning and ends in a reset leaves the flash the portal left.\<close>

lemma boot_resets:
  assumes "boot dv None None level s r w f = Some (Ret (WatchdogReset, f'))" "\<not> check_factory_reset level"
  shows "validate_platform (dv_board dv) (dv_part dv) = Ret () \<and>
     (\<exists>p p'. portal_server (dv_hl dv) (dv_board dv) (dv_flash dv) (dv_radio dv) (dv_portal_socket dv) p =
        Some (Ret p') \<and> f' = ps_flash p')"
proof -
  have "validate_platform (dv_board dv) (dv_part dv) = Ret ()"
    using assms(1) by (cases "validate_platform (dv_board dv) (dv_part dv)") (auto simp: boot_def)
  moreover have "start (dv_hl dv) (dv_board dv) (dv_flash dv) None None level f \<noteq> Ret (BootReset, f1)" for f1
    using assms(2) by (auto simp: start_def bind_exec_eq_Ret split: option.splits)
  ultimately show ?thesis
    using assms(1)
    by (auto simp: boot_def ap_mode_def Let_def elim!: bind_io_cases split: boot_action.splits if_splits) blast
qed

lemma boot_station:
  assumes "validate_platform (dv_board dv) (dv_part dv) = Ret ()"
    and "start (dv_hl dv) (dv_board dv) (dv_flash dv) None None level f = Ret (StaMode c, f')"
  shows "boot dv None None level s r w f =
     bind_io (sta_mode (dv_hl dv) (dv_from_slice dv) (dv_to_slice dv) (dv_features dv) (dv_network dv) c w)
       (\<lambda>(e, events, w'). Some (Ret (Serving e, f')))"
  using assms by (simp add: boot_def)

text \<open>C5: A device that resets itself was provisioned. On a device without credentials of the build, if a
  boot with the button not held ends in a reset of the watchdog, whatever was sent to its portal, then the
  next boot with the button not held runs the station mode, with credentials that had joined their network
  during the boot before.\<close>

theorem reset_boot_serves:
  assumes "heapless_ok (dv_hl dv)" "nor_flash_ok (dv_flash dv) mem"
    and "boot dv None None level s r w f = Some (Ret (WatchdogReset, f'))"
    and "\<not> check_factory_reset level" "\<not> check_factory_reset level'"
    and "fl_read (dv_flash dv) (CRED_FLASH_OFFSET (dv_board dv)) (replicate CRED_RECORD_SIZE 0) f' = (Ok (), buf, f'')"
  shows "\<exists>c ra. fst (ra_join (dv_radio dv) (cr_ssid c) (as_bytes (cr_password c)) ra) \<and>
     boot dv None None level' s' r' w' f' =
       bind_io (sta_mode (dv_hl dv) (dv_from_slice dv) (dv_to_slice dv) (dv_features dv) (dv_network dv) c w')
         (\<lambda>(e, events, w''). Some (Ret (Serving e, f'')))"
proof -
  obtain p p' where portal: "portal_server (dv_hl dv) (dv_board dv) (dv_flash dv) (dv_radio dv)
      (dv_portal_socket dv) p = Some (Ret p')" "f' = ps_flash p'"
    and valid: "validate_platform (dv_board dv) (dv_part dv) = Ret ()"
    using boot_resets [OF assms(3,4)] by auto
  from portal_ends_provisioned [OF assms(1,2,5) portal(1)] assms(6) portal(2) obtain c ra where
    "start (dv_hl dv) (dv_board dv) (dv_flash dv) None None level' f' = Ret (StaMode c, f'')"
    "fst (ra_join (dv_radio dv) (cr_ssid c) (as_bytes (cr_password c)) ra)"
    by auto
  then show ?thesis
    using boot_station [OF valid] by blast
qed

definition sample_device :: "(u8 list \<times> u8 list, nat \<Rightarrow> u8, unit, nat) device" where
  "sample_device =
     \<lparr>dv_hl = heapless_lists, dv_from_slice = sample_from_slice, dv_to_slice = sample_to_slice,
      dv_board = Pico2w, dv_features = sample_features, dv_part = 4, dv_flash = flash_array,
      dv_radio = sample_radio, dv_portal_socket = chunk_socket 7, dv_mac = [0, 1, 2, 3, 4, 5],
      dv_dhcp_bound = True, dv_network = sample_network\<rparr>"

lemma sample_device_sel:
  "dv_hl sample_device = heapless_lists" "dv_from_slice sample_device = sample_from_slice"
  "dv_to_slice sample_device = sample_to_slice" "dv_board sample_device = Pico2w"
  "dv_features sample_device = sample_features" "dv_flash sample_device = flash_array"
  "dv_radio sample_device = sample_radio" "dv_network sample_device = sample_network"
  by (simp_all add: sample_device_def)

lemma blank_device: "start heapless_lists Pico2w flash_array None None (\<lambda>t. True) (\<lambda>i. 0xFF) = Ret (ApMode, \<lambda>i. 0xFF)"
  by (simp add: start_def released load_credentials_flash_def flash_array_def map_replicate_const erased_record)

lemma sample_device_provisioned:
  "\<exists>f'. boot sample_device None None (\<lambda>t. True)
     (sample_post @ form_body ''home'' '''' ''s=cret%'' ''10.0.0.7'' 8883, []) () 0 (\<lambda>i. 0xFF) =
     Some (Ret (WatchdogReset, f'))"
proof -
  let ?p = "\<lparr>ps_socket = (sample_post @ form_body ''home'' '''' ''s=cret%'' ''10.0.0.7'' 8883, []),
    ps_flash = (\<lambda>i. 0xFF), ps_radio = (), ps_signals = [Booting, Provisioning]\<rparr>"
  obtain p' where "handle_http_request heapless_lists Pico2w flash_array sample_radio (chunk_socket 7) ?p = Ret (True, p')"
    using form_provisions [OF chunk_socket_stream [of 7] heapless_lists_ok flash_array_ok flash_array_works
      sample_post_facts(1) _ sample_post_facts(2-5) sample_length sample_fields,
      where p = ?p and ra = sample_radio and bd = Pico2w]
    by (auto simp: sample_radio_def)
  then have "portal_server heapless_lists Pico2w flash_array sample_radio (chunk_socket 7) ?p = Some (Ret p')"
    by (subst portal_server.simps) (simp add: chunk_socket_def)
  then show ?thesis
    using blank_device
    by (simp add: boot_def sample_device_def validate_platform_def validate_chip_part_def ap_mode_def signal_def)
qed

theorem reset_boot_serves_witness:
  "\<exists>f' c ra. boot sample_device None None (\<lambda>t. True)
       (sample_post @ form_body ''home'' '''' ''s=cret%'' ''10.0.0.7'' 8883, []) () 0 (\<lambda>i. 0xFF) =
       Some (Ret (WatchdogReset, f')) \<and>
     fst (ra_join sample_radio (cr_ssid c) (as_bytes (cr_password c)) ra) \<and>
     boot sample_device None None (\<lambda>t. True) ([], []) () 0 f' =
       bind_io (sta_mode heapless_lists sample_from_slice sample_to_slice sample_features sample_network c 0)
         (\<lambda>(e, events, w''). Some (Ret (Serving e, f')))"
proof -
  obtain f' where boot: "boot sample_device None None (\<lambda>t. True)
     (sample_post @ form_body ''home'' '''' ''s=cret%'' ''10.0.0.7'' 8883, []) () 0 (\<lambda>i. 0xFF) =
     Some (Ret (WatchdogReset, f'))"
    using sample_device_provisioned by blast
  obtain buf where "fl_read flash_array (CRED_FLASH_OFFSET Pico2w) (replicate CRED_RECORD_SIZE 0) f' = (Ok (), buf, f')"
    by (simp add: flash_array_def)
  then have "\<exists>c ra. fst (ra_join sample_radio (cr_ssid c) (as_bytes (cr_password c)) ra) \<and>
     boot sample_device None None (\<lambda>t. True) ([], []) () 0 f' =
       bind_io (sta_mode heapless_lists sample_from_slice sample_to_slice sample_features sample_network c 0)
         (\<lambda>(e, events, w''). Some (Ret (Serving e, f')))"
    using reset_boot_serves [OF _ _ boot released released, where mem = "\<lambda>f. f" and f'' = f'
        and s' = "([], [])" and r' = "()" and w' = 0] flash_array_ok heapless_lists_ok
    by (simp add: sample_device_sel)
  then show ?thesis
    using boot by blast
qed

end
